(* ===== verification/Prelude.thy ===== *)
theory Prelude
  imports Main "HOL-Library.Word" "HOL-Library.AList" "HOL-Library.Multiset" "HOL-Library.Sublist"
begin

text \<open>
  Shared vocabulary of the development: the error type of the repository, results, hash maps as
  association lists, stable sorting with an explicit comparison, first-occurrence
  deduplication, and the generic lemmas the component theories use.

  \<^item> A Rust \<open>Result<T, Error>\<close> is \<open>error + 'a\<close> (\<open>Inl\<close> is \<open>Err\<close>). A panic is the extra value
    \<open>Panic\<close> of the error type.
  \<^item> A \<open>HashMap\<close>, \<open>DashMap\<close> or \<open>BTreeMap\<close> is an association list whose keys are distinct. Its
    order stands for the iteration order, which Rust leaves open for hash maps: theorems
    about one operation hold for every order of the map they are given.
\<close>

section \<open>Collections of facts\<close>

named_theorems result_simps "equations of the result combinators"
named_theorems inv_intros "preservation of invariants by operations"
named_theorems map_simps "look-up equations of the maps behind the components"

section \<open>Machine types\<close>

type_synonym u8 = "8 word"
type_synonym u32 = "32 word"
type_synonym u64 = "64 word"

text \<open>Rust's \<open>saturating_sub\<close>.\<close>

definition saturating_sub :: "'a::len word \<Rightarrow> 'a word \<Rightarrow> 'a word" where
  "saturating_sub a b = (if b \<le> a then a - b else 0)"

lemma unat_saturating_sub: "unat (saturating_sub a b) = unat a - unat b"
  by (auto simp: saturating_sub_def unat_sub word_le_nat_alt)

lemma saturating_sub_eq_0: "saturating_sub a b = 0 \<longleftrightarrow> a \<le> b"
  by (auto simp: saturating_sub_def)

lemma unat_plus_one: "unat w + 1 < 2 ^ LENGTH('a) \<Longrightarrow> unat (w + 1 :: 'a::len word) = unat w + 1"
  by (simp add: unat_word_ariths)

lemma less_plus_one: "unat w + 1 < 2 ^ LENGTH('a) \<Longrightarrow> w < (w + 1 :: 'a::len word)"
  by (simp add: word_less_nat_alt unat_plus_one)

section \<open>Errors and results\<close>

text \<open>
  \<open>tesseract_common::error::Error\<close>. \<open>IoError\<close> carries no payload here; \<open>Panic\<close> is not a
  constructor of the source type: it marks the places where the code would panic.
\<close>

datatype error =
    DimensionMismatch nat nat
  | IndexOutOfBounds nat nat
  | ParseError nat nat string
  | IoError
  | CorruptWal u64 u64
  | CrcMismatch u32 u32
  | PayloadTruncated nat nat
  | InvalidVector string
  | InvalidConfig string
  | LockPoisoned string
  | SerializationError string
  | JsonError string
  | StoreFull string
  | AlreadyExists string
  | NotFound string
  | IndexNotBuilt
  | UnsupportedDimension nat
  | GraphCorrupt string
  | ShardNotAssigned u64
  | AllShardsFailed
  | NodeConflict string
  | ServiceError string
  | Panic

type_synonym 'a result = "error + 'a"

text \<open>Rust's \<open>?\<close> operator.\<close>

definition rbind :: "'a result \<Rightarrow> ('a \<Rightarrow> 'b result) \<Rightarrow> 'b result" where
  "rbind m f = (case m of Inl e \<Rightarrow> Inl e | Inr x \<Rightarrow> f x)"

lemma rbind_Inl [simp, result_simps]: "rbind (Inl e) f = Inl e"
  by (simp add: rbind_def)

lemma rbind_Inr [simp, result_simps]: "rbind (Inr x) f = f x"
  by (simp add: rbind_def)

lemma rbind_eq_Inr: "rbind m f = Inr y \<longleftrightarrow> (\<exists>x. m = Inr x \<and> f x = Inr y)"
  by (cases m) auto

text \<open>\<open>let _ = op(x)\<close> on a state: an error leaves it as it is.\<close>

definition or_keep :: "('a \<Rightarrow> 's \<Rightarrow> 's result) \<Rightarrow> 'a \<Rightarrow> 's \<Rightarrow> 's" where
  "or_keep f x s = (case f x s of Inr s' \<Rightarrow> s' | Inl _ \<Rightarrow> s)"

text \<open>A loop over a list whose body may return early with an error.\<close>

fun rfold :: "('a \<Rightarrow> 's \<Rightarrow> 's result) \<Rightarrow> 'a list \<Rightarrow> 's \<Rightarrow> 's result" where
  "rfold f [] s = Inr s"
| "rfold f (x # xs) s = rbind (f x s) (rfold f xs)"

lemma rfold_inv:
  "(\<And>x s s'. x \<in> set xs \<Longrightarrow> P s \<Longrightarrow> f x s = Inr s' \<Longrightarrow> P s') \<Longrightarrow> P s \<Longrightarrow> rfold f xs s = Inr s' \<Longrightarrow> P s'"
proof (induction xs arbitrary: s)
  case (Cons x xs)
  then obtain s1 where "f x s = Inr s1" "rfold f xs s1 = Inr s'" by (auto simp: rbind_eq_Inr)
  with Cons show ?case by (meson list.set_intros)
qed simp

lemma rfold_total:
  "(\<And>x s. x \<in> set xs \<Longrightarrow> P s \<Longrightarrow> \<exists>s'. f x s = Inr s' \<and> P s') \<Longrightarrow> P s \<Longrightarrow> \<exists>s'. rfold f xs s = Inr s' \<and> P s'"
proof (induction xs arbitrary: s)
  case (Cons x xs)
  then obtain s1 where "f x s = Inr s1" "P s1" by (meson list.set_intros(1))
  with Cons show ?case by simp
qed simp

section \<open>Decimal text\<close>

text \<open>\<open>{}\<close> of an unsigned integer, as the error messages print it.\<close>

fun show_nat :: "nat \<Rightarrow> string" where
  "show_nat n = (if n < 10 then [char_of (48 + n)] else show_nat (n div 10) @ [char_of (48 + n mod 10)])"

declare show_nat.simps [simp del]

text \<open>Reading digits back, and the prefix and suffix operations of \<open>str\<close>.\<close>

definition is_digit :: "char \<Rightarrow> bool" where
  "is_digit c \<longleftrightarrow> 48 \<le> (of_char c :: nat) \<and> (of_char c :: nat) \<le> 57"

definition digits_val :: "string \<Rightarrow> nat" where
  "digits_val s = foldl (\<lambda>a c. 10 * a + (of_char c - 48)) 0 s"

definition strip_prefix :: "'a list \<Rightarrow> 'a list \<Rightarrow> 'a list option" where
  "strip_prefix p s = (if take (length p) s = p then Some (drop (length p) s) else None)"

definition strip_suffix :: "'a list \<Rightarrow> 'a list \<Rightarrow> 'a list option" where
  "strip_suffix p s = (if length p \<le> length s \<and> drop (length s - length p) s = p
     then Some (take (length s - length p) s) else None)"

definition starts_with :: "'a list \<Rightarrow> 'a list \<Rightarrow> bool" where
  "starts_with s p \<longleftrightarrow> take (length p) s = p"

text \<open>\<open>str::parse\<close> for unsigned integers of the given width: an optional plus sign and digits.\<close>

definition parse_unsigned :: "nat \<Rightarrow> string \<Rightarrow> nat option" where
  "parse_unsigned w s = (let ds = (if s \<noteq> [] \<and> hd s = CHR ''+'' then tl s else s)
     in if ds \<noteq> [] \<and> list_all is_digit ds \<and> digits_val ds < 2 ^ w then Some (digits_val ds) else None)"

lemma of_char_digit: "d < 10 \<Longrightarrow> (of_char (char_of (48 + d) :: char) :: nat) = 48 + d"
  by simp

lemma show_nat_digits: "list_all is_digit (show_nat n)"
proof (induction n rule: show_nat.induct)
  case (1 n)
  moreover have "n mod 10 \<le> 9" by presburger
  ultimately show ?case by (simp add: show_nat.simps [of n] is_digit_def)
qed

lemma show_nat_nonempty [simp]: "show_nat n \<noteq> []"
  by (simp add: show_nat.simps [of n])

lemma digits_val_snoc: "digits_val (s @ [c]) = 10 * digits_val s + (of_char c - 48)"
  by (simp add: digits_val_def)

lemma digits_val_show_nat: "digits_val (show_nat n) = n"
proof (induction n rule: show_nat.induct)
  case (1 n)
  show ?case
  proof (cases "n < 10")
    case True
    then show ?thesis by (simp add: show_nat.simps [of n] digits_val_def)
  next
    case False
    then show ?thesis using "1.IH" by (simp add: show_nat.simps [of n] digits_val_snoc)
  qed
qed

section \<open>Maps as association lists\<close>

definition wf_map :: "('k \<times> 'v) list \<Rightarrow> bool" where
  "wf_map m \<longleftrightarrow> distinct (map fst m)"

lemma wf_map_Nil [simp, inv_intros]: "wf_map []"
  by (simp add: wf_map_def)

lemma wf_map_update [simp, inv_intros]: "wf_map m \<Longrightarrow> wf_map (AList.update k v m)"
  by (simp add: wf_map_def distinct_update)

lemma wf_map_delete [simp, inv_intros]: "wf_map m \<Longrightarrow> wf_map (AList.delete k m)"
  by (simp add: wf_map_def distinct_delete)

lemma map_of_update [simp, map_simps]: "map_of (AList.update k v m) = (map_of m)(k \<mapsto> v)"
  by (rule update_conv')

lemma map_of_delete [simp, map_simps]: "map_of (AList.delete k m) = (map_of m)(k := None)"
  by (rule delete_conv')

lemma length_update_new: "map_of m k = None \<Longrightarrow> length (AList.update k v m) = Suc (length m)"
  by (induction m) (auto split: if_splits)

lemma length_update_old: "map_of m k = Some w \<Longrightarrow> length (AList.update k v m) = length m"
  by (induction m) (auto split: if_splits)

lemma set_update_new: "map_of m k = None \<Longrightarrow> set (AList.update k v m) = insert (k, v) (set m)"
  by (induction m) (auto split: if_splits)

lemma wf_map_lookup: "wf_map m \<Longrightarrow> map_of m k = Some v \<longleftrightarrow> (k, v) \<in> set m"
  unfolding wf_map_def by (metis map_of_SomeD map_of_is_SomeI)

lemma wf_map_filter: "wf_map m \<Longrightarrow> wf_map (filter P m)"
  by (auto simp: wf_map_def distinct_map_filter)

lemma wf_map_vals: "wf_map m \<Longrightarrow> wf_map (map (\<lambda>(k, v). (k, f k v)) m)"
  by (simp add: wf_map_def case_prod_beta comp_def)

lemma map_of_vals: "map_of (map (\<lambda>(k, v). (k, f k v)) m) k = map_option (f k) (map_of m k)"
  by (induction m) auto

lemma map_of_filter_keys: "map_of (filter (\<lambda>p. P (fst p)) m) k = (if P k then map_of m k else None)"
  by (induction m) auto

lemma wf_map_card: "wf_map m \<Longrightarrow> length m = card (fst ` set m)"
  unfolding wf_map_def using distinct_card [of "map fst m"] by simp

lemma set_delete: "set (AList.delete k m) = {p \<in> set m. fst p \<noteq> k}"
  by (auto simp: AList.delete_eq)

lemma length_delete_old: "wf_map m \<Longrightarrow> map_of m k = Some v \<Longrightarrow> Suc (length (AList.delete k m)) = length m"
proof (induction m)
  case (Cons p m)
  show ?case
  proof (cases "fst p = k")
    case True
    then have "k \<notin> fst ` set m" using Cons.prems(1) by (auto simp: wf_map_def)
    then have "AList.delete k m = m" by (simp add: delete_idem)
    then show ?thesis using True by (cases p) simp
  next
    case False
    then show ?thesis using Cons by (cases p) (auto simp: wf_map_def)
  qed
qed simp

section \<open>Stable sorting with a comparison\<close>

text \<open>
  Rust's \<open>sort_by\<close> and \<open>sort_by_key\<close> are stable. For a comparison that is a total preorder the
  stable sorted permutation is unique, so insertion sort computes what the library computes.
  \<open>le a b\<close> reads: the comparison of \<open>a\<close> with \<open>b\<close> is not \<open>Greater\<close>.
\<close>

fun insert_by :: "('a \<Rightarrow> 'a \<Rightarrow> bool) \<Rightarrow> 'a \<Rightarrow> 'a list \<Rightarrow> 'a list" where
  "insert_by le x [] = [x]"
| "insert_by le x (y # ys) = (if le x y then x # y # ys else y # insert_by le x ys)"

fun sort_by :: "('a \<Rightarrow> 'a \<Rightarrow> bool) \<Rightarrow> 'a list \<Rightarrow> 'a list" where
  "sort_by le [] = []"
| "sort_by le (x # xs) = insert_by le x (sort_by le xs)"

lemma mset_insert_by [simp]: "mset (insert_by le x xs) = add_mset x (mset xs)"
  by (induction xs) auto

lemma mset_sort_by [simp]: "mset (sort_by le xs) = mset xs"
  by (induction xs) auto

lemma set_sort_by [simp]: "set (sort_by le xs) = set xs"
  by (metis mset_sort_by set_mset_mset)

lemma length_sort_by [simp]: "length (sort_by le xs) = length xs"
  by (metis mset_sort_by size_mset)

lemma sort_by_Nil_iff [simp]: "sort_by le xs = [] \<longleftrightarrow> xs = []"
  by (metis length_0_conv length_sort_by)

lemma set_insert_by [simp]: "set (insert_by le x xs) = insert x (set xs)"
  by (metis mset_insert_by set_mset_add_mset_insert set_mset_mset)

lemma distinct_sort_by [simp]: "distinct (sort_by le xs) \<longleftrightarrow> distinct xs"
  by (rule mset_eq_imp_distinct_iff) simp

lemma insert_by_map: "map f (insert_by (\<lambda>a b. le (f a) (f b)) x xs) = insert_by le (f x) (map f xs)"
  by (induction xs) auto

lemma sort_by_map: "map f (sort_by (\<lambda>a b. le (f a) (f b)) xs) = sort_by le (map f xs)"
  by (induction xs) (auto simp: insert_by_map)

text \<open>
  The contract of a comparison that a sort relies on: total and transitive on the values that
  occur. The ranking of search results uses it with the distances that are not NaN.
\<close>

locale ranking =
  fixes le :: "'a \<Rightarrow> 'a \<Rightarrow> bool"
    and ok :: "'a \<Rightarrow> bool"
  assumes le_total: "ok x \<Longrightarrow> ok y \<Longrightarrow> le x y \<or> le y x"
    and le_trans: "ok x \<Longrightarrow> ok y \<Longrightarrow> ok z \<Longrightarrow> le x y \<Longrightarrow> le y z \<Longrightarrow> le x z"
begin

lemma sorted_insert_by:
  "ok x \<Longrightarrow> \<forall>y\<in>set xs. ok y \<Longrightarrow> sorted_wrt le xs \<Longrightarrow> sorted_wrt le (insert_by le x xs)"
proof (induction xs)
  case Nil
  then show ?case by simp
next
  case (Cons y ys)
  show ?case
  proof (cases "le x y")
    case True
    with Cons.prems show ?thesis by (auto intro: le_trans)
  next
    case False
    with Cons.prems have "le y x" using le_total by auto
    with False Cons show ?thesis by auto
  qed
qed

lemma sorted_sort_by: "\<forall>y\<in>set xs. ok y \<Longrightarrow> sorted_wrt le (sort_by le xs)"
  by (induction xs) (auto intro: sorted_insert_by)

text \<open>The best element comes first: nothing that was left out by a truncation is strictly better.\<close>

lemma take_best:
  assumes ok: "\<forall>y\<in>set xs. ok y"
    and x: "x \<in> set (take k (sort_by le xs))" and y: "y \<in> set (drop k (sort_by le xs))"
  shows "le x y"
proof -
  have "sorted_wrt le (take k (sort_by le xs) @ drop k (sort_by le xs))"
    using sorted_sort_by [OF ok] by simp
  with x y show ?thesis unfolding sorted_wrt_append by blast
qed

text \<open>\<open>min_by\<close>, which keeps the first of several minimal elements, is the head of the stable sort.\<close>

lemma hd_sort_by: "hd (sort_by le (x # xs)) = (if xs = [] then x else if le x (hd (sort_by le xs)) then x else hd (sort_by le xs))"
proof (cases "sort_by le xs")
  case Nil
  then have "xs = []" by (simp only: sort_by_Nil_iff)
  then show ?thesis by simp
next
  case (Cons m ms)
  then have "xs \<noteq> []" by auto
  then show ?thesis using Cons by simp
qed

lemma min_by_hd_sort:
  "\<forall>y\<in>set (x # xs). ok y \<Longrightarrow> foldl (\<lambda>a b. if le a b then a else b) x xs = hd (sort_by le (x # xs))"
proof (induction xs arbitrary: x)
  case (Cons y ys)
  let ?z = "if le x y then x else y"
  have "foldl (\<lambda>a b. if le a b then a else b) ?z ys = hd (sort_by le (?z # ys))" by (rule Cons.IH) (use Cons.prems in auto)
  moreover have "hd (sort_by le (?z # ys)) = hd (sort_by le (x # y # ys))"
  proof (cases "ys = []")
    case False
    define m where "m = hd (sort_by le ys)"
    have "sort_by le ys \<noteq> []" using False by (simp only: sort_by_Nil_iff not_False_eq_True)
    then have "m \<in> set ys" unfolding m_def using hd_in_set set_sort_by by metis
    then have ok: "ok x" "ok y" "ok m" using Cons.prems by auto
    have "hd (sort_by le (w # ys)) = (if le w m then w else m)" for w using False by (simp only: hd_sort_by m_def if_False)
    moreover have "hd (sort_by le (x # y # ys)) = (if le x (if le y m then y else m) then x else if le y m then y else m)"
      using False by (simp only: hd_sort_by m_def if_False list.distinct(2))
    ultimately show ?thesis using ok le_trans [of x y m] le_trans [of x m y] le_total [of x y] le_total [of y m] le_trans [of m y x]
        le_trans [of y x m] le_total [of x m] by (simp split: if_splits)
  qed simp
  ultimately show ?case by simp
qed simp

lemma sort_by_fixed: "sorted_wrt le xs \<Longrightarrow> sort_by le xs = xs"
proof (induction xs)
  case (Cons x xs)
  then show ?case by (cases xs) auto
qed simp

end

section \<open>Keeping the first occurrence of a key\<close>

text \<open>\<open>let mut seen = HashSet::new(); v.retain(|x| seen.insert(key(x)))\<close>.\<close>

fun retain_first :: "('a \<Rightarrow> 'k) \<Rightarrow> 'k set \<Rightarrow> 'a list \<Rightarrow> 'a list" where
  "retain_first key seen [] = []"
| "retain_first key seen (x # xs) =
     (if key x \<in> seen then retain_first key seen xs
      else x # retain_first key (insert (key x) seen) xs)"

lemma retain_first_subseq: "subseq (retain_first key seen xs) xs"
  by (induction xs arbitrary: seen) auto

lemma set_retain_first: "set (retain_first key seen xs) \<subseteq> set xs"
  by (induction xs arbitrary: seen) auto

lemma retain_first_notin: "x \<in> set (retain_first key seen xs) \<Longrightarrow> key x \<notin> seen"
  by (induction xs arbitrary: seen) (auto split: if_splits)

lemma distinct_retain_first: "distinct (map key (retain_first key seen xs))"
  by (induction xs arbitrary: seen) (auto dest: retain_first_notin)

lemma keys_retain_first: "key ` set (retain_first key seen xs) = key ` set xs - seen"
  by (induction xs arbitrary: seen) auto

lemma retain_first_sorted:
  "sorted_wrt le xs \<Longrightarrow> sorted_wrt le (retain_first key seen xs)"
  by (induction xs arbitrary: seen) (use set_retain_first in fastforce)+

lemma retain_first_best:
  "sorted_wrt le xs \<Longrightarrow> (\<And>z. z \<in> set xs \<Longrightarrow> le z z) \<Longrightarrow> x \<in> set (retain_first key seen xs) \<Longrightarrow>
     y \<in> set xs \<Longrightarrow> key y = key x \<Longrightarrow> le x y"
proof (induction xs arbitrary: seen)
  case (Cons z zs)
  show ?case
  proof (cases "key z \<in> seen")
    case True
    then have "x \<in> set (retain_first key seen zs)" using Cons.prems by simp
    moreover from this True have "y \<noteq> z"
      using Cons.prems(5) retain_first_notin by fastforce
    ultimately show ?thesis using Cons by auto
  next
    case False
    then consider "x = z" | "x \<in> set (retain_first key (insert (key z) seen) zs)"
      using Cons.prems by auto
    then show ?thesis
    proof cases
      case 1
      then show ?thesis using Cons.prems by auto
    next
      case 2
      then have "key x \<noteq> key z" using retain_first_notin by fastforce
      then have "y \<in> set zs" using Cons.prems by auto
      then show ?thesis using 2 Cons by auto
    qed
  qed
qed simp

lemma retain_first_id: "distinct (map key xs) \<Longrightarrow> key ` set xs \<inter> seen = {} \<Longrightarrow> retain_first key seen xs = xs"
  by (induction xs arbitrary: seen) auto

section \<open>Lists\<close>

lemma distinct_map_take: "distinct (map f xs) \<Longrightarrow> distinct (map f (take k xs))"
  by (metis distinct_take take_map)

text \<open>Sorting, keeping the first of every key and truncating gives the best \<open>k\<close> keys, each with its best element.\<close>

context ranking
begin

lemma top_unique:
  fixes key :: "'a \<Rightarrow> 'k" and k :: nat
  assumes ok: "\<forall>x\<in>set rs. ok x"
  defines "best_k \<equiv> take k (retain_first key {} (sort_by le rs))"
  shows "length best_k \<le> k" "distinct (map key best_k)" "set best_k \<subseteq> set rs" "sorted_wrt le best_k"
    "\<forall>x\<in>set best_k. \<forall>y\<in>set rs. key y = key x \<longrightarrow> le x y"
    "\<forall>y\<in>set rs. key y \<notin> key ` set best_k \<longrightarrow> (\<forall>x\<in>set best_k. le x y) \<and> length best_k = k"
proof -
  let ?s = "sort_by le rs" and ?f = "retain_first key {} (sort_by le rs)"
  have sub: "set best_k \<subseteq> set ?f" "set ?f \<subseteq> set rs" using set_retain_first [of key "{}" ?s] by (auto simp: best_k_def dest: in_set_takeD)
  have so: "sorted_wrt le ?s" by (rule sorted_sort_by [OF ok])
  have sf: "sorted_wrt le ?f" by (rule retain_first_sorted [OF so])
  have refl: "le z z" if "z \<in> set ?s" for z using that ok le_total by auto
  note best = retain_first_best [OF so refl]
  show "length best_k \<le> k" by (simp add: best_k_def)
  show "distinct (map key best_k)" unfolding best_k_def by (intro distinct_map_take distinct_retain_first)
  show "set best_k \<subseteq> set rs" using sub by blast
  show "sorted_wrt le best_k" unfolding best_k_def using sf by (rule sorted_wrt_take)
  show "\<forall>x\<in>set best_k. \<forall>y\<in>set rs. key y = key x \<longrightarrow> le x y"
  proof (intro ballI impI)
    fix x y assume x: "x \<in> set best_k" and y: "y \<in> set rs" "key y = key x"
    show "le x y" by (rule best [where key = key and seen = "{}"]) (use x y sub(1) in auto)
  qed
  show "\<forall>y\<in>set rs. key y \<notin> key ` set best_k \<longrightarrow> (\<forall>x\<in>set best_k. le x y) \<and> length best_k = k"
  proof (intro ballI impI)
    fix y assume y: "y \<in> set rs" and n: "key y \<notin> key ` set best_k"
    obtain z where z: "z \<in> set ?f" "key z = key y" using y keys_retain_first [of key "{}" ?s] by (metis Diff_empty image_iff set_sort_by)
    have zd: "z \<in> set (drop k ?f)"
      using z n set_append [of "take k ?f" "drop k ?f"] unfolding append_take_drop_id best_k_def by (metis Un_iff image_eqI)
    have zy: "le z y" by (rule best [where key = key and seen = "{}"]) (use y z in auto)
    have xz: "le x z" if "x \<in> set best_k" for x
      using that zd sf sorted_wrt_append [of le "take k ?f" "drop k ?f"] unfolding append_take_drop_id best_k_def by blast
    have "le x y" if x: "x \<in> set best_k" for x
    proof -
      have "ok x" "ok z" "ok y" using x y z(1) sub ok by blast+
      then show ?thesis using le_trans xz [OF x] zy by blast
    qed
    moreover have "drop k ?f \<noteq> []" using zd by (metis empty_iff empty_set)
    ultimately show "(\<forall>x\<in>set best_k. le x y) \<and> length best_k = k" by (simp add: best_k_def)
  qed
qed

end

lemma distinct_map_remove1: "distinct (map f xs) \<Longrightarrow> distinct (map f (remove1 x xs))"
proof (induction xs)
  case (Cons a xs)
  then show ?case using set_remove1_subset [of x xs] by auto
qed simp

end
