(* ===== verification/Floats.thy ===== *)
theory Floats
  imports Complex_Main Prelude
begin

text \<open>
  Rust's \<open>f32\<close> and \<open>f64\<close>: IEEE 754 binary32 and binary64 with round-to-nearest-even, as
  executable functions on exact rationals. A float is NaN, an infinity (\<open>True\<close> is the negative
  one), the negative zero or a finite number given by its exact value (NaN payloads are not
  distinguished). Every operation computes the exact result and rounds it once.
\<close>

section \<open>Data and formats\<close>

datatype fmt = F32 | F64

datatype fl = NaN | Infty bool | NZero | Num rat

type_synonym f32 = fl
type_synonym f64 = fl

fun prec :: "fmt \<Rightarrow> int" where
  "prec F32 = 24"
| "prec F64 = 53"

fun emin :: "fmt \<Rightarrow> int" where
  "emin F32 = -149"
| "emin F64 = -1074"

fun emax :: "fmt \<Rightarrow> int" where
  "emax F32 = 128"
| "emax F64 = 1024"

definition pow2 :: "int \<Rightarrow> rat" where
  "pow2 e = (if 0 \<le> e then 2 ^ nat e else 1 / 2 ^ nat (- e))"

text \<open>The number of bits of a positive integer.\<close>

fun blen :: "int \<Rightarrow> int" where
  "blen n = (if n \<le> 0 then 0 else 1 + blen (n div 2))"

declare blen.simps [simp del]

text \<open>The exponent of a positive rational: \<open>pow2 (ilog2 q) \<le> q < pow2 (ilog2 q + 1)\<close>.\<close>

definition ilog2 :: "rat \<Rightarrow> int" where
  "ilog2 q = (let (a, b) = quotient_of q; e = blen a - blen b in if pow2 e \<le> q then e else e - 1)"

text \<open>Round to the nearest integer, ties to even.\<close>

definition rne :: "rat \<Rightarrow> int" where
  "rne q = (let f = \<lfloor>q\<rfloor>; d = q - of_int f in
     if d < 1 / 2 then f else if 1 / 2 < d then f + 1 else if even f then f else f + 1)"

definition fzero :: "bool \<Rightarrow> fl" where
  "fzero neg = (if neg then NZero else Num 0)"

text \<open>The unit in the last place used for a magnitude \<open>q\<close>, as an exponent of two.\<close>

definition ulp_exp :: "fmt \<Rightarrow> rat \<Rightarrow> int" where
  "ulp_exp F q = max (emin F) (ilog2 q - (prec F - 1))"

text \<open>Round the magnitude \<open>q\<close> (not negative) to the format and give it the sign.\<close>

definition round_mag :: "fmt \<Rightarrow> bool \<Rightarrow> rat \<Rightarrow> fl" where
  "round_mag F neg q =
     (if q = 0 then fzero neg
      else let e = ulp_exp F q; v = of_int (rne (q / pow2 e)) * pow2 e in
        if v = 0 then fzero neg
        else if pow2 (emax F) \<le> v then Infty neg
        else Num (if neg then - v else v))"

definition fround :: "fmt \<Rightarrow> rat \<Rightarrow> fl" where
  "fround F x = round_mag F (x < 0) \<bar>x\<bar>"

fun fval :: "fl \<Rightarrow> rat" where
  "fval (Num q) = q"
| "fval _ = 0"

text \<open>The sign bit.\<close>

fun fsign :: "fl \<Rightarrow> bool" where
  "fsign NaN = False"
| "fsign (Infty s) = s"
| "fsign NZero = True"
| "fsign (Num q) = (q < 0)"

section \<open>Arithmetic\<close>

fun fneg :: "fl \<Rightarrow> fl" where
  "fneg NaN = NaN"
| "fneg (Infty s) = Infty (\<not> s)"
| "fneg NZero = Num 0"
| "fneg (Num q) = (if q = 0 then NZero else Num (- q))"

fun fadd :: "fmt \<Rightarrow> fl \<Rightarrow> fl \<Rightarrow> fl" where
  "fadd F NaN b = NaN"
| "fadd F a NaN = NaN"
| "fadd F (Infty s) (Infty t) = (if s = t then Infty s else NaN)"
| "fadd F (Infty s) b = Infty s"
| "fadd F a (Infty t) = Infty t"
| "fadd F NZero NZero = NZero"
| "fadd F a b = fround F (fval a + fval b)"

definition fsub :: "fmt \<Rightarrow> fl \<Rightarrow> fl \<Rightarrow> fl" where
  "fsub F a b = fadd F a (fneg b)"

definition fmul :: "fmt \<Rightarrow> fl \<Rightarrow> fl \<Rightarrow> fl" where
  "fmul F a b = (let s = (fsign a \<noteq> fsign b) in
     case (a, b) of
       (NaN, _) \<Rightarrow> NaN
     | (_, NaN) \<Rightarrow> NaN
     | (Infty _, Infty _) \<Rightarrow> Infty s
     | (Infty _, _) \<Rightarrow> (if fval b = 0 then NaN else Infty s)
     | (_, Infty _) \<Rightarrow> (if fval a = 0 then NaN else Infty s)
     | _ \<Rightarrow> round_mag F s \<bar>fval a * fval b\<bar>)"

definition fdiv :: "fmt \<Rightarrow> fl \<Rightarrow> fl \<Rightarrow> fl" where
  "fdiv F a b = (let s = (fsign a \<noteq> fsign b) in
     case (a, b) of
       (NaN, _) \<Rightarrow> NaN
     | (_, NaN) \<Rightarrow> NaN
     | (Infty _, Infty _) \<Rightarrow> NaN
     | (Infty _, _) \<Rightarrow> Infty s
     | (_, Infty _) \<Rightarrow> fzero s
     | _ \<Rightarrow> (if fval b = 0 then (if fval a = 0 then NaN else Infty s)
             else round_mag F s \<bar>fval a / fval b\<bar>))"

text \<open>Integer square root: the largest \<open>r\<close> with \<open>r * r \<le> n\<close>.\<close>

fun isqrt :: "int \<Rightarrow> int" where
  "isqrt n = (if n \<le> 0 then 0 else let r = 2 * isqrt (n div 4) in if (r + 1) * (r + 1) \<le> n then r + 1 else r)"

declare isqrt.simps [simp del]

fun fsqrt :: "fmt \<Rightarrow> fl \<Rightarrow> fl" where
  "fsqrt F NaN = NaN"
| "fsqrt F (Infty s) = (if s then NaN else Infty False)"
| "fsqrt F NZero = NZero"
| "fsqrt F (Num q) =
     (if q < 0 then NaN else if q = 0 then Num 0
      else let e = max (emin F) (ilog2 q div 2 - (prec F - 1));
               s = q / (pow2 e * pow2 e);
               m = of_int (isqrt \<lfloor>s\<rfloor>);
               h = (m + 1 / 2) * (m + 1 / 2);
               r = (if s < h then m else if h < s then m + 1 else of_int (rne (m + 1 / 2)))
           in Num (r * pow2 e))"

fun fabs :: "fl \<Rightarrow> fl" where
  "fabs NaN = NaN"
| "fabs (Infty s) = Infty False"
| "fabs NZero = Num 0"
| "fabs (Num q) = Num \<bar>q\<bar>"

section \<open>Comparison\<close>

datatype ordering = Less | Equal | Greater

fun frank :: "fl \<Rightarrow> int \<times> rat" where
  "frank NaN = (0, 0)"
| "frank (Infty s) = ((if s then -1 else 1), 0)"
| "frank NZero = (0, 0)"
| "frank (Num q) = (0, q)"

definition flt :: "fl \<Rightarrow> fl \<Rightarrow> bool" where
  "flt a b \<longleftrightarrow> a \<noteq> NaN \<and> b \<noteq> NaN \<and>
     (fst (frank a) < fst (frank b) \<or> fst (frank a) = fst (frank b) \<and> snd (frank a) < snd (frank b))"

definition feq :: "fl \<Rightarrow> fl \<Rightarrow> bool" where
  "feq a b \<longleftrightarrow> a \<noteq> NaN \<and> b \<noteq> NaN \<and> frank a = frank b"

definition fle :: "fl \<Rightarrow> fl \<Rightarrow> bool" where
  "fle a b \<longleftrightarrow> flt a b \<or> feq a b"

definition partial_cmp :: "fl \<Rightarrow> fl \<Rightarrow> ordering option" where
  "partial_cmp a b = (if a = NaN \<or> b = NaN then None
     else if flt a b then Some Less else if flt b a then Some Greater else Some Equal)"

text \<open>\<open>a.partial_cmp(&b).unwrap_or(Ordering::Equal)\<close>, and "not \<open>Greater\<close>" under it.\<close>

definition cmp_or_equal :: "fl \<Rightarrow> fl \<Rightarrow> ordering" where
  "cmp_or_equal a b = (case partial_cmp a b of None \<Rightarrow> Equal | Some c \<Rightarrow> c)"

definition fle_total :: "fl \<Rightarrow> fl \<Rightarrow> bool" where
  "fle_total a b \<longleftrightarrow> cmp_or_equal a b \<noteq> Greater"

definition is_finite :: "fl \<Rightarrow> bool" where
  "is_finite a = (case a of NaN \<Rightarrow> False | Infty _ \<Rightarrow> False | _ \<Rightarrow> True)"

section \<open>Conversions\<close>

definition fof_int :: "fmt \<Rightarrow> int \<Rightarrow> fl" where
  "fof_int F i = fround F (of_int i)"

text \<open>\<open>as f32\<close> and \<open>as f64\<close> between the formats.\<close>

fun fcast :: "fmt \<Rightarrow> fl \<Rightarrow> fl" where
  "fcast F (Num q) = fround F q"
| "fcast F a = a"

text \<open>A float cast to an integer type with bounds \<open>lo\<close> and \<open>hi\<close>: truncation, saturation, NaN to 0.\<close>

definition trunc_rat :: "rat \<Rightarrow> int" where
  "trunc_rat q = (if 0 \<le> q then \<lfloor>q\<rfloor> else - \<lfloor>- q\<rfloor>)"

fun fto_int :: "int \<Rightarrow> int \<Rightarrow> fl \<Rightarrow> int" where
  "fto_int lo hi NaN = 0"
| "fto_int lo hi (Infty s) = (if s then lo else hi)"
| "fto_int lo hi NZero = 0"
| "fto_int lo hi (Num q) = max lo (min hi (trunc_rat q))"

text \<open>A decimal literal of the source: the nearest float.\<close>

abbreviation flit :: "fmt \<Rightarrow> rat \<Rightarrow> fl" where
  "flit F q \<equiv> fround F q"

text \<open>
  \<open>iter().sum()\<close>: a left fold from the negative zero (Rust 1.83 and later). \<open>fmax\<close>, \<open>fmin\<close>
  and \<open>fclamp\<close> are \<open>f64::max\<close>, \<open>min\<close> and \<open>clamp\<close>.
\<close>

definition fsum :: "fmt \<Rightarrow> fl list \<Rightarrow> fl" where
  "fsum F xs = foldl (fadd F) NZero xs"

definition fclamp :: "fl \<Rightarrow> fl \<Rightarrow> fl \<Rightarrow> fl" where
  "fclamp lo hi x = (if flt x lo then lo else if flt hi x then hi else x)"

definition fmin :: "fl \<Rightarrow> fl \<Rightarrow> fl" where
  "fmin a b = (if a = NaN then b else if b = NaN then a else if flt b a then b else a)"

fun fceil :: "fl \<Rightarrow> fl" where
  "fceil (Num q) = (if -1 < q \<and> q < 0 then NZero else Num (of_int \<lceil>q\<rceil>))"
| "fceil a = a"

section \<open>Powers of two and exponents\<close>

lemma pow2_powi: "pow2 e = 2 powi e"
  unfolding pow2_def power_int_def power_inverse divide_inverse mult_1 by (rule refl)

lemma pow2_pos [simp]: "0 < pow2 e"
  by (simp add: pow2_def)

lemma pow2_nonneg [simp]: "0 \<le> pow2 e"
  by (simp add: less_imp_le)

lemma pow2_nonzero [simp]: "pow2 e \<noteq> 0"
  by (metis pow2_pos less_irrefl)

lemma pow2_add: "pow2 (a + b) = pow2 a * pow2 b"
  by (simp add: pow2_powi power_int_add)

lemma pow2_less: "a < b \<Longrightarrow> pow2 a < pow2 b"
  by (simp add: pow2_powi power_int_strict_increasing)

lemma pow2_less_iff [simp]: "pow2 a < pow2 b \<longleftrightarrow> a < b"
  by (metis pow2_less linorder_neqE_linordered_idom order_less_asym)

lemma pow2_le_iff [simp]: "pow2 a \<le> pow2 b \<longleftrightarrow> a \<le> b"
  by (simp flip: not_less)

lemma pow2_nat: "0 \<le> e \<Longrightarrow> pow2 e = of_int (2 ^ nat e)"
  by (simp add: pow2_def)

lemma pow2_diff_int: "e \<le> d \<Longrightarrow> pow2 d / pow2 e = of_int (2 ^ nat (d - e))"
  using pow2_add [of "d - e" e] by (simp add: pow2_nat)

lemma blen_pos: "0 < n \<Longrightarrow> 1 \<le> blen n"
proof (induction n rule: blen.induct)
  case (1 n)
  show ?case
  proof (cases "0 < n div 2")
    case True
    then have "1 \<le> blen (n div 2)" using "1.IH" "1.prems" by simp
    then show ?thesis using "1.prems" by (simp add: blen.simps [of n])
  next
    case False
    then have "n div 2 = 0" using "1.prems" by linarith
    then show ?thesis using "1.prems" by (simp add: blen.simps [of n] blen.simps [of 0])
  qed
qed

lemma blen_bounds: "0 < n \<Longrightarrow> 2 ^ nat (blen n - 1) \<le> n \<and> n < 2 ^ nat (blen n)"
proof (induction n rule: blen.induct)
  case (1 n)
  show ?case
  proof (cases "0 < n div 2")
    case True
    have b: "2 ^ nat (blen (n div 2) - 1) \<le> n div 2 \<and> n div 2 < 2 ^ nat (blen (n div 2))"
      using "1.IH" "1.prems" True by simp
    have p: "1 \<le> blen (n div 2)" using True by (rule blen_pos)
    have e: "blen n = 1 + blen (n div 2)" using "1.prems" by (simp add: blen.simps [of n])
    have "nat (blen (n div 2)) = Suc (nat (blen (n div 2) - 1))" using p by simp
    then have "(2::int) ^ nat (blen (n div 2)) = 2 * 2 ^ nat (blen (n div 2) - 1)" by simp
    moreover have "(2::int) ^ nat (blen n) = 2 * 2 ^ nat (blen (n div 2))"
      using p e by (simp add: nat_add_distrib)
    ultimately show ?thesis using b e by simp linarith
  next
    case False
    then have "n = 1" using "1.prems" by linarith
    then show ?thesis by (simp add: blen.simps [of 1] blen.simps [of 0])
  qed
qed

lemma ilog2_bounds:
  assumes "0 < q"
  shows "pow2 (ilog2 q) \<le> q" and "q < pow2 (ilog2 q + 1)"
proof -
  obtain a b where ab: "quotient_of q = (a, b)" by fastforce
  have b: "0 < b" and q: "q = of_int a / of_int b"
    using ab quotient_of_denom_pos quotient_of_div by blast+
  have a: "0 < a" using assms q b by (simp add: zero_less_divide_iff)
  let ?e = "blen a - blen b"
  have A: "pow2 (blen a - 1) \<le> of_int a" "of_int a < pow2 (blen a)"
    using blen_bounds [OF a] blen_pos [OF a] by (simp_all add: pow2_nat flip: of_int_power)
  have B: "pow2 (blen b - 1) \<le> of_int b" "of_int b < pow2 (blen b)"
    using blen_bounds [OF b] blen_pos [OF b] by (simp_all add: pow2_nat flip: of_int_power)
  have lo: "pow2 (?e - 1) \<le> q"
  proof -
    have "pow2 (?e - 1) * of_int b \<le> pow2 (?e - 1) * pow2 (blen b)" using B by simp
    also have "\<dots> = pow2 (blen a - 1)" by (simp flip: pow2_add)
    finally show ?thesis using A b by (simp add: q field_simps)
  qed
  have hi: "q < pow2 (?e + 1)"
  proof -
    have "of_int a < pow2 (?e + 1) * pow2 (blen b - 1)" using A by (simp flip: pow2_add)
    also have "\<dots> \<le> pow2 (?e + 1) * of_int b" using B by simp
    finally show ?thesis using b by (simp add: q field_simps)
  qed
  show "pow2 (ilog2 q) \<le> q" and "q < pow2 (ilog2 q + 1)"
    using lo hi ab by (auto simp: ilog2_def Let_def)
qed

lemma ilog2_ge: "0 < q \<Longrightarrow> pow2 e \<le> q \<Longrightarrow> e \<le> ilog2 q"
  using ilog2_bounds(2) [of q] pow2_less_iff [of e "ilog2 q + 1"] by linarith

lemma ilog2_less: "0 < q \<Longrightarrow> q < pow2 e \<Longrightarrow> ilog2 q < e"
  using ilog2_bounds(1) [of q] pow2_less_iff [of "ilog2 q" e] by linarith

section \<open>Rounding\<close>

lemma fround_0 [simp]: "fround F 0 = Num 0"
  by (simp add: fround_def round_mag_def fzero_def)

lemma rne_ge: "of_int n \<le> q \<Longrightarrow> n \<le> rne q"
  using le_floor_iff [of n q] by (auto simp: rne_def Let_def)

lemma rne_le: "q \<le> of_int n \<Longrightarrow> rne q \<le> n"
proof -
  assume q: "q \<le> of_int n"
  show "rne q \<le> n"
  proof (cases "\<lfloor>q\<rfloor> < n")
    case True
    then show ?thesis by (auto simp: rne_def Let_def)
  next
    case False
    then have "q = of_int n" using q by (metis antisym floor_less_iff linorder_not_less)
    then show ?thesis by (simp add: rne_def)
  qed
qed

lemma rne_of_int [simp]: "rne (of_int n) = n"
  by (rule antisym) (auto intro: rne_ge rne_le)

text \<open>An integer multiple of the unit is not changed by rounding.\<close>

lemma round_mag_exact:
  assumes "0 < q" and "q = of_int m * pow2 e" and "e \<ge> emin F" and "q < pow2 (e + prec F)"
    and "q < pow2 (emax F)"
  shows "round_mag F neg q = Num (if neg then - q else q)"
proof -
  have "ilog2 q < e + prec F" using assms ilog2_less by blast
  then have u: "ulp_exp F q \<le> e" using assms(3) by (simp add: ulp_exp_def)
  have "q / pow2 (ulp_exp F q) = of_int (m * 2 ^ nat (e - ulp_exp F q))"
    using pow2_diff_int [OF u] unfolding assms(2) by (metis of_int_mult times_divide_eq_right)
  then have "of_int (rne (q / pow2 (ulp_exp F q))) * pow2 (ulp_exp F q) = q"
    by (metis nonzero_eq_divide_eq pow2_nonzero rne_of_int)
  then show ?thesis using assms(1,5) by (auto simp: round_mag_def Let_def)
qed

lemma prec_emin_emax [simp]: "0 < prec F" "emin F \<le> 0" "prec F < emax F"
  by (cases F; simp)+

lemma fround_of_int:
  assumes "\<bar>i\<bar> < 2 ^ nat (prec F)"
  shows "fround F (of_int i) = Num (of_int i)"
proof (cases "i = 0")
  case True
  then show ?thesis by (simp add: fround_def round_mag_def fzero_def)
next
  case False
  have "rat_of_int \<bar>i\<bar> < of_int (2 ^ nat (prec F))" using assms by (subst of_int_less_iff)
  then have l: "\<bar>rat_of_int i\<bar> < pow2 (prec F)" by (simp add: pow2_nat less_imp_le)
  also have "\<dots> < pow2 (emax F)" by simp
  finally have "round_mag F (i < 0) \<bar>rat_of_int i\<bar> = Num (if i < 0 then - \<bar>rat_of_int i\<bar> else \<bar>rat_of_int i\<bar>)"
    using False l by (intro round_mag_exact [where m = "\<bar>i\<bar>" and e = 0]) (auto simp: pow2_nat)
  then show ?thesis by (simp add: fround_def)
qed

text \<open>
  Rounding does not cross an integer that the format represents: a magnitude of at least \<open>n\<close>
  stays at least \<open>n\<close> for every integer up to two to the precision.
\<close>

lemma round_mag_ge_int:
  assumes "0 < n" and "n \<le> 2 ^ nat (prec F)" and "of_int n \<le> q"
  shows "(\<exists>v. round_mag F False q = Num v \<and> of_int n \<le> v) \<or> round_mag F False q = Infty False"
proof -
  have q: "0 < q" using assms by (meson less_le_trans of_int_0_less_iff)
  let ?e = "ulp_exp F q" and ?m = "rne (q / pow2 (ulp_exp F q))"
  have "of_int n \<le> of_int ?m * pow2 ?e"
  proof (cases "?e \<le> 0")
    case True
    have eq: "of_int n / pow2 ?e = rat_of_int (n * 2 ^ nat (- ?e))"
      using pow2_diff_int [OF True] by (simp add: pow2_def [of 0] field_simps)
    then have "rat_of_int (n * 2 ^ nat (- ?e)) \<le> q / pow2 ?e"
      using assms(3) by (metis divide_right_mono less_imp_le pow2_pos)
    then have "n * 2 ^ nat (- ?e) \<le> ?m" by (rule rne_ge)
    then have "rat_of_int (n * 2 ^ nat (- ?e)) \<le> of_int ?m" by (subst of_int_le_iff)
    then show ?thesis unfolding eq [symmetric] by (simp add: field_simps)
  next
    case False
    then have e: "?e = ilog2 q - (prec F - 1)" by (auto simp: ulp_exp_def max_def split: if_splits)
    have pr: "prec F - 1 \<ge> 0" by (cases F) auto
    have "pow2 (prec F - 1) * pow2 ?e \<le> q" using ilog2_bounds(1) [OF q] e by (simp flip: pow2_add)
    then have "rat_of_int (2 ^ nat (prec F - 1)) \<le> q / pow2 ?e"
      using pr by (simp add: pow2_nat field_simps)
    then have "2 ^ nat (prec F - 1) \<le> ?m" by (rule rne_ge)
    then have "rat_of_int (2 ^ nat (prec F - 1)) * pow2 ?e \<le> of_int ?m * pow2 ?e"
      by (intro mult_right_mono) (auto simp: less_imp_le simp flip: of_int_power)
    moreover have "rat_of_int (2 ^ nat (prec F - 1)) * pow2 ?e = pow2 (ilog2 q)"
      using pow2_add [of "prec F - 1" ?e] e unfolding pow2_nat [OF pr] by simp
    moreover have "pow2 (prec F) \<le> pow2 (ilog2 q)" using False e by simp
    moreover have "rat_of_int n \<le> pow2 (prec F)"
      using assms(2) by (simp add: pow2_nat less_imp_le flip: of_int_power)
    ultimately show ?thesis by linarith
  qed
  moreover from this have "of_int ?m * pow2 ?e \<noteq> 0"
    using assms(1) by (metis not_le of_int_0_less_iff order_less_irrefl less_le_trans)
  ultimately show ?thesis using q by (auto simp: round_mag_def Let_def)
qed

section \<open>Order\<close>

lemma flt_irrefl [simp]: "\<not> flt a a"
  by (simp add: flt_def)

lemma flt_trans: "flt a b \<Longrightarrow> flt b c \<Longrightarrow> flt a c"
  by (auto simp: flt_def)

lemma flt_asym: "flt a b \<Longrightarrow> \<not> flt b a"
  by (auto simp: flt_def)

lemma fle_total_NaN: "a \<noteq> NaN \<Longrightarrow> b \<noteq> NaN \<Longrightarrow> fle_total a b \<longleftrightarrow> \<not> flt b a"
  by (auto simp: fle_total_def cmp_or_equal_def partial_cmp_def dest: flt_asym)

lemma not_flt_trans: "b \<noteq> NaN \<Longrightarrow> \<not> flt b a \<Longrightarrow> \<not> flt c b \<Longrightarrow> \<not> flt c a"
  by (auto simp: flt_def)

text \<open>Distances that are not NaN rank search results, ascending and descending.\<close>

interpretation asc: ranking fle_total "\<lambda>x. x \<noteq> NaN"
  by unfold_locales (auto simp: fle_total_NaN dest: flt_asym not_flt_trans)

interpretation desc: ranking "\<lambda>a b. fle_total b a" "\<lambda>x. x \<noteq> NaN"
  by unfold_locales (auto simp: fle_total_NaN dest: flt_asym not_flt_trans)

interpretation asc_snd: ranking "\<lambda>a b. fle_total (snd a) (snd b)" "\<lambda>x. snd x \<noteq> NaN"
  by unfold_locales (auto simp: fle_total_NaN dest: flt_asym not_flt_trans)

section \<open>Signs\<close>

definition nonneg :: "fl \<Rightarrow> bool" where
  "nonneg a \<longleftrightarrow> a = NaN \<or> a = Infty False \<or> a = NZero \<or> (\<exists>q\<ge>0. a = Num q)"

lemma round_mag_nonneg: "0 \<le> q \<Longrightarrow> nonneg (round_mag F False q)"
proof (cases "q = 0")
  case False
  assume "0 \<le> q"
  then have "0 \<le> rne (q / pow2 (ulp_exp F q))" by (intro rne_ge) (simp add: zero_le_divide_iff)
  then show ?thesis using False by (auto simp: round_mag_def Let_def fzero_def nonneg_def)
qed (simp add: round_mag_def fzero_def nonneg_def)

lemma fmul_self_nonneg: "nonneg (fmul F a a)"
proof (cases a)
  case (Num q)
  then show ?thesis using round_mag_nonneg [of "q * q" F] by (simp add: fmul_def)
next
  case NZero
  then show ?thesis using round_mag_nonneg [of 0 F] by (simp add: fmul_def)
qed (auto simp: fmul_def nonneg_def)

lemma fadd_nonneg: "nonneg a \<Longrightarrow> nonneg b \<Longrightarrow> nonneg (fadd F a b)"
  using round_mag_nonneg [of "fval a + fval b" F]
  by (cases a; cases b) (auto simp: nonneg_def fround_def)

lemma fsum_nonneg: "\<forall>x\<in>set xs. nonneg x \<Longrightarrow> nonneg (fsum F xs)"
proof -
  have "nonneg a \<Longrightarrow> \<forall>x\<in>set xs. nonneg x \<Longrightarrow> nonneg (foldl (fadd F) a xs)" for a
    by (induction xs arbitrary: a) (auto simp: fadd_nonneg)
  then show "\<forall>x\<in>set xs. nonneg x \<Longrightarrow> nonneg (fsum F xs)" by (simp add: fsum_def nonneg_def)
qed

lemma isqrt_nonneg: "0 \<le> isqrt n"
proof (induction n rule: isqrt.induct)
  case (1 n)
  then show ?case by (simp add: isqrt.simps [of n] Let_def)
qed

lemma rne_nonneg: "0 \<le> q \<Longrightarrow> 0 \<le> rne q"
  using rne_ge [of 0 q] by simp

lemma fsqrt_nonneg: "nonneg a \<Longrightarrow> nonneg (fsqrt F a)"
proof (cases a)
  case (Num q)
  assume "nonneg a"
  then show ?thesis
    unfolding Num fsqrt.simps Let_def
    by (auto simp: nonneg_def isqrt_nonneg rne_nonneg intro!: mult_nonneg_nonneg)
qed (auto simp: nonneg_def)

lemma nonneg_not_flt_0: "nonneg a \<Longrightarrow> \<not> flt a (Num 0)"
  by (cases a) (auto simp: nonneg_def flt_def)

text \<open>Subtraction is antisymmetric, so squares of differences are symmetric.\<close>

lemma fneg_fneg [simp]: "fneg (fneg a) = a"
  by (cases a) auto

lemma fval_fneg [simp]: "fval (fneg a) = - fval a"
  by (cases a) auto

lemma fmul_sub_sym: "fmul F (fsub F a b) (fsub F a b) = fmul F (fsub F b a) (fsub F b a)"
proof -
  have r: "fround F (- x) = (if fround F x = Num 0 \<and> x = 0 then Num 0 else fneg (fround F x))" for x
    by (auto simp: fround_def round_mag_def fzero_def Let_def)
  have sq: "fmul F (fneg c) (fneg c) = fmul F c c" for c
    by (cases c) (auto simp: fmul_def Let_def)
  have z: "fround F 0 = Num 0" by (simp add: fround_def round_mag_def fzero_def)
  have "fsub F b a = fneg (fsub F a b) \<or> fsub F b a = fsub F a b \<or>
    (fmul F (fsub F b a) (fsub F b a) = fmul F (fsub F a b) (fsub F a b))"
    using r [of "fval a - fval b"] z sq [of "fsub F a b"]
    by (cases a; cases b) (auto simp: fsub_def split: if_splits)
  then show ?thesis using sq by metis
qed

lemma rne_less: "rat_of_int (rne q) \<le> q + 1"
  using of_int_floor_le [of q] unfolding rne_def Let_def by (auto simp del: of_int_floor_le)

text \<open>A magnitude below a power of two that is well inside the range stays finite.\<close>

lemma round_mag_finite:
  assumes "0 \<le> q" "q < pow2 k" "0 \<le> k" "k < emax F"
  shows "round_mag F neg q = NZero \<or> (\<exists>v. round_mag F neg q = Num v \<and> \<bar>v\<bar> < pow2 (k + 1))"
proof (cases "q = 0")
  case True
  then show ?thesis by (simp add: round_mag_def fzero_def pow2_def assms(3))
next
  case False
  let ?e = "ulp_exp F q"
  have "?e \<le> k" using ilog2_less [of q k] assms False prec_emin_emax [of F] unfolding ulp_exp_def by linarith
  then have e: "pow2 ?e \<le> pow2 k" using pow2_less_iff [of k ?e] by linarith
  have "rat_of_int (rne (q / pow2 ?e)) \<le> q / pow2 ?e + 1" by (rule rne_less)
  then have "of_int (rne (q / pow2 ?e)) * pow2 ?e \<le> (q / pow2 ?e + 1) * pow2 ?e" by (intro mult_right_mono) simp_all
  also have "\<dots> = q + pow2 ?e" by (simp add: field_simps)
  also have "\<dots> < pow2 k + pow2 k" using e assms(2) by linarith
  also have "\<dots> = pow2 (k + 1)" using assms(3) by (simp add: pow2_def nat_add_distrib)
  finally have v: "of_int (rne (q / pow2 ?e)) * pow2 ?e < pow2 (k + 1)" .
  moreover have "pow2 (k + 1) \<le> pow2 (emax F)" using assms(4) pow2_less_iff [of "emax F" "k + 1"] by linarith
  then have "\<not> pow2 (emax F) \<le> of_int (rne (q / pow2 ?e)) * pow2 ?e" using v by linarith
  moreover have "0 \<le> rat_of_int (rne (q / pow2 ?e)) * pow2 ?e" using rne_nonneg assms(1) by simp
  ultimately show ?thesis using False by (auto simp: round_mag_def fzero_def Let_def)
qed

lemma fof_int_finite:
  assumes "0 \<le> i" "i < 2 ^ 64"
  shows "\<exists>v. fof_int F i = Num v \<and> \<bar>v\<bar> < pow2 65"
proof -
  have "rat_of_int i < of_int (2 ^ 64)" using assms(2) by (subst of_int_less_iff)
  then have "rat_of_int i < pow2 64" by (simp add: pow2_def)
  then have "round_mag F False (rat_of_int i) = NZero \<or> (\<exists>v. round_mag F False (rat_of_int i) = Num v \<and> \<bar>v\<bar> < pow2 (64 + 1))"
    using assms(1) by (intro round_mag_finite) (auto, cases F, auto)
  moreover have "round_mag F False q \<noteq> NZero" for q by (simp add: round_mag_def fzero_def Let_def)
  ultimately show ?thesis using assms(1) by (simp add: fof_int_def fround_def)
qed

end
