(* ===== verification/Wal.thy ===== *)
theory Wal
  imports Prelude
begin

text \<open>
  The write-ahead log: \<open>tesseract-storage/src/wal.rs\<close> and the types it uses from
  \<open>tesseract-storage/src/types.rs\<close>.

  The WAL directory is an association list from file names to files. A file holds the bytes
  written to it and how many of them are known to be on disk (\<open>durable\<close>): a crash may cut a file
  back to any length that is at least that number. File names are built and parsed as the code
  does. I/O calls succeed; crashes are modelled by \<open>crash\<close>. CRC32 (crate \<open>crc32fast\<close>) and the bincode
  encoding of the checkpoint are parameters.
\<close>

section \<open>Little-endian integers\<close>

fun le_encode :: "nat \<Rightarrow> nat \<Rightarrow> u8 list" where
  "le_encode 0 v = []"
| "le_encode (Suc n) v = word_of_nat (v mod 256) # le_encode n (v div 256)"

fun le_decode :: "u8 list \<Rightarrow> nat" where
  "le_decode [] = 0"
| "le_decode (b # bs) = unat b + 256 * le_decode bs"

definition u64_to_le_bytes :: "u64 \<Rightarrow> u8 list" where
  "u64_to_le_bytes w = le_encode 8 (unat w)"

definition u32_to_le_bytes :: "u32 \<Rightarrow> u8 list" where
  "u32_to_le_bytes w = le_encode 4 (unat w)"

definition u64_from_le_bytes :: "u8 list \<Rightarrow> u64" where
  "u64_from_le_bytes bs = word_of_nat (le_decode bs)"

definition u32_from_le_bytes :: "u8 list \<Rightarrow> u32" where
  "u32_from_le_bytes bs = word_of_nat (le_decode bs)"

section \<open>Types\<close>

type_synonym segment_id = u64
type_synonym transaction_id = u64

record checkpoint =
  last_flushed_txn_id :: transaction_id
  cp_segment_id :: segment_id

datatype write_mode = Durable | Fast

record wal_config =
  segment_size :: nat
  fsync_interval_ms :: nat
  fsync_interval_ops :: nat

definition default_wal_config :: wal_config where
  "default_wal_config = \<lparr>segment_size = 64 * 1024 * 1024, fsync_interval_ms = 100, fsync_interval_ops = 1000\<rparr>"

datatype op_code_t = InsertVector | DeleteVector | UpdateMetadata | IndexInsert | IndexDelete

fun op_code_u8 :: "op_code_t \<Rightarrow> u8" where
  "op_code_u8 InsertVector = 1"
| "op_code_u8 DeleteVector = 2"
| "op_code_u8 UpdateMetadata = 3"
| "op_code_u8 IndexInsert = 16"
| "op_code_u8 IndexDelete = 17"

definition op_code_try_from :: "u8 \<Rightarrow> op_code_t result" where
  "op_code_try_from v =
     (if v = 1 then Inr InsertVector
      else if v = 2 then Inr DeleteVector
      else if v = 3 then Inr UpdateMetadata
      else if v = 16 then Inr IndexInsert
      else if v = 17 then Inr IndexDelete
      else Inl (SerializationError (''unknown opcode: '' @ show_nat (unat v))))"

record wal_entry =
  txn_id :: transaction_id
  op_code :: u8
  payload :: "u8 list"

section \<open>Entry encoding\<close>

type_synonym crc32 = "u8 list \<Rightarrow> u32"

definition serialize_fields_for_crc :: "u64 \<Rightarrow> u8 \<Rightarrow> u32 \<Rightarrow> u8 list \<Rightarrow> u8 list" where
  "serialize_fields_for_crc txn op len pl = u64_to_le_bytes txn @ [op] @ u32_to_le_bytes len @ pl"

text \<open>\<open>WalEntry::to_bytes\<close>; the length is cast to \<open>u32\<close>.\<close>

definition to_bytes :: "crc32 \<Rightarrow> wal_entry \<Rightarrow> u8 list" where
  "to_bytes crc e =
     (let payload_len = word_of_nat (length (payload e)) :: u32;
          buf = u64_to_le_bytes (txn_id e) @ [op_code e] @ u32_to_le_bytes payload_len @ payload e
      in buf @ u32_to_le_bytes (crc buf))"

text \<open>\<open>WalEntry::from_bytes\<close>.\<close>

definition from_bytes :: "crc32 \<Rightarrow> u8 list \<Rightarrow> (wal_entry \<times> nat) result" where
  "from_bytes crc data =
     (if length data < 17 then Inl (PayloadTruncated 17 (length data))
      else
        let txn = u64_from_le_bytes (take 8 data);
            op = data ! 8;
            payload_len = unat (u32_from_le_bytes (take 4 (drop 9 data)));
            needed = 13 + payload_len + 4
        in if length data < needed then Inl (PayloadTruncated needed (length data))
           else
             let pl = take payload_len (drop 13 data);
                 stored_crc = u32_from_le_bytes (take 4 (drop (13 + payload_len) data));
                 computed_crc = crc (serialize_fields_for_crc txn op (word_of_nat payload_len) pl)
             in if stored_crc \<noteq> computed_crc then Inl (CrcMismatch stored_crc computed_crc)
                else Inr (\<lparr>txn_id = txn, op_code = op, payload = pl\<rparr>, needed))"

section \<open>Files and names\<close>

record wal_file =
  content :: "u8 list"
  durable :: nat

type_synonym dir = "(string \<times> wal_file) list"

definition pad10 :: "nat \<Rightarrow> string" where
  "pad10 n = (let s = show_nat n in replicate (10 - length s) (CHR ''0'') @ s)"

definition segment_path :: "segment_id \<Rightarrow> string" where
  "segment_path i = ''wal-'' @ pad10 (unat i) @ ''.log''"

text \<open>\<open>str::parse::<u64>\<close>: an optional plus sign and at least one digit, no overflow.\<close>

definition parse_u64 :: "string \<Rightarrow> u64 option" where
  "parse_u64 s =
     (let t = (case s of c # cs \<Rightarrow> if c = CHR ''+'' then cs else s | [] \<Rightarrow> s) in
      if t \<noteq> [] \<and> list_all is_digit t \<and> digits_val t < 2 ^ 64 then Some (word_of_nat (digits_val t)) else None)"

text \<open>The name filter of \<open>list_segments\<close>.\<close>

definition segment_id_of_name :: "string \<Rightarrow> segment_id option" where
  "segment_id_of_name name =
     (case strip_prefix ''wal-'' name of
        None \<Rightarrow> None
      | Some rest \<Rightarrow> (case strip_suffix ''.log'' rest of
            None \<Rightarrow> None
          | Some id_str \<Rightarrow> if starts_with id_str ''merged'' then None else parse_u64 id_str))"

definition list_segments :: "dir \<Rightarrow> (segment_id \<times> string) list" where
  "list_segments d = sort_by (\<lambda>a b. fst a \<le> fst b)
     (List.map_filter (\<lambda>(name, _). map_option (\<lambda>i. (i, name)) (segment_id_of_name name)) d)"

section \<open>Segment writer\<close>

record segment_writer =
  sw_path :: string
  sw_segment_id :: segment_id
  bytes_written :: nat
  ops_since_fsync :: nat

definition sw_create :: "dir \<Rightarrow> string \<Rightarrow> segment_id \<Rightarrow> segment_writer \<times> dir" where
  "sw_create d path i =
     (\<lparr>sw_path = path, sw_segment_id = i, bytes_written = 0, ops_since_fsync = 0\<rparr>,
      AList.update path \<lparr>content = [], durable = 0\<rparr> d)"

definition sw_append :: "dir \<Rightarrow> string \<Rightarrow> segment_id \<Rightarrow> segment_writer result" where
  "sw_append d path i = (case map_of d path of
       None \<Rightarrow> Inl IoError
     | Some f \<Rightarrow> Inr \<lparr>sw_path = path, sw_segment_id = i, bytes_written = length (content f), ops_since_fsync = 0\<rparr>)"

definition append_file :: "dir \<Rightarrow> string \<Rightarrow> u8 list \<Rightarrow> dir" where
  "append_file d path bs = (case map_of d path of
       None \<Rightarrow> d
     | Some f \<Rightarrow> AList.update path (f\<lparr>content := content f @ bs\<rparr>) d)"

definition sync_file :: "dir \<Rightarrow> string \<Rightarrow> dir" where
  "sync_file d path = (case map_of d path of
       None \<Rightarrow> d
     | Some f \<Rightarrow> AList.update path (f\<lparr>durable := length (content f)\<rparr>) d)"

definition write_entry :: "segment_writer \<Rightarrow> u8 list \<Rightarrow> dir \<Rightarrow> segment_writer \<times> dir" where
  "write_entry sw bs d =
     (sw\<lparr>bytes_written := bytes_written sw + length bs, ops_since_fsync := ops_since_fsync sw + 1\<rparr>,
      append_file d (sw_path sw) bs)"

definition fsync :: "segment_writer \<Rightarrow> dir \<Rightarrow> segment_writer \<times> dir" where
  "fsync sw d = (sw\<lparr>ops_since_fsync := 0\<rparr>, sync_file d (sw_path sw))"

section \<open>The log\<close>

record wal =
  wal_cfg :: wal_config
  current_segment :: segment_writer
  next_txn_id :: u64

text \<open>The bincode encoding of a checkpoint.\<close>

record cp_codec =
  cp_serialize :: "checkpoint \<Rightarrow> u8 list result"
  cp_deserialize :: "u8 list \<Rightarrow> checkpoint result"

definition read_checkpoint :: "cp_codec \<Rightarrow> dir \<Rightarrow> checkpoint result" where
  "read_checkpoint C d = (case map_of d ''checkpoint.bin'' of
       None \<Rightarrow> Inl IoError
     | Some f \<Rightarrow> cp_deserialize C (content f))"

text \<open>\<open>WriteAheadLog::open\<close>. The addition to the checkpoint's transaction id is on \<open>u64\<close>.\<close>

definition wal_open :: "cp_codec \<Rightarrow> wal_config \<Rightarrow> dir \<Rightarrow> (wal \<times> dir) result" where
  "wal_open C cfg d =
     (let segments = list_segments d;
          next_id = (case read_checkpoint C d of Inr cp \<Rightarrow> last_flushed_txn_id cp + 1 | Inl _ \<Rightarrow> 1)
      in if segments \<noteq> [] then
           rbind (sw_append d (snd (last segments)) (fst (last segments)))
             (\<lambda>sw. Inr (\<lparr>wal_cfg = cfg, current_segment = sw, next_txn_id = next_id\<rparr>, d))
         else
           (case sw_create d (segment_path 0) 0 of
              (sw, d') \<Rightarrow> Inr (\<lparr>wal_cfg = cfg, current_segment = sw, next_txn_id = next_id\<rparr>, d')))"

text \<open>Rotation inside \<open>append\<close>: fsync the full segment and open the next one.\<close>

definition rotate :: "segment_writer \<Rightarrow> dir \<Rightarrow> segment_writer \<times> dir" where
  "rotate sw d = (case fsync sw d of
     (sw', d') \<Rightarrow> let new_id = sw_segment_id sw' + 1 in sw_create d' (segment_path new_id) new_id)"

definition wal_append ::
    "crc32 \<Rightarrow> wal \<Rightarrow> wal_entry \<Rightarrow> write_mode \<Rightarrow> dir \<Rightarrow> (transaction_id \<times> wal \<times> dir) result" where
  "wal_append crc w e mode d =
     (let txn = next_txn_id w;
          entry = \<lparr>txn_id = txn, op_code = op_code e, payload = payload e\<rparr>;
          bs = to_bytes crc entry;
          sw = current_segment w;
          (sw1, d1) = (if segment_size (wal_cfg w) < bytes_written sw + length bs then rotate sw d else (sw, d));
          (sw2, d2) = write_entry sw1 bs d1;
          should_fsync = (mode = Durable \<or> fsync_interval_ops (wal_cfg w) \<le> ops_since_fsync sw2);
          (sw3, d3) = (if should_fsync then fsync sw2 d2 else (sw2, d2))
      in Inr (txn, w\<lparr>current_segment := sw3, next_txn_id := next_txn_id w + 1\<rparr>, d3))"

definition wal_flush :: "wal \<Rightarrow> dir \<Rightarrow> wal \<times> dir" where
  "wal_flush w d = (case fsync (current_segment w) d of (sw, d') \<Rightarrow> (w\<lparr>current_segment := sw\<rparr>, d'))"

lemma from_bytes_consumed: "from_bytes crc data = Inr (e, n) \<Longrightarrow> 17 \<le> n \<and> n \<le> length data"
  by (auto simp: from_bytes_def Let_def split: if_splits)

text \<open>The loop of \<open>read_segment_entries\<close> from offset \<open>off\<close>; \<open>data\<close> is what is left of the file.\<close>

function read_entries_from :: "crc32 \<Rightarrow> u64 \<Rightarrow> u64 \<Rightarrow> nat \<Rightarrow> u8 list \<Rightarrow> wal_entry list result" where
  "read_entries_from crc seg skip off data =
     (if data = [] then Inr []
      else (case from_bytes crc data of
          Inr (e, n) \<Rightarrow>
            rbind (read_entries_from crc seg skip (off + n) (drop n data))
              (\<lambda>es. Inr (if skip < txn_id e then e # es else es))
        | Inl (PayloadTruncated _ _) \<Rightarrow> Inr []
        | Inl (CrcMismatch _ _) \<Rightarrow> Inr []
        | Inl _ \<Rightarrow> Inl (CorruptWal seg (word_of_nat off))))"
  by pat_completeness auto
termination
  by (relation "measure (\<lambda>(crc, seg, skip, off, data). length data)")
    (auto dest: from_bytes_consumed)

declare read_entries_from.simps [simp del]

definition read_segment_entries :: "crc32 \<Rightarrow> dir \<Rightarrow> string \<Rightarrow> u64 \<Rightarrow> u64 \<Rightarrow> wal_entry list result" where
  "read_segment_entries crc d path seg skip = (case map_of d path of
       None \<Rightarrow> Inr []
     | Some f \<Rightarrow> read_entries_from crc seg skip 0 (content f))"

fun read_segments :: "crc32 \<Rightarrow> dir \<Rightarrow> u64 \<Rightarrow> (segment_id \<times> string) list \<Rightarrow> wal_entry list result" where
  "read_segments crc d skip [] = Inr []"
| "read_segments crc d skip ((i, path) # segs) =
     rbind (read_segment_entries crc d path i skip)
       (\<lambda>es. rbind (read_segments crc d skip segs) (\<lambda>rest. Inr (es @ rest)))"

definition wal_recover :: "crc32 \<Rightarrow> cp_codec \<Rightarrow> dir \<Rightarrow> wal_entry list result" where
  "wal_recover crc C d =
     (let last_flushed = (case read_checkpoint C d of Inr cp \<Rightarrow> last_flushed_txn_id cp | Inl _ \<Rightarrow> 0)
      in read_segments crc d last_flushed (list_segments d))"

text \<open>
  \<open>compact\<close>: the entries of the sealed segments go into a \<open>BTreeMap\<close> keyed by transaction id
  (later entries win), the merged file is written under its final name after a rename, and
  the sealed files are removed. \<open>ts\<close> is the wall clock in seconds.
\<close>

definition btree_insert :: "wal_entry \<Rightarrow> wal_entry list \<Rightarrow> wal_entry list" where
  "btree_insert e es = insert_by (\<lambda>a b. txn_id a \<le> txn_id b) e (filter (\<lambda>x. txn_id x \<noteq> txn_id e) es)"

definition wal_compact :: "crc32 \<Rightarrow> nat \<Rightarrow> wal \<Rightarrow> dir \<Rightarrow> dir result" where
  "wal_compact crc ts w d =
     (let current_id = sw_segment_id (current_segment w);
          sealed = filter (\<lambda>(i, _). i < current_id) (list_segments d)
      in if sealed = [] then Inr d
         else rbind (read_segments crc d 0 sealed) (\<lambda>entries.
           let dedup = fold btree_insert entries [];
               bs = concat (map (to_bytes crc) dedup);
               final_name = ''wal-merged-'' @ pad10 ts @ ''.log'';
               d1 = AList.update final_name \<lparr>content = bs, durable = length bs\<rparr> d
           in Inr (fold (\<lambda>(_, path) dd. AList.delete path dd) sealed d1)))"

definition write_checkpoint :: "cp_codec \<Rightarrow> checkpoint \<Rightarrow> dir \<Rightarrow> dir result" where
  "write_checkpoint C cp d = rbind (cp_serialize C cp)
     (\<lambda>bs. Inr (AList.update ''checkpoint.bin'' \<lparr>content = bs, durable = length bs\<rparr> d))"

text \<open>
  A crash: every file keeps its durable bytes and any part of what was written after them.
  \<open>keep\<close> chooses the surviving length per file.
\<close>

definition crash :: "(string \<Rightarrow> nat) \<Rightarrow> dir \<Rightarrow> dir" where
  "crash keep d = map (\<lambda>(name, f).
     (name, let n = min (length (content f)) (max (durable f) (keep name))
            in \<lparr>content = take n (content f), durable = n\<rparr>)) d"

section \<open>The encoding is a round trip\<close>

lemma length_le_encode [simp]: "length (le_encode n v) = n"
  by (induction n arbitrary: v) auto

lemma le_decode_encode: "le_decode (le_encode n v) = v mod 256 ^ n"
proof (induction n arbitrary: v)
  case (Suc n)
  have "unat (word_of_nat (v mod 256) :: u8) = v mod 256"
    by (simp add: unat_of_nat)
  then show ?case using Suc by (simp add: mod_mult2_eq)
qed simp

lemma length_u64_to_le [simp]: "length (u64_to_le_bytes w) = 8"
  by (simp add: u64_to_le_bytes_def)

lemma length_u32_to_le [simp]: "length (u32_to_le_bytes w) = 4"
  by (simp add: u32_to_le_bytes_def)

lemma u64_from_to_le [simp]: "u64_from_le_bytes (u64_to_le_bytes w) = w"
  using unsigned_less [of w, where ?'a = nat]
  by (simp add: u64_from_le_bytes_def u64_to_le_bytes_def le_decode_encode)

lemma u32_from_to_le [simp]: "u32_from_le_bytes (u32_to_le_bytes w) = w"
  using unsigned_less [of w, where ?'a = nat]
  by (simp add: u32_from_le_bytes_def u32_to_le_bytes_def le_decode_encode)

text \<open>Entries whose payload length fits the \<open>u32\<close> length field.\<close>

definition entry_ok :: "wal_entry \<Rightarrow> bool" where
  "entry_ok e \<longleftrightarrow> length (payload e) < 2 ^ 32"

lemma unat_payload_len: "entry_ok e \<Longrightarrow> unat (word_of_nat (length (payload e)) :: u32) = length (payload e)"
  by (simp add: entry_ok_def unat_of_nat)

lemma length_to_bytes [simp]: "length (to_bytes crc e) = 17 + length (payload e)"
  by (simp add: to_bytes_def Let_def)

lemma to_bytes_nonempty [simp]: "to_bytes crc e \<noteq> []"
  by (metis length_to_bytes list.size(3) add_is_0 zero_neq_numeral)

lemma to_bytes_split:
  "to_bytes crc e = u64_to_le_bytes (txn_id e) @ op_code e # u32_to_le_bytes (word_of_nat (length (payload e)))
     @ payload e @ u32_to_le_bytes (crc (serialize_fields_for_crc (txn_id e) (op_code e) (word_of_nat (length (payload e))) (payload e)))"
  by (simp add: to_bytes_def serialize_fields_for_crc_def Let_def)

lemma from_bytes_to_bytes:
  assumes "entry_ok e"
  shows "from_bytes crc (to_bytes crc e @ rest) = Inr (e, length (to_bytes crc e))"
proof -
  let ?d = "to_bytes crc e @ rest" and ?n = "length (payload e)"
  have t: "take 8 ?d = u64_to_le_bytes (txn_id e)" and o: "?d ! 8 = op_code e"
    and l: "take 4 (drop 9 ?d) = u32_to_le_bytes (word_of_nat ?n)"
    and p: "take ?n (drop 13 ?d) = payload e"
    and c: "take 4 (drop (13 + ?n) ?d) = u32_to_le_bytes (crc (serialize_fields_for_crc (txn_id e) (op_code e) (word_of_nat ?n) (payload e)))"
    by (simp_all add: to_bytes_split nth_append drop_Cons' numeral_eq_Suc)
  show ?thesis
    unfolding from_bytes_def Let_def t o l p u64_from_to_le u32_from_to_le unat_payload_len [OF assms] c
    by simp
qed

text \<open>A strict prefix of an entry is reported as truncated.\<close>

lemma from_bytes_torn:
  assumes "entry_ok e" and "n < length (to_bytes crc e)"
  shows "\<exists>a b. from_bytes crc (take n (to_bytes crc e)) = Inl (PayloadTruncated a b)"
proof (cases "n < 17")
  case True
  then show ?thesis by (simp add: from_bytes_def)
next
  case False
  let ?d = "take n (to_bytes crc e)"
  have l: "take 4 (drop 9 ?d) = u32_to_le_bytes (word_of_nat (length (payload e)))"
    using False by (simp add: to_bytes_split drop_take min_def)
  show ?thesis
    unfolding from_bytes_def Let_def l u32_from_to_le unat_payload_len [OF assms(1)]
    using False assms(2) by simp
qed

section \<open>Reading a segment\<close>

lemma read_entries_append:
  assumes "\<forall>e\<in>set es. entry_ok e"
  shows "read_entries_from crc seg skip off (concat (map (to_bytes crc) es) @ rest) =
    rbind (read_entries_from crc seg skip (off + length (concat (map (to_bytes crc) es))) rest)
      (\<lambda>r. Inr (filter (\<lambda>e. skip < txn_id e) es @ r))"
  using assms
proof (induction es arbitrary: off)
  case Nil
  then show ?case by (cases "read_entries_from crc seg skip off rest") simp_all
next
  case (Cons e es)
  let ?m = "off + length (concat (map (to_bytes crc) (e # es)))"
  have "read_entries_from crc seg skip off (concat (map (to_bytes crc) (e # es)) @ rest) =
    rbind (read_entries_from crc seg skip (off + length (to_bytes crc e)) (concat (map (to_bytes crc) es) @ rest))
      (\<lambda>r. Inr (if skip < txn_id e then e # r else r))"
    using Cons.prems from_bytes_to_bytes [of e crc "concat (map (to_bytes crc) es) @ rest"]
    by (subst read_entries_from.simps) simp
  then show ?case using Cons
    by (cases "read_entries_from crc seg skip ?m rest") (simp_all add: ac_simps)
qed

lemma read_entries_Nil [simp]: "read_entries_from crc seg skip off [] = Inr []"
  by (simp add: read_entries_from.simps)

lemma read_entries_torn:
  "entry_ok e \<Longrightarrow> n < length (to_bytes crc e) \<Longrightarrow>
     read_entries_from crc seg skip off (take n (to_bytes crc e)) = Inr []"
  using from_bytes_torn [of e n crc] by (subst read_entries_from.simps) auto

text \<open>Any prefix of an encoded list of entries is some whole entries and a torn one.\<close>

lemma take_concat_entries:
  "n \<le> length (concat (map f es)) \<Longrightarrow>
    \<exists>k m. k \<le> length es \<and> take n (concat (map f es)) = concat (map f (take k es)) @ (if k < length es then take m (f (es ! k)) else [])
      \<and> (k < length es \<longrightarrow> m < length (f (es ! k)))
      \<and> (\<forall>j \<le> length es. length (concat (map f (take j es))) \<le> n \<longrightarrow> j \<le> k \<or> concat (map f (drop k (take j es))) = [])"
proof (induction es arbitrary: n)
  case Nil
  then show ?case by auto
next
  case (Cons e es)
  show ?case
  proof (cases "n < length (f e)")
    case True
    have "length (concat (map f (take j (e # es)))) \<le> n \<longrightarrow> j = 0" for j
      using True by (cases j) auto
    then have "take n (concat (map f (e # es))) = concat (map f (take 0 (e # es))) @ take n (f ((e # es) ! 0))
       \<and> (\<forall>j. length (concat (map f (take j (e # es)))) \<le> n \<longrightarrow> j \<le> 0)" using True by auto
    then show ?thesis using True by (intro exI [of _ 0] exI [of _ n]) auto
  next
    case False
    then have "n - length (f e) \<le> length (concat (map f es))" using Cons.prems by simp
    then obtain k m where k: "k \<le> length es"
      "take (n - length (f e)) (concat (map f es)) = concat (map f (take k es)) @ (if k < length es then take m (f (es ! k)) else [])"
      "k < length es \<longrightarrow> m < length (f (es ! k))"
      "\<forall>j \<le> length es. length (concat (map f (take j es))) \<le> n - length (f e) \<longrightarrow> j \<le> k \<or> concat (map f (drop k (take j es))) = []"
      using Cons.IH by blast
    have "j \<le> Suc k \<or> concat (map f (drop (Suc k) (take j (e # es)))) = []"
      if "j \<le> length (e # es)" "length (concat (map f (take j (e # es)))) \<le> n" for j
      using that k(4) False by (cases j) auto
    then show ?thesis using k(1,2,3) False by (intro exI [of _ "Suc k"] exI [of _ m]) auto
  qed
qed

section \<open>File names\<close>

lemma digits_val_pad: "digits_val (replicate k (CHR ''0'') @ s) = digits_val s"
  by (induction k) (auto simp: digits_val_def)

lemma pad10_digits: "list_all is_digit (pad10 n)"
  using show_nat_digits [of n] by (auto simp: pad10_def Let_def list_all_iff is_digit_def)

lemma pad10_nonempty [simp]: "pad10 n \<noteq> []"
  by (simp add: pad10_def Let_def)

lemma digits_val_pad10: "digits_val (pad10 n) = n"
  by (simp add: pad10_def Let_def digits_val_pad digits_val_show_nat)

lemma parse_u64_pad10: "parse_u64 (pad10 (unat i)) = Some i"
proof -
  have "unat i < 2 ^ 64" using unsigned_less [of i, where ?'a = nat] by simp
  moreover have "hd (pad10 (unat i)) \<noteq> CHR ''+''"
    using pad10_digits [of "unat i"] pad10_nonempty [of "unat i"]
    by (cases "pad10 (unat i)") (auto simp: is_digit_def)
  ultimately show ?thesis
    using pad10_digits [of "unat i"] pad10_nonempty [of "unat i"] digits_val_pad10 [of "unat i"]
    by (cases "pad10 (unat i)") (auto simp: parse_u64_def Let_def)
qed

lemma segment_id_of_path [simp]: "segment_id_of_name (segment_path i) = Some i"
proof -
  have "\<not> starts_with (pad10 (unat i)) ''merged''"
    using pad10_digits [of "unat i"]
    by (cases "pad10 (unat i)") (auto simp: starts_with_def is_digit_def)
  then show ?thesis
    by (simp add: segment_id_of_name_def segment_path_def strip_prefix_def strip_suffix_def parse_u64_pad10)
qed

lemma segment_path_inject [simp]: "segment_path i = segment_path j \<longleftrightarrow> i = j"
  by (metis option.inject segment_id_of_path)

lemma not_segment_names [simp]:
  "segment_id_of_name ''checkpoint.bin'' = None"
  "segment_id_of_name (''wal-merged-'' @ s @ ''.log'') = None"
  by (simp_all add: segment_id_of_name_def strip_prefix_def strip_suffix_def starts_with_def)

section \<open>The segments of a directory\<close>

text \<open>
  \<open>segs_of d ids\<close>: the directory holds exactly the segments \<open>ids\<close>, under the names the log gives
  them.
\<close>

definition segs_of :: "dir \<Rightarrow> segment_id list \<Rightarrow> bool" where
  "segs_of d ids \<longleftrightarrow> wf_map d \<and> sorted ids \<and> distinct ids \<and>
     (\<forall>n i. n \<in> fst ` set d \<longrightarrow> segment_id_of_name n = Some i \<longrightarrow> n = segment_path i \<and> i \<in> set ids) \<and>
     (\<forall>i\<in>set ids. segment_path i \<in> fst ` set d)"

lemma sort_by_fst_eq:
  fixes xs :: "('a::linorder \<times> 'b) list"
  shows "sort_by (\<lambda>a b. fst a \<le> fst b) xs = sort_key fst xs"
proof -
  have i: "insert_by (\<lambda>a b. fst a \<le> fst b) x ys = insort_key fst x ys" for x :: "'a \<times> 'b" and ys
    by (induction ys) auto
  show ?thesis by (induction xs) (simp_all add: i)
qed

lemma list_segments_eq:
  assumes "segs_of d ids"
  shows "list_segments d = map (\<lambda>i. (i, segment_path i)) ids"
proof -
  let ?g = "\<lambda>(name, _). map_option (\<lambda>i. (i, name)) (segment_id_of_name name)"
  let ?xs = "List.map_filter ?g d"
  have "map fst ?xs = List.map_filter (\<lambda>(n, _). segment_id_of_name n) d"
    by (induction d) (auto simp: map_filter_simps split: option.splits)
  have set: "set ?xs = (\<lambda>i. (i, segment_path i)) ` set ids"
  proof (intro equalityI subsetI)
    fix x assume "x \<in> set ?xs"
    then obtain n f i where "(n, f) \<in> set d" "segment_id_of_name n = Some i" "x = (i, n)"
      by (auto simp: map_filter_def)
    then show "x \<in> (\<lambda>i. (i, segment_path i)) ` set ids"
      using assms by (force simp: segs_of_def)
  next
    fix x assume "x \<in> (\<lambda>i. (i, segment_path i)) ` set ids"
    then obtain i f where "x = (i, segment_path i)" "(segment_path i, f) \<in> set d"
      using assms by (auto simp: segs_of_def)
    then show "x \<in> set ?xs" by (force simp: map_filter_def)
  qed
  have snd: "map snd ?xs = map fst (filter (\<lambda>x. ?g x \<noteq> None) d)"
    by (induction d) (auto simp: map_filter_simps split: option.splits)
  have "distinct (map snd ?xs)" unfolding snd
    using assms by (simp add: segs_of_def wf_map_def distinct_map_filter)
  moreover have "inj_on fst (set ?xs)" unfolding set by (auto simp: inj_on_def)
  ultimately have "distinct (map fst ?xs)" by (simp add: distinct_map)
  then have "sort_key fst ?xs = map (\<lambda>i. (i, segment_path i)) ids"
    using set assms
    by (intro map_sorted_distinct_set_unique [where f = fst])
       (auto simp: segs_of_def distinct_map inj_on_def comp_def)
  then show ?thesis by (simp add: list_segments_def sort_by_fst_eq)
qed

lemma segs_of_update_old: "segs_of d ids \<Longrightarrow> i \<in> set ids \<Longrightarrow> segs_of (AList.update (segment_path i) f d) ids"
  by (auto simp: segs_of_def update_keys image_iff dom_update)

lemma segs_of_update_new:
  assumes "segs_of d ids" and "\<forall>i\<in>set ids. i < k"
  shows "segs_of (AList.update (segment_path k) f d) (ids @ [k])"
  using assms by (fastforce simp: segs_of_def dom_update sorted_append less_imp_le)

section \<open>The log as a list of entries\<close>

text \<open>
  The abstraction: a log is the list of its entries, in order, and the number of entries known
  to be on disk. \<open>seg_state\<close> says what one segment file holds; \<open>log_inv\<close> relates a writer and its
  directory to the list. All segments but the current one are completely durable.
\<close>

definition seg_state :: "crc32 \<Rightarrow> dir \<Rightarrow> segment_id \<Rightarrow> wal_entry list \<Rightarrow> nat \<Rightarrow> bool" where
  "seg_state crc d i es j \<longleftrightarrow> (\<exists>f. map_of d (segment_path i) = Some f \<and>
     content f = concat (map (to_bytes crc) es) \<and> j \<le> length es \<and>
     durable f = length (concat (map (to_bytes crc) (take j es))))"

definition log_inv :: "crc32 \<Rightarrow> segment_writer \<Rightarrow> dir \<Rightarrow> wal_entry list \<Rightarrow> nat \<Rightarrow> bool" where
  "log_inv crc sw d log synced \<longleftrightarrow> (\<exists>ids ess cur j.
     segs_of d (ids @ [sw_segment_id sw]) \<and> sw_path sw = segment_path (sw_segment_id sw) \<and>
     list_all2 (\<lambda>i es. seg_state crc d i es (length es)) ids ess \<and>
     seg_state crc d (sw_segment_id sw) cur j \<and>
     bytes_written sw = length (concat (map (to_bytes crc) cur)) \<and>
     log = concat ess @ cur \<and> synced = length (concat ess) + j \<and> (\<forall>e\<in>set log. entry_ok e))"

lemma seg_state_other:
  "i \<noteq> k \<Longrightarrow> seg_state crc (AList.update (segment_path k) f d) i es j \<longleftrightarrow> seg_state crc d i es j"
  by (simp add: seg_state_def)

lemma seg_states_other:
  "k \<notin> set ids \<Longrightarrow> list_all2 (\<lambda>i es. seg_state crc (AList.update (segment_path k) f d) i es (length es)) ids ess
     \<longleftrightarrow> list_all2 (\<lambda>i es. seg_state crc d i es (length es)) ids ess"
  by (intro list.rel_cong refl) (metis seg_state_other)

lemma segs_of_last: "segs_of d (ids @ [k]) \<Longrightarrow> k \<notin> set ids \<and> (\<forall>i\<in>set ids. i < k)"
  by (auto simp: segs_of_def sorted_append less_le)

text \<open>An update of the current segment file keeps everything else.\<close>

lemma log_inv_update:
  assumes inv: "log_inv crc sw d log synced"
    and id: "sw_segment_id sw' = sw_segment_id sw" "sw_path sw' = sw_path sw"
    and f: "\<And>ess cur j. log = concat ess @ cur \<Longrightarrow> synced = length (concat ess) + j \<Longrightarrow>
         seg_state crc d (sw_segment_id sw) cur j \<Longrightarrow> bytes_written sw = length (concat (map (to_bytes crc) cur)) \<Longrightarrow>
         \<exists>cur' j'. content f = concat (map (to_bytes crc) cur') \<and> j' \<le> length cur' \<and>
            durable f = length (concat (map (to_bytes crc) (take j' cur'))) \<and>
            bytes_written sw' = length (concat (map (to_bytes crc) cur')) \<and>
            log' = concat ess @ cur' \<and> synced' = length (concat ess) + j' \<and> (\<forall>e\<in>set cur'. entry_ok e \<or> e \<in> set cur)"
  shows "log_inv crc sw' (AList.update (sw_path sw) f d) log' synced'"
proof -
  let ?k = "sw_segment_id sw"
  obtain ids ess cur j where s: "segs_of d (ids @ [?k])" "sw_path sw = segment_path ?k"
      "list_all2 (\<lambda>i es. seg_state crc d i es (length es)) ids ess" "seg_state crc d ?k cur j"
      "bytes_written sw = length (concat (map (to_bytes crc) cur))"
      "log = concat ess @ cur" "synced = length (concat ess) + j" "\<forall>e\<in>set log. entry_ok e"
    using inv unfolding log_inv_def by blast
  obtain cur' j' where c: "content f = concat (map (to_bytes crc) cur')" "j' \<le> length cur'"
      "durable f = length (concat (map (to_bytes crc) (take j' cur')))"
      "bytes_written sw' = length (concat (map (to_bytes crc) cur'))"
      "log' = concat ess @ cur'" "synced' = length (concat ess) + j'" "\<forall>e\<in>set cur'. entry_ok e \<or> e \<in> set cur"
    using f [OF s(6,7,4,5)] by blast
  have k: "?k \<notin> set ids" using segs_of_last [OF s(1)] by blast
  have "seg_state crc (AList.update (sw_path sw) f d) ?k cur' j'"
    using c by (simp add: seg_state_def s(2))
  moreover have "segs_of (AList.update (sw_path sw) f d) (ids @ [?k])"
    unfolding s(2) by (rule segs_of_update_old [OF s(1)]) simp
  moreover have "list_all2 (\<lambda>i es. seg_state crc (AList.update (sw_path sw) f d) i es (length es)) ids ess"
    unfolding s(2) seg_states_other [OF k] by (rule s(3))
  moreover have "\<forall>e\<in>set log'. entry_ok e" using c s(6,8) by auto
  ultimately show ?thesis
    unfolding log_inv_def id using c(4,5,6) s(2) by blast
qed

lemma log_inv_file:
  "log_inv crc sw d log synced \<Longrightarrow> \<exists>f. map_of d (sw_path sw) = Some f"
  by (auto simp: log_inv_def seg_state_def)

lemma log_inv_fsync:
  assumes inv: "log_inv crc sw d log synced" and e: "fsync sw d = (sw', d')"
  shows "log_inv crc sw' d' log (length log)"
proof -
  obtain f where f: "map_of d (sw_path sw) = Some f" using log_inv_file [OF inv] by blast
  have d': "d' = AList.update (sw_path sw) (f\<lparr>durable := length (content f)\<rparr>) d"
    and sw': "sw' = sw\<lparr>ops_since_fsync := 0\<rparr>"
    using e f by (auto simp: fsync_def sync_file_def)
  have p: "sw_path sw = segment_path (sw_segment_id sw)" using inv unfolding log_inv_def by blast
  show ?thesis unfolding d'
  proof (rule log_inv_update [OF inv])
    fix ess cur j
    assume a: "log = concat ess @ cur" "seg_state crc d (sw_segment_id sw) cur j"
      "bytes_written sw = length (concat (map (to_bytes crc) cur))"
    then have "content f = concat (map (to_bytes crc) cur)" using f p by (auto simp: seg_state_def)
    then show "\<exists>cur' j'. content (f\<lparr>durable := length (content f)\<rparr>) = concat (map (to_bytes crc) cur') \<and> j' \<le> length cur' \<and>
        durable (f\<lparr>durable := length (content f)\<rparr>) = length (concat (map (to_bytes crc) (take j' cur'))) \<and>
        bytes_written sw' = length (concat (map (to_bytes crc) cur')) \<and>
        log = concat ess @ cur' \<and> length log = length (concat ess) + j' \<and> (\<forall>e\<in>set cur'. entry_ok e \<or> e \<in> set cur)"
      using a(1,3) by (intro exI [of _ cur] exI [of _ "length cur"]) (auto simp: sw')
  qed (simp_all add: sw')
qed

lemma log_inv_write:
  assumes inv: "log_inv crc sw d log synced" and e: "write_entry sw (to_bytes crc x) d = (sw', d')" and x: "entry_ok x"
  shows "log_inv crc sw' d' (log @ [x]) synced"
proof -
  obtain f where f: "map_of d (sw_path sw) = Some f" using log_inv_file [OF inv] by blast
  have d': "d' = AList.update (sw_path sw) (f\<lparr>content := content f @ to_bytes crc x\<rparr>) d"
    and sw': "bytes_written sw' = bytes_written sw + length (to_bytes crc x)"
      "sw_segment_id sw' = sw_segment_id sw" "sw_path sw' = sw_path sw"
    using e f by (auto simp: write_entry_def append_file_def)
  have p: "sw_path sw = segment_path (sw_segment_id sw)" using inv unfolding log_inv_def by blast
  show ?thesis unfolding d'
  proof (rule log_inv_update [OF inv sw'(2,3)])
    fix ess cur j
    assume a: "log = concat ess @ cur" "synced = length (concat ess) + j" "seg_state crc d (sw_segment_id sw) cur j"
      "bytes_written sw = length (concat (map (to_bytes crc) cur))"
    then have "content f = concat (map (to_bytes crc) cur)" "j \<le> length cur"
      "durable f = length (concat (map (to_bytes crc) (take j cur)))"
      using f p by (auto simp: seg_state_def)
    then show "\<exists>cur' j'. content (f\<lparr>content := content f @ to_bytes crc x\<rparr>) = concat (map (to_bytes crc) cur') \<and> j' \<le> length cur' \<and>
        durable (f\<lparr>content := content f @ to_bytes crc x\<rparr>) = length (concat (map (to_bytes crc) (take j' cur'))) \<and>
        bytes_written sw' = length (concat (map (to_bytes crc) cur')) \<and>
        log @ [x] = concat ess @ cur' \<and> synced = length (concat ess) + j' \<and> (\<forall>e\<in>set cur'. entry_ok e \<or> e \<in> set cur)"
      using a x by (intro exI [of _ "cur @ [x]"] exI [of _ j]) (auto simp: sw')
  qed
qed

lemma log_inv_rotate:
  assumes inv: "log_inv crc sw d log synced" and e: "rotate sw d = (sw', d')"
    and room: "unat (sw_segment_id sw) + 1 < 2 ^ 64"
  shows "log_inv crc sw' d' log (length log)"
proof -
  obtain sw1 d1 where f: "fsync sw d = (sw1, d1)" by fastforce
  have id: "sw_segment_id sw1 = sw_segment_id sw" using f by (auto simp: fsync_def)
  let ?k = "sw_segment_id sw" and ?n = "sw_segment_id sw + 1"
  have lt: "?k < ?n" using room by (intro less_plus_one) simp
  have sw': "sw' = \<lparr>sw_path = segment_path ?n, sw_segment_id = ?n, bytes_written = 0, ops_since_fsync = 0\<rparr>"
    and d': "d' = AList.update (segment_path ?n) \<lparr>content = [], durable = 0\<rparr> d1"
    using e f id by (auto simp: rotate_def sw_create_def Let_def)
  obtain ids ess cur j where s: "segs_of d1 (ids @ [?k])"
      "list_all2 (\<lambda>i es. seg_state crc d1 i es (length es)) ids ess" "seg_state crc d1 ?k cur j"
      "log = concat ess @ cur" "length log = length (concat ess) + j" "\<forall>e\<in>set log. entry_ok e"
    using log_inv_fsync [OF inv f] unfolding log_inv_def id by blast
  have j: "j = length cur" using s(4,5) by simp
  have lts: "\<forall>i\<in>set (ids @ [?k]). i < ?n" using segs_of_last [OF s(1)] lt by auto
  have nn: "?n \<notin> set (ids @ [?k])" using lts by (metis order_less_irrefl)
  have "list_all2 (\<lambda>i es. seg_state crc d1 i es (length es)) (ids @ [?k]) (ess @ [cur])"
    using s(2,3) j by (intro list_all2_appendI) auto
  then have "list_all2 (\<lambda>i es. seg_state crc d' i es (length es)) (ids @ [?k]) (ess @ [cur])"
    unfolding d' seg_states_other [OF nn] .
  moreover have "segs_of d' ((ids @ [?k]) @ [?n])" unfolding d' by (rule segs_of_update_new [OF s(1) lts])
  moreover have "seg_state crc d' ?n [] 0" by (simp add: seg_state_def d')
  ultimately show ?thesis
    unfolding log_inv_def sw' using s(4,6)
    by (intro exI [of _ "ids @ [?k]"] exI [of _ "ess @ [cur]"] exI [of _ "[]"] exI [of _ 0]) simp
qed

text \<open>The contract of \<open>append\<close>: the entry is at the end of the log, and on disk in durable mode.\<close>

definition wal_inv :: "crc32 \<Rightarrow> wal \<Rightarrow> dir \<Rightarrow> wal_entry list \<Rightarrow> nat \<Rightarrow> bool" where
  "wal_inv crc w d log synced \<longleftrightarrow> log_inv crc (current_segment w) d log synced"

lemma log_inv_synced: "log_inv crc sw d log synced \<Longrightarrow> synced \<le> length log"
  by (auto simp: log_inv_def seg_state_def)

lemma append_inv:
  assumes inv: "wal_inv crc w d log synced" and ok: "length (payload e) < 2 ^ 32"
    and room: "unat (sw_segment_id (current_segment w)) + 1 < 2 ^ 64"
    and a: "wal_append crc w e mode d = Inr (txn, w', d')"
  shows "\<exists>synced'. wal_inv crc w' d' (log @ [\<lparr>txn_id = next_txn_id w, op_code = op_code e, payload = payload e\<rparr>]) synced'
    \<and> synced \<le> synced' \<and> (mode = Durable \<longrightarrow> synced' = length log + 1)"
proof -
  let ?x = "\<lparr>txn_id = next_txn_id w, op_code = op_code e, payload = payload e\<rparr>"
  let ?bs = "to_bytes crc ?x" and ?sw = "current_segment w"
  obtain sw1 d1 where r: "(if segment_size (wal_cfg w) < bytes_written ?sw + length ?bs then rotate ?sw d else (?sw, d)) = (sw1, d1)"
    by fastforce
  obtain sw2 d2 where wr: "write_entry sw1 ?bs d1 = (sw2, d2)" by fastforce
  define fs where "fs \<longleftrightarrow> mode = Durable \<or> fsync_interval_ops (wal_cfg w) \<le> ops_since_fsync sw2"
  obtain sw3 d3 where f: "(if fs then fsync sw2 d2 else (sw2, d2)) = (sw3, d3)" by fastforce
  have w': "current_segment w' = sw3" "d' = d3"
    using a r wr f unfolding fs_def by (auto simp: wal_append_def Let_def)
  have synced: "synced \<le> length log" using inv by (auto simp: wal_inv_def dest: log_inv_synced)
  have "\<exists>s1. log_inv crc sw1 d1 log s1 \<and> synced \<le> s1"
    using r inv synced log_inv_rotate [OF inv [unfolded wal_inv_def] _ room] by (auto simp: wal_inv_def split: if_splits)
  then obtain s1 where 1: "log_inv crc sw1 d1 log s1" "synced \<le> s1" by blast
  have 2: "log_inv crc sw2 d2 (log @ [?x]) s1"
    by (rule log_inv_write [OF 1(1) wr]) (use ok in \<open>simp add: entry_ok_def\<close>)
  show ?thesis
  proof (cases fs)
    case True
    then have "log_inv crc sw3 d3 (log @ [?x]) (length log + 1)"
      using log_inv_fsync [OF 2] f by auto
    then show ?thesis using synced by (intro exI [of _ "length log + 1"]) (simp add: wal_inv_def w')
  next
    case False
    then have "sw3 = sw2" "d3 = d2" "mode \<noteq> Durable" using f by (auto simp: fs_def)
    then show ?thesis using 1(2) 2 by (intro exI [of _ s1]) (simp add: wal_inv_def w')
  qed
qed

lemma flush_inv:
  "wal_inv crc w d log synced \<Longrightarrow> wal_flush w d = (w', d') \<Longrightarrow> wal_inv crc w' d' log (length log)"
  by (auto simp: wal_inv_def wal_flush_def split: prod.splits dest: log_inv_fsync)

lemma wal_append_total: "\<exists>r. wal_append crc w e mode d = Inr r"
  by (simp add: wal_append_def Let_def split: prod.split)

lemma open_fresh_inv:
  "wal_open C cfg [] = Inr (\<lparr>wal_cfg = cfg,
      current_segment = \<lparr>sw_path = segment_path 0, sw_segment_id = 0, bytes_written = 0, ops_since_fsync = 0\<rparr>,
      next_txn_id = 1\<rparr>, [(segment_path 0, \<lparr>content = [], durable = 0\<rparr>)])"
  by (simp add: wal_open_def list_segments_def map_filter_simps read_checkpoint_def sw_create_def)

lemma fresh_log_inv:
  "log_inv crc \<lparr>sw_path = segment_path 0, sw_segment_id = 0, bytes_written = 0, ops_since_fsync = 0\<rparr>
     [(segment_path 0, \<lparr>content = [], durable = 0\<rparr>)] [] 0"
  unfolding log_inv_def
  by (intro exI [of _ "[]"] exI [of _ 0]) (simp add: segs_of_def wf_map_def seg_state_def)

section \<open>Recovery\<close>

lemma seg_state_read:
  "seg_state crc d i es j \<Longrightarrow> \<forall>e\<in>set es. entry_ok e \<Longrightarrow>
     read_segment_entries crc d (segment_path i) i skip = Inr (filter (\<lambda>e. skip < txn_id e) es)"
  using read_entries_append [of es crc i skip 0 "[]"]
  by (auto simp: seg_state_def read_segment_entries_def)

lemma read_segments_append:
  "read_segments crc d skip (xs @ ys) =
     rbind (read_segments crc d skip xs) (\<lambda>a. rbind (read_segments crc d skip ys) (\<lambda>b. Inr (a @ b)))"
proof (induction xs)
  case Nil
  then show ?case by (cases "read_segments crc d skip ys") simp_all
next
  case (Cons x xs)
  then show ?case
    by (cases x; cases "read_segments crc d skip xs"; cases "read_segments crc d skip ys")
       (auto simp: rbind_def split: sum.splits)
qed

lemma read_segments_states:
  "list_all2 (\<lambda>i es. seg_state crc d i es (length es)) ids ess \<Longrightarrow> \<forall>e\<in>set (concat ess). entry_ok e \<Longrightarrow>
     read_segments crc d skip (map (\<lambda>i. (i, segment_path i)) ids) = Inr (filter (\<lambda>e. skip < txn_id e) (concat ess))"
proof (induction rule: list_all2_induct)
  case (Cons i ids es ess)
  then show ?case using seg_state_read [of crc d i es "length es" skip] by simp
qed simp

definition last_flushed_of :: "cp_codec \<Rightarrow> dir \<Rightarrow> u64" where
  "last_flushed_of C d = (case read_checkpoint C d of Inr cp \<Rightarrow> last_flushed_txn_id cp | Inl _ \<Rightarrow> 0)"

lemma recover_log:
  assumes "wal_inv crc w d log synced"
  shows "wal_recover crc C d = Inr (filter (\<lambda>e. last_flushed_of C d < txn_id e) log)"
proof -
  let ?k = "sw_segment_id (current_segment w)" and ?p = "\<lambda>i. (i, segment_path i)"
  obtain ids ess cur j where s: "segs_of d (ids @ [?k])"
      "list_all2 (\<lambda>i es. seg_state crc d i es (length es)) ids ess" "seg_state crc d ?k cur j"
      "log = concat ess @ cur" "\<forall>e\<in>set log. entry_ok e"
    using assms unfolding wal_inv_def log_inv_def by blast
  have "read_segments crc d (last_flushed_of C d) (map ?p (ids @ [?k])) =
      Inr (filter (\<lambda>e. last_flushed_of C d < txn_id e) log)"
    using read_segments_states [OF s(2)] seg_state_read [OF s(3)] s(4,5)
    by (simp add: read_segments_append)
  then show ?thesis
    by (simp add: wal_recover_def last_flushed_of_def list_segments_eq [OF s(1)])
qed

section \<open>Crashes\<close>

lemma fst_crash: "map fst (crash keep d) = map fst d"
  by (simp add: crash_def case_prod_beta comp_def)

lemma map_of_crash: "map_of (crash keep d) name = map_option (\<lambda>f.
    let n = min (length (content f)) (max (durable f) (keep name)) in \<lparr>content = take n (content f), durable = n\<rparr>)
    (map_of d name)"
  unfolding crash_def by (rule map_of_vals)

lemma segs_of_crash: "segs_of (crash keep d) ids = segs_of d ids"
proof -
  have "fst ` set (crash keep d) = fst ` set d" by (metis fst_crash set_map)
  then show ?thesis by (simp add: segs_of_def wf_map_def fst_crash)
qed

lemma seg_state_crash_full: "seg_state crc d i es (length es) \<Longrightarrow> seg_state crc (crash keep d) i es (length es)"
  by (auto simp: seg_state_def map_of_crash Let_def)

lemma seg_state_crash_read:
  assumes st: "seg_state crc d i es j" and ok: "\<forall>e\<in>set es. entry_ok e"
  shows "\<exists>k. j \<le> k \<and> k \<le> length es \<and>
    read_segment_entries crc (crash keep d) (segment_path i) i skip = Inr (filter (\<lambda>e. skip < txn_id e) (take k es))"
proof -
  let ?enc = "\<lambda>es. concat (map (to_bytes crc) es)"
  obtain f where f: "map_of d (segment_path i) = Some f" "content f = ?enc es" "j \<le> length es"
      "durable f = length (?enc (take j es))"
    using st by (auto simp: seg_state_def)
  define n where "n = min (length (content f)) (max (durable f) (keep (segment_path i)))"
  have cut: "map_of (crash keep d) (segment_path i) = Some \<lparr>content = take n (?enc es), durable = n\<rparr>"
    using f by (simp add: map_of_crash n_def Let_def)
  have n: "n \<le> length (?enc es)" "length (?enc (take j es)) \<le> n"
  proof -
    have "?enc es = ?enc (take j es) @ ?enc (drop j es)" by (simp flip: concat_append map_append)
    then have "durable f \<le> length (content f)" using f by (metis le_add1 length_append)
    then show "n \<le> length (?enc es)" "length (?enc (take j es)) \<le> n" using f by (auto simp: n_def)
  qed
  obtain k m where k: "k \<le> length es"
      "take n (?enc es) = ?enc (take k es) @ (if k < length es then take m (to_bytes crc (es ! k)) else [])"
      "k < length es \<longrightarrow> m < length (to_bytes crc (es ! k))"
      "\<forall>j \<le> length es. length (?enc (take j es)) \<le> n \<longrightarrow> j \<le> k \<or> ?enc (drop k (take j es)) = []"
    using take_concat_entries [OF n(1)] by blast
  have "j \<le> k \<or> drop k (take j es) = []"
    using k(4) n(2) f(3) by (auto simp: concat_eq_Nil_conv)
  then have jk: "j \<le> k" using f(3) by auto
  have tail: "read_entries_from crc i skip off (if k < length es then take m (to_bytes crc (es ! k)) else []) = Inr []" for off
    using k(3) ok by (auto intro: read_entries_torn)
  have "\<forall>e\<in>set (take k es). entry_ok e" using ok by (meson in_set_takeD)
  then have "read_entries_from crc i skip 0 (take n (?enc es)) = Inr (filter (\<lambda>e. skip < txn_id e) (take k es))"
    unfolding k(2) by (simp add: read_entries_append tail)
  then show ?thesis using jk k(1) cut by (auto simp: read_segment_entries_def)
qed

lemma recover_after_crash:
  assumes "wal_inv crc w d log synced"
  shows "\<exists>n. synced \<le> n \<and> n \<le> length log \<and>
    wal_recover crc C (crash keep d) = Inr (filter (\<lambda>e. last_flushed_of C (crash keep d) < txn_id e) (take n log))"
proof -
  let ?k = "sw_segment_id (current_segment w)" and ?p = "\<lambda>i. (i, segment_path i)"
  let ?d = "crash keep d" and ?skip = "last_flushed_of C (crash keep d)"
  obtain ids ess cur j where s: "segs_of d (ids @ [?k])"
      "list_all2 (\<lambda>i es. seg_state crc d i es (length es)) ids ess" "seg_state crc d ?k cur j"
      "log = concat ess @ cur" "synced = length (concat ess) + j" "\<forall>e\<in>set log. entry_ok e"
    using assms unfolding wal_inv_def log_inv_def by blast
  have full: "list_all2 (\<lambda>i es. seg_state crc ?d i es (length es)) ids ess"
    using s(2) by (rule list_all2_mono) (rule seg_state_crash_full)
  have ok: "\<forall>e\<in>set cur. entry_ok e" "\<forall>e\<in>set (concat ess). entry_ok e" using s(4,6) by auto
  obtain k where k: "j \<le> k" "k \<le> length cur"
      "read_segment_entries crc ?d (segment_path ?k) ?k ?skip = Inr (filter (\<lambda>e. ?skip < txn_id e) (take k cur))"
    using seg_state_crash_read [OF s(3) ok(1)] by blast
  have "read_segments crc ?d ?skip (map ?p (ids @ [?k])) =
      Inr (filter (\<lambda>e. ?skip < txn_id e) (take (length (concat ess) + k) log))"
    using read_segments_states [OF full ok(2)] k(3) s(4) by (simp add: read_segments_append)
  moreover have "list_segments ?d = map ?p (ids @ [?k])"
    using s(1) by (intro list_segments_eq) (simp add: segs_of_crash)
  ultimately show ?thesis
    using k(1,2) s(4,5) by (intro exI [of _ "length (concat ess) + k"])
      (simp add: wal_recover_def last_flushed_of_def)
qed

section \<open>Sequences of appends\<close>

text \<open>
  What a client of the log relies on: every append adds its entry at the end of the abstract
  log, and recovery returns the abstract log. A run of appends is then recovered in order.
\<close>

locale append_log =
  fixes entries :: "'s \<Rightarrow> 'e list"
    and good :: "'s \<Rightarrow> bool"
    and append :: "'p \<Rightarrow> 's \<Rightarrow> 's"
    and mk :: "'p \<Rightarrow> 's \<Rightarrow> 'e"
    and allowed :: "'p \<Rightarrow> 's \<Rightarrow> bool"
  assumes append_good: "good s \<Longrightarrow> allowed p s \<Longrightarrow> good (append p s)"
    and append_entries: "good s \<Longrightarrow> allowed p s \<Longrightarrow> entries (append p s) = entries s @ [mk p s]"
begin

fun run_ok :: "'p list \<Rightarrow> 's \<Rightarrow> bool" where
  "run_ok [] s = True"
| "run_ok (p # ps) s = (allowed p s \<and> run_ok ps (append p s))"

fun made :: "'p list \<Rightarrow> 's \<Rightarrow> 'e list" where
  "made [] s = []"
| "made (p # ps) s = mk p s # made ps (append p s)"

lemma run_good: "good s \<Longrightarrow> run_ok ps s \<Longrightarrow> good (fold append ps s)"
  by (induction ps arbitrary: s) (auto simp: append_good)

lemma run_entries: "good s \<Longrightarrow> run_ok ps s \<Longrightarrow> entries (fold append ps s) = entries s @ made ps s"
  by (induction ps arbitrary: s) (auto simp: append_good append_entries)

lemma length_made: "length (made ps s) = length ps"
  by (induction ps arbitrary: s) auto

end


text \<open>The states and operations of the log as the contract sees them.\<close>

definition wal_run :: "crc32 \<Rightarrow> wal_entry \<times> write_mode \<Rightarrow> wal \<times> dir \<Rightarrow> wal \<times> dir" where
  "wal_run crc p s = (case wal_append crc (fst s) (fst p) (snd p) (snd s) of Inr (_, w', d') \<Rightarrow> (w', d') | Inl _ \<Rightarrow> s)"

definition wal_recovered :: "crc32 \<Rightarrow> cp_codec \<Rightarrow> wal \<times> dir \<Rightarrow> wal_entry list" where
  "wal_recovered crc C s = (case wal_recover crc C (snd s) of Inr es \<Rightarrow> es | Inl _ \<Rightarrow> [])"

definition wal_good :: "crc32 \<Rightarrow> wal \<times> dir \<Rightarrow> bool" where
  "wal_good crc s \<longleftrightarrow> (\<exists>log synced. wal_inv crc (fst s) (snd s) log synced)"

definition wal_stamp :: "wal_entry \<times> write_mode \<Rightarrow> wal \<times> dir \<Rightarrow> wal_entry" where
  "wal_stamp p s = \<lparr>txn_id = next_txn_id (fst s), op_code = op_code (fst p), payload = payload (fst p)\<rparr>"

definition wal_allowed :: "cp_codec \<Rightarrow> wal_entry \<times> write_mode \<Rightarrow> wal \<times> dir \<Rightarrow> bool" where
  "wal_allowed C p s \<longleftrightarrow> length (payload (fst p)) < 2 ^ 32 \<and>
     unat (sw_segment_id (current_segment (fst s))) + 1 < 2 ^ 64 \<and>
     last_flushed_of C (snd s) < next_txn_id (fst s)"

lemma segment_path_checkpoint [simp]: "segment_path i \<noteq> ''checkpoint.bin''" "''checkpoint.bin'' \<noteq> segment_path i"
  by (simp_all add: segment_path_def)

lemma append_checkpoint:
  assumes "wal_inv crc w d log synced" "wal_append crc w e mode d = Inr (txn, w', d')"
  shows "map_of d' ''checkpoint.bin'' = map_of d ''checkpoint.bin''"
proof -
  have "sw_path (current_segment w) = segment_path (sw_segment_id (current_segment w))"
    using assms(1) by (auto simp: wal_inv_def log_inv_def)
  then show ?thesis
    using assms(2)
    by (auto simp: wal_append_def rotate_def fsync_def write_entry_def sw_create_def append_file_def
        sync_file_def Let_def split: if_splits option.splits)
qed

lemma append_last_flushed:
  "wal_inv crc w d log synced \<Longrightarrow> wal_append crc w e mode d = Inr (txn, w', d') \<Longrightarrow>
     last_flushed_of C d' = last_flushed_of C d"
  by (simp add: last_flushed_of_def read_checkpoint_def append_checkpoint)

lemma wal_run_step:
  assumes "wal_inv crc w d log synced" "wal_allowed C (e, mode) (w, d)"
  obtains w' d' synced' where "wal_run crc (e, mode) (w, d) = (w', d')"
    "wal_inv crc w' d' (log @ [wal_stamp (e, mode) (w, d)]) synced'"
    "last_flushed_of C d' = last_flushed_of C d"
proof -
  obtain txn w' d' where a: "wal_append crc w e mode d = Inr (txn, w', d')"
    using wal_append_total by (metis prod_cases3)
  have "\<exists>s'. wal_inv crc w' d' (log @ [wal_stamp (e, mode) (w, d)]) s'"
    using append_inv [OF assms(1) _ _ a] assms(2) by (auto simp: wal_allowed_def wal_stamp_def)
  then show thesis
    using that a append_last_flushed [OF assms(1) a] by (auto simp: wal_run_def)
qed

interpretation wlog: append_log "wal_recovered crc C" "wal_good crc" "wal_run crc" wal_stamp "wal_allowed C"
  for crc C
proof
  fix s p
  assume g: "wal_good crc s" and a: "wal_allowed C p s"
  obtain w d where s: "s = (w, d)" by fastforce
  obtain e mode where p: "p = (e, mode)" by fastforce
  from g s obtain log synced where i: "wal_inv crc w d log synced" by (auto simp: wal_good_def)
  obtain w' d' synced' where r: "wal_run crc p s = (w', d')"
      "wal_inv crc w' d' (log @ [wal_stamp p s]) synced'" "last_flushed_of C d' = last_flushed_of C d"
    using wal_run_step [OF i a [unfolded s p]] unfolding s p by blast
  show "wal_good crc (wal_run crc p s)" using r by (auto simp: wal_good_def)
  have "last_flushed_of C d < txn_id (wal_stamp p s)" using a by (simp add: wal_allowed_def wal_stamp_def s)
  then show "wal_recovered crc C (wal_run crc p s) = wal_recovered crc C s @ [wal_stamp p s]"
    using recover_log [OF i] recover_log [OF r(2)] r(1,3) by (simp add: wal_recovered_def s)
qed


section \<open>A log from its creation\<close>

text \<open>The entries a sequence of appends leaves in a new log: transaction ids count from 1.\<close>

fun stamped :: "u64 \<Rightarrow> (wal_entry \<times> write_mode) list \<Rightarrow> wal_entry list" where
  "stamped txn [] = []"
| "stamped txn (p # ps) = \<lparr>txn_id = txn, op_code = op_code (fst p), payload = payload (fst p)\<rparr> # stamped (txn + 1) ps"

text \<open>How many entries are covered by the last durable append of a sequence.\<close>

fun durable_len :: "nat \<Rightarrow> nat \<Rightarrow> (wal_entry \<times> write_mode) list \<Rightarrow> nat" where
  "durable_len done_n synced [] = synced"
| "durable_len done_n synced (p # ps) =
     durable_len (Suc done_n) (if snd p = Durable then Suc done_n else synced) ps"

lemma length_stamped [simp]: "length (stamped txn ps) = length ps"
  by (induction ps arbitrary: txn) auto

lemma append_counters:
  assumes "wal_append crc w e mode d = Inr (txn, w', d')"
    and "unat (sw_segment_id (current_segment w)) + 1 < 2 ^ 64"
  shows "txn = next_txn_id w" "next_txn_id w' = next_txn_id w + 1"
    "unat (sw_segment_id (current_segment w')) \<le> unat (sw_segment_id (current_segment w)) + 1"
proof -
  have "unat (sw_segment_id (current_segment w) + 1) = unat (sw_segment_id (current_segment w)) + 1"
    using assms(2) by (intro unat_plus_one) simp
  then show "txn = next_txn_id w" "next_txn_id w' = next_txn_id w + 1"
    "unat (sw_segment_id (current_segment w')) \<le> unat (sw_segment_id (current_segment w)) + 1"
    using assms(1)
    by (auto simp: wal_append_def rotate_def fsync_def write_entry_def sw_create_def Let_def
        split: if_splits)
qed

lemma durable_len_mono: "a \<le> b \<Longrightarrow> durable_len n a ps \<le> durable_len n b ps"
  by (induction ps arbitrary: n a b) auto

lemma run_from:
  assumes "wal_inv crc w d log synced" and "\<forall>p\<in>set ps. length (payload (fst p)) < 2 ^ 32"
    and "unat (sw_segment_id (current_segment w)) + length ps < 2 ^ 64"
  shows "\<exists>w' d' synced'. fold (wal_run crc) ps (w, d) = (w', d') \<and>
    wal_inv crc w' d' (log @ stamped (next_txn_id w) ps) synced' \<and>
    durable_len (length log) synced ps \<le> synced' \<and>
    map_of d' ''checkpoint.bin'' = map_of d ''checkpoint.bin''"
  using assms
proof (induction ps arbitrary: w d log synced)
  case Nil
  then show ?case by auto
next
  case (Cons p ps)
  obtain txn w1 d1 where a: "wal_append crc w (fst p) (snd p) d = Inr (txn, w1, d1)"
    using wal_append_total by (metis prod_cases3)
  have room: "unat (sw_segment_id (current_segment w)) + 1 < 2 ^ 64" using Cons.prems(3) by simp
  let ?x = "\<lparr>txn_id = next_txn_id w, op_code = op_code (fst p), payload = payload (fst p)\<rparr>"
  let ?s = "if snd p = Durable then Suc (length log) else synced"
  obtain s1 where s1: "wal_inv crc w1 d1 (log @ [?x]) s1" "?s \<le> s1"
    using append_inv [OF Cons.prems(1) _ room a] Cons.prems(2) by auto
  have "unat (sw_segment_id (current_segment w1)) + length ps < 2 ^ 64"
    using append_counters(3) [OF a room] Cons.prems(3) by simp
  then obtain w' d' s' where ih: "fold (wal_run crc) ps (w1, d1) = (w', d')"
      "wal_inv crc w' d' ((log @ [?x]) @ stamped (next_txn_id w1) ps) s'"
      "durable_len (length (log @ [?x])) s1 ps \<le> s'" "map_of d' ''checkpoint.bin'' = map_of d1 ''checkpoint.bin''"
    using Cons.IH [OF s1(1)] Cons.prems(2) by auto
  have "durable_len (length log) synced (p # ps) \<le> s'"
    using durable_len_mono [OF s1(2), of "Suc (length log)" ps] ih(3) by simp
  moreover have "wal_run crc p (w, d) = (w1, d1)" by (simp add: wal_run_def a)
  ultimately show ?case
    using ih append_counters(2) [OF a room] append_checkpoint [OF Cons.prems(1) a] by auto
qed

lemma stamped_ids: "unat txn + length ps \<le> 2 ^ 64 \<Longrightarrow> k < unat txn \<Longrightarrow> e \<in> set (stamped txn ps) \<Longrightarrow> k < unat (txn_id e)"
proof (induction ps arbitrary: txn)
  case (Cons p ps)
  show ?case
  proof (cases ps)
    case Nil
    then show ?thesis using Cons.prems by auto
  next
    case (Cons q qs)
    then have "unat txn + 1 < 2 ^ 64" using Cons.prems(1) by simp
    then have "unat (txn + 1) = unat txn + 1" by (intro unat_plus_one) simp
    then show ?thesis using Cons.IH [of "txn + 1"] Cons.prems by auto
  qed
qed simp


lemma run_fresh:
  assumes "wal_open C cfg [] = Inr s0" and "\<forall>p\<in>set ps. length (payload (fst p)) < 2 ^ 32"
    and "length ps < 2 ^ 64"
  obtains w d synced where "fold (wal_run crc) ps s0 = (w, d)" "wal_inv crc w d (stamped 1 ps) synced"
    "durable_len 0 0 ps \<le> synced" "map_of d ''checkpoint.bin'' = None"
proof -
  obtain w0 d0 where s0: "s0 = (w0, d0)" by fastforce
  have "wal_inv crc w0 d0 [] 0" "next_txn_id w0 = 1" "sw_segment_id (current_segment w0) = 0"
    "map_of d0 ''checkpoint.bin'' = None"
    using assms(1) fresh_log_inv by (auto simp: open_fresh_inv s0 wal_inv_def)
  then show thesis using run_from [of crc w0 d0 "[]" 0 ps] assms(2,3) that by (auto simp: s0)
qed

lemma stamped_all_kept:
  "length ps < 2 ^ 64 \<Longrightarrow> filter (\<lambda>e. 0 < txn_id e) (take n (stamped 1 ps)) = take n (stamped 1 ps)"
proof (rule filter_True, rule ballI)
  fix e assume "length ps < 2 ^ 64" "e \<in> set (take n (stamped 1 ps))"
  then have "0 < unat (txn_id e)" using stamped_ids [of 1 ps 0 e] by (auto dest: in_set_takeD)
  then show "0 < txn_id e" by (simp add: word_less_nat_alt)
qed

lemma no_checkpoint: "map_of d ''checkpoint.bin'' = None \<Longrightarrow> last_flushed_of C d = 0"
  by (simp add: last_flushed_of_def read_checkpoint_def)

lemma run_ok_stamped:
  assumes "wal_good crc s" and "\<forall>p\<in>set ps. length (payload (fst p)) < 2 ^ 32"
    and "unat (sw_segment_id (current_segment (fst s))) + length ps < 2 ^ 64"
    and "unat (next_txn_id (fst s)) + length ps < 2 ^ 64" and "last_flushed_of C (snd s) < next_txn_id (fst s)"
  shows "wlog.run_ok crc C ps s \<and> wlog.made crc ps s = stamped (next_txn_id (fst s)) ps"
  using assms
proof (induction ps arbitrary: s)
  case (Cons p ps)
  obtain w d where s: "s = (w, d)" by fastforce
  from Cons.prems(1) s obtain log synced where i: "wal_inv crc w d log synced" by (auto simp: wal_good_def)
  obtain txn w1 d1 where a: "wal_append crc w (fst p) (snd p) d = Inr (txn, w1, d1)"
    using wal_append_total by (metis prod_cases3)
  have run: "wal_run crc p s = (w1, d1)" by (simp add: wal_run_def a s)
  have ok: "wal_allowed C p s" using Cons.prems by (simp add: wal_allowed_def)
  have n: "unat (next_txn_id w + 1) = unat (next_txn_id w) + 1"
    using Cons.prems(4) by (intro unat_plus_one) (simp add: s)
  have room: "unat (sw_segment_id (current_segment w)) + 1 < 2 ^ 64" using Cons.prems(3) by (simp add: s)
  note c = append_counters [OF a room]
  have "wlog.run_ok crc C ps (w1, d1) \<and> wlog.made crc ps (w1, d1) = stamped (next_txn_id w1) ps"
  proof (rule Cons.IH [of "(w1, d1)", simplified])
    show "wal_good crc (w1, d1)" using wlog.append_good [OF Cons.prems(1) ok] run by simp
    show "last_flushed_of C d1 < next_txn_id w1"
      using Cons.prems(5) append_last_flushed [OF i a, of C] n by (simp add: c(2) s word_less_nat_alt)
  qed (use Cons.prems(2-4) c n in \<open>auto simp: s\<close>)
  moreover have "wal_stamp p s = \<lparr>txn_id = next_txn_id w, op_code = op_code (fst p), payload = payload (fst p)\<rparr>"
    by (simp add: wal_stamp_def s)
  ultimately show ?case using ok run c(2) by (simp add: s)
qed simp

lemma crash_recover:
  assumes "wal_open C cfg [] = Inr s0" and "\<forall>p\<in>set ps. length (payload (fst p)) < 2 ^ 32"
    and "length ps < 2 ^ 64"
  shows "\<exists>n. durable_len 0 0 ps \<le> n \<and> n \<le> length ps \<and>
    wal_recover crc C (crash keep (snd (fold (wal_run crc) ps s0))) = Inr (take n (stamped 1 ps))"
proof -
  obtain w d synced where r: "fold (wal_run crc) ps s0 = (w, d)" "wal_inv crc w d (stamped 1 ps) synced"
      "durable_len 0 0 ps \<le> synced" "map_of d ''checkpoint.bin'' = None"
    by (rule run_fresh [OF assms])
  have f: "last_flushed_of C (crash keep d) = 0" using r(4) by (intro no_checkpoint) (simp add: map_of_crash)
  obtain n where n: "synced \<le> n" "n \<le> length (stamped 1 ps)"
      "wal_recover crc C (crash keep d) = Inr (filter (\<lambda>e. 0 < txn_id e) (take n (stamped 1 ps)))"
    using recover_after_crash [OF r(2), of C keep] unfolding f by blast
  then show ?thesis
    using r(1,3) assms(3) by (intro exI [of _ n]) (simp add: stamped_all_kept)
qed

section \<open>Reopening and compaction\<close>

lemma keys_map_of: "n \<in> fst ` set d \<longleftrightarrow> map_of d n \<noteq> None"
  by (simp add: map_of_eq_None_iff)

lemma map_of_remove_files:
  "map_of (fold (\<lambda>(_, p) dd. AList.delete p dd) xs d) n = (if n \<in> snd ` set xs then None else map_of d n)"
  by (induction xs arbitrary: d) auto

lemma wf_remove_files: "wf_map d \<Longrightarrow> wf_map (fold (\<lambda>(_, p) dd. AList.delete p dd) xs d)"
  by (induction xs arbitrary: d) auto

lemma segs_of_compact:
  assumes "segs_of d (ids @ [k])" "segment_id_of_name m = None"
  shows "segs_of (fold (\<lambda>(_, p) dd. AList.delete p dd) (map (\<lambda>i. (i, segment_path i)) ids) (AList.update m f d)) [k]"
proof -
  have "k \<notin> set ids" using segs_of_last [OF assms(1)] by blast
  then show ?thesis
    using assms unfolding segs_of_def keys_map_of
    by (auto simp: map_of_remove_files wf_remove_files image_image split: if_splits)
qed

lemma sealed_segments:
  assumes "segs_of d (ids @ [k])"
  shows "filter (\<lambda>(i, _). i < k) (list_segments d) = map (\<lambda>i. (i, segment_path i)) ids"
  using segs_of_last [OF assms] by (simp add: list_segments_eq [OF assms] filter_map comp_def)

lemma reopen_inv:
  assumes "wal_inv crc w d log synced"
  shows "\<exists>w'. wal_open C cfg d = Inr (w', d) \<and> wal_inv crc w' d log synced \<and>
    next_txn_id w' = (case read_checkpoint C d of Inr cp \<Rightarrow> last_flushed_txn_id cp + 1 | Inl _ \<Rightarrow> 1)"
proof -
  let ?k = "sw_segment_id (current_segment w)"
  obtain ids ess cur j where s: "segs_of d (ids @ [?k])"
      "list_all2 (\<lambda>i es. seg_state crc d i es (length es)) ids ess" "seg_state crc d ?k cur j"
      "log = concat ess @ cur" "synced = length (concat ess) + j" "\<forall>e\<in>set log. entry_ok e"
    using assms unfolding wal_inv_def log_inv_def by blast
  obtain f where f: "map_of d (segment_path ?k) = Some f" "content f = concat (map (to_bytes crc) cur)"
    using s(3) by (auto simp: seg_state_def)
  let ?sw = "\<lparr>sw_path = segment_path ?k, sw_segment_id = ?k, bytes_written = length (content f), ops_since_fsync = 0\<rparr>"
  have "log_inv crc ?sw d log synced" unfolding log_inv_def using s f
    by (intro exI [of _ ids] exI [of _ ess] exI [of _ cur] exI [of _ j]) simp
  then show ?thesis
    by (simp add: wal_open_def list_segments_eq [OF s(1)] sw_append_def f(1) wal_inv_def)
qed

lemma reopen_crashed:
  assumes "wal_inv crc w d log synced"
  shows "\<exists>w'. wal_open C cfg (crash keep d) = Inr (w', crash keep d)"
proof -
  let ?k = "sw_segment_id (current_segment w)"
  obtain ids cur j where s: "segs_of d (ids @ [?k])" "seg_state crc d ?k cur j"
    using assms unfolding wal_inv_def log_inv_def by blast
  have "map_of (crash keep d) (segment_path ?k) \<noteq> None" using s(2) by (auto simp: seg_state_def map_of_crash)
  moreover have "segs_of (crash keep d) (ids @ [?k])" using s(1) by (simp add: segs_of_crash)
  ultimately show ?thesis by (auto simp: wal_open_def list_segments_eq sw_append_def)
qed

lemma from_bytes_torn_append:
  assumes "entry_ok x" "13 \<le> m" "m \<le> 17 + length (payload x)" "m + length rest < 17 + length (payload x)"
  shows "\<exists>a b. from_bytes crc (take m (to_bytes crc x) @ rest) = Inl (PayloadTruncated a b)"
proof (cases "m + length rest < 17")
  case True
  then show ?thesis using assms by (simp add: from_bytes_def min_def)
next
  case False
  let ?d = "take m (to_bytes crc x) @ rest"
  have l: "take 4 (drop 9 ?d) = u32_to_le_bytes (word_of_nat (length (payload x)))"
    using assms by (simp add: to_bytes_split drop_take min_def)
  show ?thesis
    unfolding from_bytes_def Let_def l u32_from_to_le unat_payload_len [OF assms(1)]
    using False assms by (simp add: min_def)
qed

lemma one_segment: "segs_of [(segment_path 0, f)] [0]"
  by (simp add: segs_of_def wf_map_def)

lemma fresh_append_fast:
  assumes "17 + length (payload x) \<le> segment_size cfg" "1 < fsync_interval_ops cfg" "wal_open C cfg [] = Inr s0"
  shows "snd (wal_run crc (x, Fast) s0) = [(segment_path 0,
    \<lparr>content = to_bytes crc \<lparr>txn_id = 1, op_code = op_code x, payload = payload x\<rparr>, durable = 0\<rparr>)]"
  using assms
  by (auto simp: open_fresh_inv wal_run_def wal_append_def Let_def write_entry_def append_file_def)

lemma compact_log:
  assumes "wal_inv crc w d log synced"
  shows "\<exists>d' sealed cur. wal_compact crc ts w d = Inr d' \<and> log = sealed @ cur \<and>
    wal_inv crc w d' cur (synced - length sealed) \<and>
    map_of d' ''checkpoint.bin'' = map_of d ''checkpoint.bin'' \<and>
    list_segments d' = [(sw_segment_id (current_segment w), segment_path (sw_segment_id (current_segment w)))] \<and>
    (if length (list_segments d) = 1 then d' = d
     else map_of d' (''wal-merged-'' @ pad10 ts @ ''.log'') = Some (let bs = concat (map (to_bytes crc)
        (fold btree_insert (filter (\<lambda>e. 0 < txn_id e) sealed) [])) in \<lparr>content = bs, durable = length bs\<rparr>))"
proof -
  let ?k = "sw_segment_id (current_segment w)" and ?p = "\<lambda>i. (i, segment_path i)"
  let ?m = "''wal-merged-'' @ pad10 ts @ ''.log''"
  obtain ids ess cur j where s: "segs_of d (ids @ [?k])"
      "list_all2 (\<lambda>i es. seg_state crc d i es (length es)) ids ess" "seg_state crc d ?k cur j"
      "log = concat ess @ cur" "synced = length (concat ess) + j" "\<forall>e\<in>set log. entry_ok e"
      "sw_path (current_segment w) = segment_path ?k"
      "bytes_written (current_segment w) = length (concat (map (to_bytes crc) cur))"
    using assms unfolding wal_inv_def log_inv_def by blast
  note sealed = sealed_segments [OF s(1)]
  show ?thesis
  proof (cases "ids = []")
    case True
    then show ?thesis using assms s(2,4)
      by (intro exI [of _ d] exI [of _ "[]"] exI [of _ cur]) (simp add: wal_compact_def sealed list_segments_eq [OF s(1)])
  next
    case False
    define bs where "bs = concat (map (to_bytes crc) (fold btree_insert (filter (\<lambda>e. 0 < txn_id e) (concat ess)) []))"
    define d' where "d' = fold (\<lambda>(_, p) dd. AList.delete p dd) (map ?p ids) (AList.update ?m \<lparr>content = bs, durable = length bs\<rparr> d)"
    have r: "read_segments crc d 0 (map ?p ids) = Inr (filter (\<lambda>e. 0 < txn_id e) (concat ess))"
      using s(4,6) by (intro read_segments_states [OF s(2)]) auto
    have c: "wal_compact crc ts w d = Inr d'"
      using False by (simp add: wal_compact_def sealed r bs_def d'_def Let_def)
    have ne: "segment_path i \<noteq> ?m" for i using segment_id_of_path [of i] by (metis not_segment_names(2) option.distinct(1))
    have "?k \<notin> set ids" using segs_of_last [OF s(1)] by blast
    then have "seg_state crc d' ?k cur j" using s(3) ne
      by (simp add: seg_state_def d'_def map_of_remove_files image_image image_iff)
    moreover have segs: "segs_of d' ([] @ [?k])" unfolding append_Nil d'_def by (rule segs_of_compact [OF s(1) not_segment_names(2)])
    ultimately have "log_inv crc (current_segment w) d' cur j" unfolding log_inv_def
      using s(4,6-8) by (intro exI [of _ "[]"] exI [of _ cur] exI [of _ j]) simp
    moreover have "map_of d' ?m = Some \<lparr>content = bs, durable = length bs\<rparr>" using ne ne [symmetric]
      by (simp add: d'_def map_of_remove_files image_iff)
    moreover have "map_of d' ''checkpoint.bin'' = map_of d ''checkpoint.bin''"
      by (simp add: d'_def map_of_remove_files image_iff)
    ultimately show ?thesis using c s(4,5) False
      by (intro exI [of _ d'] exI [of _ "concat ess"] exI [of _ cur]) (simp add: wal_inv_def bs_def Let_def list_segments_eq [OF s(1)] list_segments_eq [OF segs])
  qed
qed

section \<open>Properties\<close>

text \<open>
  C8. Round trip of the entry format: decoding the encoding of an entry, whatever follows it in
  the file, gives the entry back and consumes exactly its bytes.
\<close>

theorem wal_entry_roundtrip:
  assumes "length (payload e) < 2 ^ 32"
  shows "from_bytes crc (to_bytes crc e @ rest) = Inr (e, 17 + length (payload e))"
  using assms from_bytes_to_bytes [of e crc rest] by (simp add: entry_ok_def)

theorem wal_entry_roundtrip_witness:
  "from_bytes (\<lambda>_. 7) (to_bytes (\<lambda>_. 7) \<lparr>txn_id = 5, op_code = 1, payload = [10, 20]\<rparr> @ [1, 2, 3]) =
     Inr (\<lparr>txn_id = 5, op_code = 1, payload = [10, 20]\<rparr>, 19)"
  using wal_entry_roundtrip [of "\<lparr>txn_id = 5, op_code = 1, payload = [10, 20]\<rparr>" "\<lambda>_. 7" "[1, 2, 3]"] by simp

text \<open>
  C7. Durability of the log. Open a WAL in an empty directory, append any sequence of entries in
  any modes and with any segment and fsync sizes, and crash: whatever part of the bytes that
  were not fsynced survives, recovery succeeds and returns a prefix of the appended entries, in order
  and with the transaction ids 1, 2, ..., which contains every entry up to the last one
  appended in durable mode.
\<close>

theorem wal_crash_durability:
  assumes "wal_open C cfg [] = Inr s0" and "\<forall>p\<in>set ps. length (payload (fst p)) < 2 ^ 32"
    and "length ps < 2 ^ 64"
  shows "\<exists>n. durable_len 0 0 ps \<le> n \<and> n \<le> length ps \<and>
    wal_recover crc C (crash keep (snd (fold (wal_run crc) ps s0))) = Inr (take n (stamped 1 ps))"
  by (rule crash_recover [OF assms])

theorem wal_crash_durability_witness:
  "\<exists>n. 2 \<le> n \<and> n \<le> 3 \<and> wal_recover (\<lambda>_. 0) \<lparr>cp_serialize = \<lambda>_. Inr [], cp_deserialize = \<lambda>_. Inl IoError\<rparr>
      (crash (\<lambda>_. 60) (snd (fold (wal_run (\<lambda>_. 0))
        [(\<lparr>txn_id = 0, op_code = 1, payload = [1]\<rparr>, Fast), (\<lparr>txn_id = 0, op_code = 1, payload = [2]\<rparr>, Durable),
         (\<lparr>txn_id = 0, op_code = 2, payload = []\<rparr>, Fast)]
        (\<lparr>wal_cfg = default_wal_config, current_segment = \<lparr>sw_path = segment_path 0, sw_segment_id = 0,
          bytes_written = 0, ops_since_fsync = 0\<rparr>, next_txn_id = 1\<rparr>,
         [(segment_path 0, \<lparr>content = [], durable = 0\<rparr>)])))) =
      Inr (take n [\<lparr>txn_id = 1, op_code = 1, payload = [1]\<rparr>, \<lparr>txn_id = 2, op_code = 1, payload = [2]\<rparr>,
        \<lparr>txn_id = 3, op_code = 2, payload = []\<rparr>])"
  using wal_crash_durability [OF open_fresh_inv, of
      "[(\<lparr>txn_id = 0, op_code = 1, payload = [1]\<rparr>, Fast), (\<lparr>txn_id = 0, op_code = 1, payload = [2]\<rparr>, Durable),
         (\<lparr>txn_id = 0, op_code = 2, payload = []\<rparr>, Fast)]"
      "\<lambda>_. 0" "\<lparr>cp_serialize = \<lambda>_. Inr [], cp_deserialize = \<lambda>_. Inl IoError\<rparr>" "\<lambda>_. 60" default_wal_config]
  by (simp, simp add: numeral_2_eq_2 numeral_3_eq_3)

text \<open>
  C9. Refinement to an append-only list: for a log in a good state whose counters do not wrap, a
  sequence of appends makes recovery return the entries it returned before, followed by the new ones
  stamped with consecutive transaction ids.
\<close>

theorem wal_refines_list:
  assumes "wal_good crc s" and "\<forall>p\<in>set ps. length (payload (fst p)) < 2 ^ 32"
    and "unat (sw_segment_id (current_segment (fst s))) + length ps < 2 ^ 64"
    and "unat (next_txn_id (fst s)) + length ps < 2 ^ 64" and "last_flushed_of C (snd s) < next_txn_id (fst s)"
  shows "wal_recovered crc C (fold (wal_run crc) ps s) =
    wal_recovered crc C s @ stamped (next_txn_id (fst s)) ps"
  using wlog.run_entries [OF assms(1), of C ps] run_ok_stamped [OF assms] by simp

theorem wal_refines_list_witness:
  "wal_recovered (\<lambda>_. 0) \<lparr>cp_serialize = \<lambda>_. Inr [], cp_deserialize = \<lambda>_. Inl IoError\<rparr>
     (fold (wal_run (\<lambda>_. 0)) [(\<lparr>txn_id = 0, op_code = 1, payload = [9]\<rparr>, Fast)]
        (\<lparr>wal_cfg = default_wal_config, current_segment = \<lparr>sw_path = segment_path 0, sw_segment_id = 0,
          bytes_written = 0, ops_since_fsync = 0\<rparr>, next_txn_id = 1\<rparr>,
         [(segment_path 0, \<lparr>content = [], durable = 0\<rparr>)])) = [\<lparr>txn_id = 1, op_code = 1, payload = [9]\<rparr>]"
proof -
  let ?w = "\<lparr>wal_cfg = default_wal_config, current_segment = \<lparr>sw_path = segment_path 0, sw_segment_id = 0,
          bytes_written = 0, ops_since_fsync = 0\<rparr>, next_txn_id = 1\<rparr>"
    and ?d = "[(segment_path 0, \<lparr>content = [], durable = 0\<rparr>)]"
    and ?C = "\<lparr>cp_serialize = \<lambda>_. Inr [], cp_deserialize = \<lambda>_. Inl IoError\<rparr> :: cp_codec"
  have inv: "wal_inv (\<lambda>_. 0) ?w ?d [] 0" using fresh_log_inv by (simp add: wal_inv_def)
  then have "wal_good (\<lambda>_. 0) (?w, ?d)" by (auto simp: wal_good_def)
  moreover have "last_flushed_of ?C ?d = 0" by (rule no_checkpoint) simp
  moreover have "wal_recovered (\<lambda>_. 0) ?C (?w, ?d) = []" using recover_log [OF inv, of ?C] by (simp add: wal_recovered_def)
  ultimately show ?thesis
    using wal_refines_list [of "\<lambda>_. 0" "(?w, ?d)" "[(\<lparr>txn_id = 0, op_code = 1, payload = [9]\<rparr>, Fast)]" ?C] by simp
qed

text \<open>
  C10. A torn write hides later durable writes. A log is opened in an empty directory, an entry is
  written in fast mode and a crash leaves a part of it with its header. The log is opened again
  and appends after the torn bytes: an entry appended in durable mode that is short enough to fit in what the
  torn header announces is not returned by recovery.
\<close>

theorem torn_tail_hides_durable_append:
  assumes "wal_open C cfg [] = Inr s0" and "length (payload x) < 2 ^ 32"
    and "17 + length (payload x) \<le> segment_size cfg" and "1 < fsync_interval_ops cfg"
    and "13 \<le> m" and "m + length (payload e) < length (payload x)"
  shows "\<exists>w d txn w' d'. wal_open C cfg (crash (\<lambda>_. m) (snd (wal_run crc (x, Fast) s0))) = Inr (w, d) \<and>
    wal_append crc w e Durable d = Inr (txn, w', d') \<and> wal_recover crc C d' = Inr []"
proof -
  let ?x = "\<lparr>txn_id = 1, op_code = op_code x, payload = payload x\<rparr>"
    and ?e = "\<lparr>txn_id = 1, op_code = op_code e, payload = payload e\<rparr>"
  let ?torn = "take m (to_bytes crc ?x)"
  let ?d = "[(segment_path 0, \<lparr>content = ?torn, durable = m\<rparr>)]"
    and ?w = "\<lparr>wal_cfg = cfg, current_segment = \<lparr>sw_path = segment_path 0, sw_segment_id = 0, bytes_written = m,
      ops_since_fsync = 0\<rparr>, next_txn_id = 1\<rparr>"
  have c: "crash (\<lambda>_. m) (snd (wal_run crc (x, Fast) s0)) = ?d"
    unfolding fresh_append_fast [OF assms(3,4,1)] using assms(6) by (simp add: crash_def)
  have o: "wal_open C cfg ?d = Inr (?w, ?d)"
    using assms(6) by (simp add: wal_open_def list_segments_eq [OF one_segment] sw_append_def read_checkpoint_def)
  define f where "f = \<lparr>content = ?torn @ to_bytes crc ?e, durable = m + 17 + length (payload e)\<rparr>"
  have a: "\<exists>txn w'. wal_append crc ?w e Durable ?d = Inr (txn, w', [(segment_path 0, f)])"
    using assms(3,6)
    by (auto simp: wal_append_def Let_def write_entry_def append_file_def fsync_def sync_file_def f_def)
  have "\<exists>a b. from_bytes crc (content f) = Inl (PayloadTruncated a b)"
    unfolding f_def using assms(2,5,6) by (simp add: from_bytes_torn_append entry_ok_def)
  then have "read_entries_from crc 0 skip 0 (content f) = Inr []" for skip
    by (subst read_entries_from.simps) auto
  then have "wal_recover crc C [(segment_path 0, f)] = Inr []"
    by (simp add: wal_recover_def list_segments_eq [OF one_segment] read_segment_entries_def)
  then show ?thesis using c o a by metis
qed

theorem torn_tail_hides_durable_append_witness:
  "\<exists>w d txn w' d'. wal_open \<lparr>cp_serialize = \<lambda>_. Inr [], cp_deserialize = \<lambda>_. Inl IoError\<rparr> default_wal_config
      (crash (\<lambda>_. 20) (snd (wal_run (\<lambda>_. 0) (\<lparr>txn_id = 0, op_code = 1, payload = replicate 100 7\<rparr>, Fast)
        (\<lparr>wal_cfg = default_wal_config, current_segment = \<lparr>sw_path = segment_path 0, sw_segment_id = 0,
          bytes_written = 0, ops_since_fsync = 0\<rparr>, next_txn_id = 1\<rparr>,
         [(segment_path 0, \<lparr>content = [], durable = 0\<rparr>)])))) = Inr (w, d) \<and>
    wal_append (\<lambda>_. 0) w \<lparr>txn_id = 0, op_code = 1, payload = [1, 2]\<rparr> Durable d = Inr (txn, w', d') \<and>
    wal_recover (\<lambda>_. 0) \<lparr>cp_serialize = \<lambda>_. Inr [], cp_deserialize = \<lambda>_. Inl IoError\<rparr> d' = Inr []"
  by (rule torn_tail_hides_durable_append [OF open_fresh_inv]) (simp_all add: default_wal_config_def)

text \<open>
  Compaction takes the entries of the sealed segments out of recovery: it succeeds, writes them
  deduplicated by transaction id to the merged file and removes the sealed segments, and
  recovery afterwards reads the current segment only, so it returns none of them unless
  a checkpoint covers them already.
\<close>

lemma compaction_hides_sealed:
  assumes "wal_inv crc w d log synced"
  shows "\<exists>d' sealed cur. wal_compact crc ts w d = Inr d' \<and> log = sealed @ cur \<and>
    list_segments d' = [(sw_segment_id (current_segment w), segment_path (sw_segment_id (current_segment w)))] \<and>
    wal_recover crc C d' = Inr (filter (\<lambda>e. last_flushed_of C d < txn_id e) cur) \<and>
    (if length (list_segments d) = 1 then d' = d
     else map_of d' (''wal-merged-'' @ pad10 ts @ ''.log'') = Some (let bs = concat (map (to_bytes crc)
        (fold btree_insert (filter (\<lambda>e. 0 < txn_id e) sealed) [])) in \<lparr>content = bs, durable = length bs\<rparr>))"
proof -
  obtain d' sealed cur where c: "wal_compact crc ts w d = Inr d'" "log = sealed @ cur"
      "wal_inv crc w d' cur (synced - length sealed)" "map_of d' ''checkpoint.bin'' = map_of d ''checkpoint.bin''"
      "list_segments d' = [(sw_segment_id (current_segment w), segment_path (sw_segment_id (current_segment w)))]"
      "if length (list_segments d) = 1 then d' = d
       else map_of d' (''wal-merged-'' @ pad10 ts @ ''.log'') = Some (let bs = concat (map (to_bytes crc)
        (fold btree_insert (filter (\<lambda>e. 0 < txn_id e) sealed) [])) in \<lparr>content = bs, durable = length bs\<rparr>)"
    using compact_log [OF assms, of ts] by blast
  have "last_flushed_of C d' = last_flushed_of C d" using c(4) by (simp add: last_flushed_of_def read_checkpoint_def)
  then show ?thesis using c recover_log [OF c(3), of C]
    by (intro exI [of _ d'] exI [of _ sealed] exI [of _ cur]) simp
qed

end
