(* ===== verification/Core_Types.thy ===== *)
theory Core_Types
  imports Floats
begin

text \<open>
  The crate \<open>tesseract-core\<close> without its topological engine: identifiers and metadata values
  (\<open>types.rs\<close>), sparse projection (\<open>projection.rs\<close>), the exact distances (\<open>distance.rs\<close>) and the
  per-user footprints (\<open>episodic.rs\<close>). JSON values stand for \<open>serde_json::Value\<close>, which the storage
  and query crates use for metadata.
\<close>

section \<open>Types\<close>

type_synonym vector_id = u64

datatype metadata_value =
    MString string
  | MInteger int
  | MFloat f64
  | MBoolean bool
  | MDateTime int
  | MArray "metadata_value list"

datatype json_number = PosInt u64 | NegInt int | JFloat f64

datatype json =
    JNull
  | JBool bool
  | JNumber json_number
  | JString string
  | JArray "json list"
  | JObject "(string \<times> json) list"

text \<open>\<open>Value::get(key)\<close> with a string key.\<close>

definition json_get :: "json \<Rightarrow> string \<Rightarrow> json option" where
  "json_get j k = (case j of JObject kvs \<Rightarrow> map_of kvs k | _ \<Rightarrow> None)"

definition json_number_as_f64 :: "json_number \<Rightarrow> f64" where
  "json_number_as_f64 n = (case n of PosInt u \<Rightarrow> fof_int F64 (uint u) | NegInt i \<Rightarrow> fof_int F64 i | JFloat x \<Rightarrow> x)"

definition json_as_f64 :: "json \<Rightarrow> f64 option" where
  "json_as_f64 j = (case j of JNumber n \<Rightarrow> Some (json_number_as_f64 n) | _ \<Rightarrow> None)"

section \<open>Projection\<close>

type_synonym weight_mask = "(nat \<times> f32) list"

fun check_mask :: "nat \<Rightarrow> weight_mask \<Rightarrow> unit result" where
  "check_mask n [] = Inr ()"
| "check_mask n ((idx, _) # rest) = (if n \<le> idx then Inl (IndexOutOfBounds idx n) else check_mask n rest)"

definition project :: "f64 list \<Rightarrow> weight_mask \<Rightarrow> f64 list result" where
  "project v wm = rbind (check_mask (length v) wm)
     (\<lambda>_. Inr (fold (\<lambda>(idx, weight) r. r[idx := fmul F64 (r ! idx) weight]) wm v))"

section \<open>Distances\<close>

definition l2_norm :: "f64 list \<Rightarrow> f64" where
  "l2_norm v = fsqrt F64 (fsum F64 (map (\<lambda>x. fmul F64 x x) v))"

text \<open>\<open>NormalizedVector::new\<close>; the wrapper is its list of components.\<close>

definition normalized_new :: "f64 list \<Rightarrow> f64 list result" where
  "normalized_new v = (let norm = l2_norm v in
     if \<not> is_finite norm \<or> feq norm (Num 0) then Inl (InvalidVector ''vector must be finite and non-zero'')
     else Inr (map (\<lambda>x. fdiv F64 x norm) v))"

definition dot :: "f64 list \<Rightarrow> f64 list \<Rightarrow> f64" where
  "dot a b = fsum F64 (map (\<lambda>(x, y). fmul F64 x y) (zip a b))"

definition cosine_distance :: "f64 list \<Rightarrow> f64 list \<Rightarrow> f64 result" where
  "cosine_distance a b =
     (if length a \<noteq> length b then Inl (DimensionMismatch (length a) (length b))
      else Inr (fsub F64 (Num 1) (dot a b)))"

definition euclidean_distance :: "f64 list \<Rightarrow> f64 list \<Rightarrow> f64 result" where
  "euclidean_distance a b =
     (if length a \<noteq> length b then Inl (DimensionMismatch (length a) (length b))
      else Inr (fsqrt F64 (fsum F64 (map (\<lambda>(x, y). let d = fsub F64 x y in fmul F64 d d) (zip a b)))))"

section \<open>Footprints\<close>

record user_footprint =
  fp_user_id :: string
  fp_vector :: "f64 list"
  interaction_count :: u64

type_synonym episodic = "(string \<times> user_footprint) list"

definition get_footprint :: "episodic \<Rightarrow> string \<Rightarrow> f64 list option" where
  "get_footprint m uid = map_option fp_vector (map_of m uid)"

text \<open>The literals 0.7 and \<open>1.0 - 0.7\<close> as doubles.\<close>

definition fp_alpha :: f64 where
  "fp_alpha = fround F64 (7 / 10)"

definition blend :: "f64 list \<Rightarrow> f64 list \<Rightarrow> f64 list" where
  "blend v bias = map (\<lambda>(i, x). if i < length bias
       then fadd F64 (fmul F64 fp_alpha x) (fmul F64 (fsub F64 (Num 1) fp_alpha) (bias ! i)) else x) (List.enumerate 0 v)"

definition update_footprint :: "episodic \<Rightarrow> string \<Rightarrow> f64 list \<Rightarrow> f64 list \<Rightarrow> episodic" where
  "update_footprint m uid clicked query =
     (let entry = (case map_of m uid of Some e \<Rightarrow> e
          | None \<Rightarrow> \<lparr>fp_user_id = uid, fp_vector = clicked, interaction_count = 0\<rparr>);
          bias = map (\<lambda>(c, q). fmul F64 c q) (zip clicked query);
          v = (if fp_vector entry = [] then bias else blend (fp_vector entry) bias)
      in AList.update uid (entry\<lparr>fp_vector := v, interaction_count := interaction_count entry + 1\<rparr>) m)"

definition apply_footprint :: "f64 list \<Rightarrow> f64 list \<Rightarrow> f64 list" where
  "apply_footprint query fp = map (\<lambda>(q, f). fmul F64 q f) (zip query fp)"

section \<open>Lemmas\<close>

lemma check_mask_ok: "check_mask n wm = Inr () \<longleftrightarrow> (\<forall>(i, _)\<in>set wm. i < n)"
  by (induction wm) (auto split: if_splits)

lemma check_mask_err: "check_mask n wm = Inl e \<Longrightarrow> \<exists>i. i \<in> fst ` set wm \<and> n \<le> i \<and> e = IndexOutOfBounds i n"
  by (induction wm) (force split: if_splits)+

lemma length_project_fold: "length (fold (\<lambda>(i, w) r. r[i := f (r ! i) w]) wm v) = length v"
  by (induction wm arbitrary: v) auto

lemma project_fold_other:
  "k \<notin> fst ` set wm \<Longrightarrow> fold (\<lambda>(i, w) r. r[i := f (r ! i) w]) wm v ! k = v ! k"
proof (induction wm arbitrary: v)
  case (Cons p wm)
  then show ?case by (cases p) auto
qed simp

lemma project_fold_nth:
  "distinct (map fst wm) \<Longrightarrow> (k, w) \<in> set wm \<Longrightarrow> k < length v \<Longrightarrow>
     fold (\<lambda>(i, w) r. r[i := f (r ! i) w]) wm v ! k = f (v ! k) w"
proof (induction wm arbitrary: v)
  case (Cons p wm)
  obtain i u where p: "p = (i, u)" by fastforce
  show ?case
  proof (cases "i = k")
    case True
    then have "u = w" "k \<notin> fst ` set wm" using Cons.prems p by (force dest: in_set_zipE)+
    then show ?thesis using True p Cons.prems(3) by (simp add: project_fold_other)
  next
    case False
    then show ?thesis using Cons p by auto
  qed
qed simp

lemma fmul_comm: "fmul F a b = fmul F b a"
  by (cases "fsign a"; cases "fsign b"; cases a; cases b) (auto simp: fmul_def mult.commute)

lemma map_zip_swap: "(\<And>x y. f x y = f y x) \<Longrightarrow> map (\<lambda>(x, y). f x y) (zip a b) = map (\<lambda>(x, y). f x y) (zip b a)"
  by (induction a b rule: list_induct2') auto

lemma dot_comm: "dot a b = dot b a"
  unfolding dot_def by (subst map_zip_swap) (simp_all add: fmul_comm)

lemma length_blend [simp]: "length (blend v bias) = length v"
  by (simp add: blend_def)

section \<open>Properties\<close>

text \<open>
  Sparse projection: a mask with distinct indices is accepted exactly when all its indices are in
  range; then each listed dimension is multiplied by its weight once and every other
  dimension is unchanged. Otherwise the result is the out-of-bounds error for an
  offending index.
\<close>

lemma project_spec:
  assumes "distinct (map fst wm)"
  shows "case project v wm of
      Inr r \<Rightarrow> (\<forall>(i, _)\<in>set wm. i < length v) \<and> length r = length v \<and>
        (\<forall>k < length v. r ! k = (case map_of wm k of None \<Rightarrow> v ! k | Some w \<Rightarrow> fmul F64 (v ! k) w))
    | Inl e \<Rightarrow> \<exists>i \<in> fst ` set wm. length v \<le> i \<and> e = IndexOutOfBounds i (length v)"
proof (cases "check_mask (length v) wm")
  case (Inl e)
  then show ?thesis using check_mask_err [OF Inl] by (auto simp: project_def)
next
  case (Inr u)
  have "fold (\<lambda>(i, w) r. r[i := fmul F64 (r ! i) w]) wm v ! k =
      (case map_of wm k of None \<Rightarrow> v ! k | Some w \<Rightarrow> fmul F64 (v ! k) w)" if "k < length v" for k
    using assms that
    by (auto simp: map_of_eq_None_iff project_fold_other project_fold_nth split: option.split dest: map_of_SomeD)
  then show ?thesis using Inr check_mask_ok [of "length v" wm] by (simp add: project_def length_project_fold)
qed

text \<open>
  The exact distances are symmetric and reject exactly the vectors of different dimensions, and a
  Euclidean distance is never below zero.
\<close>

lemma distances_symmetric:
  "length a = length b \<Longrightarrow> euclidean_distance a b = euclidean_distance b a \<and> cosine_distance a b = cosine_distance b a \<and>
     (\<exists>x y. euclidean_distance a b = Inr x \<and> cosine_distance a b = Inr y \<and> \<not> flt x (Num 0))"
proof -
  assume l: "length a = length b"
  have sym: "map (\<lambda>(x, y). let d = fsub F64 x y in fmul F64 d d) (zip a b) =
      map (\<lambda>(x, y). let d = fsub F64 x y in fmul F64 d d) (zip b a)"
    by (rule map_zip_swap) (metis fmul_sub_sym)
  have "nonneg (fsqrt F64 (fsum F64 (map (\<lambda>(x, y). let d = fsub F64 x y in fmul F64 d d) (zip a b))))"
    by (intro fsqrt_nonneg fsum_nonneg) (auto simp: Let_def fmul_self_nonneg)
  then show ?thesis using l sym dot_comm [of a b]
    by (simp add: euclidean_distance_def cosine_distance_def nonneg_not_flt_0)
qed

end
