(* ===== verification/Topological.thy ===== *)
theory Topological
  imports Core_Types
begin

text \<open>
  The topological bias engine, \<open>tesseract-core/src/topological.rs\<close>: the category centroids, the
  Welford correlation statistics, the bucketed centroids of numerical fields and the shift of a query
  vector toward the region of its filters.
\<close>

section \<open>Filters\<close>

datatype range_op = Eq | Gte | Gt | Lte | Lt | Range f64 f64

datatype bias_kind = Category string | Numerical f64 range_op

record bias_filter =
  bf_field :: string
  bf_kind :: bias_kind

text \<open>
  The loop \<open>for (i, v) in vs.iter().enumerate() { if i < ss.len() { ss[i] += v } }\<close>.
\<close>

fun add_into :: "f64 list \<Rightarrow> f64 list \<Rightarrow> f64 list" where
  "add_into [] vs = []"
| "add_into (s # ss) [] = s # ss"
| "add_into (s # ss) (v # vs) = fadd F64 s v # add_into ss vs"

definition zeros :: "nat \<Rightarrow> f64 list" where
  "zeros n = replicate n (Num 0)"

definition count_f64 :: "u64 \<Rightarrow> f64" where
  "count_f64 c = fof_int F64 (uint c)"

section \<open>Category centroids\<close>

record centroid_tracker =
  ct_global_sum :: "f64 list"
  ct_global_count :: u64
  categories :: "(string \<times> (string \<times> f64 list \<times> u64) list) list"

definition ct_new :: "nat \<Rightarrow> centroid_tracker" where
  "ct_new d = \<lparr>ct_global_sum = zeros d, ct_global_count = 0, categories = []\<rparr>"

text \<open>The body of the loop over the tracked fields.\<close>

definition ct_update_field :: "f64 list \<Rightarrow> json \<Rightarrow> string \<Rightarrow> centroid_tracker \<Rightarrow> centroid_tracker" where
  "ct_update_field v metadata field t = (case json_get metadata field of
       Some (JString cat) \<Rightarrow>
         (let cats = (case map_of (categories t) field of Some m \<Rightarrow> m | None \<Rightarrow> []);
              (s, n) = (case map_of cats cat of Some e \<Rightarrow> e | None \<Rightarrow> (zeros (length (ct_global_sum t)), 0))
          in t\<lparr>categories := AList.update field (AList.update cat (add_into s v, n + 1) cats) (categories t)\<rparr>)
     | _ \<Rightarrow> t)"

definition ct_update :: "f64 list \<Rightarrow> json \<Rightarrow> string list \<Rightarrow> centroid_tracker \<Rightarrow> centroid_tracker" where
  "ct_update v metadata tracked t =
     fold (ct_update_field v metadata) tracked
       (t\<lparr>ct_global_sum := add_into (ct_global_sum t) v, ct_global_count := ct_global_count t + 1\<rparr>)"

definition mean_of :: "f64 list \<Rightarrow> u64 \<Rightarrow> f64 list" where
  "mean_of s n = map (\<lambda>x. fdiv F64 x (count_f64 n)) s"

definition ct_global_centroid :: "centroid_tracker \<Rightarrow> f64 list" where
  "ct_global_centroid t =
     (if ct_global_count t = 0 then zeros (length (ct_global_sum t)) else mean_of (ct_global_sum t) (ct_global_count t))"

definition ct_delta :: "centroid_tracker \<Rightarrow> string \<Rightarrow> string \<Rightarrow> f64 list option" where
  "ct_delta t field value =
     (if ct_global_count t = 0 then None
      else case map_of (categories t) field of None \<Rightarrow> None
      | Some cats \<Rightarrow> (case map_of cats value of None \<Rightarrow> None
          | Some (s, n) \<Rightarrow> if n = 0 then None
              else Some (map (\<lambda>(g, c). fsub F64 c g) (zip (ct_global_centroid t) (mean_of s n)))))"

section \<open>Correlations\<close>

record numerical_stats =
  ns_count :: u64
  ns_field_mean :: f64
  ns_field_m2 :: f64
  ns_dim_means :: "f64 list"
  ns_dim_m2 :: "f64 list"
  ns_dim_cross :: "f64 list"

definition ns_new :: "nat \<Rightarrow> numerical_stats" where
  "ns_new d = \<lparr>ns_count = 0, ns_field_mean = Num 0, ns_field_m2 = Num 0,
     ns_dim_means = zeros d, ns_dim_m2 = zeros d, ns_dim_cross = zeros d\<rparr>"

text \<open>Change the first \<open>n\<close> elements of a list, each by its index.\<close>

definition update_first :: "nat \<Rightarrow> (nat \<Rightarrow> 'a \<Rightarrow> 'a) \<Rightarrow> 'a list \<Rightarrow> 'a list" where
  "update_first n f xs = map (\<lambda>(i, x). if i < n then f i x else x) (List.enumerate 0 xs)"

text \<open>
  \<open>NumericalStats::update\<close>, Welford's step. The means of the first observation have the length
  of its vector; indexing \<open>dim_cross\<close> and \<open>dim_m2\<close> panics when the loop goes past them.
\<close>

definition ns_update :: "f64 \<Rightarrow> f64 list \<Rightarrow> numerical_stats \<Rightarrow> numerical_stats result" where
  "ns_update fv v st =
     (if ns_count st = 0 then Inr (st\<lparr>ns_count := 1, ns_field_mean := fv, ns_dim_means := v\<rparr>)
      else
        let n_old = ns_count st; n_new = n_old + 1;
            ratio = fdiv F64 (count_f64 n_old) (count_f64 n_new);
            delta_f = fsub F64 fv (ns_field_mean st);
            n = min (length v) (length (ns_dim_means st));
            delta = (\<lambda>d. fsub F64 (v ! d) (ns_dim_means st ! d))
        in if length (ns_dim_cross st) < n \<or> length (ns_dim_m2 st) < n then Inl Panic
           else Inr (st\<lparr>ns_count := n_new,
             ns_dim_cross := update_first n (\<lambda>d x. fadd F64 x (fmul F64 (fmul F64 delta_f (delta d)) ratio)) (ns_dim_cross st),
             ns_dim_m2 := update_first n (\<lambda>d x. fadd F64 x (fmul F64 (fmul F64 (delta d) (delta d)) ratio)) (ns_dim_m2 st),
             ns_dim_means := update_first n (\<lambda>d x. fadd F64 x (fdiv F64 (delta d) (count_f64 n_new))) (ns_dim_means st),
             ns_field_m2 := fadd F64 (ns_field_m2 st) (fmul F64 (fmul F64 delta_f delta_f) ratio),
             ns_field_mean := fadd F64 (ns_field_mean st) (fdiv F64 delta_f (count_f64 n_new))\<rparr>))"

record correlation_tracker =
  cr_dim :: nat
  cr_fields :: "(string \<times> numerical_stats) list"

definition cr_new :: "nat \<Rightarrow> correlation_tracker" where
  "cr_new d = \<lparr>cr_dim = d, cr_fields = []\<rparr>"

definition cr_update :: "string \<Rightarrow> f64 \<Rightarrow> f64 list \<Rightarrow> correlation_tracker \<Rightarrow> correlation_tracker result" where
  "cr_update field fv v t =
     (let st = (case map_of (cr_fields t) field of Some s \<Rightarrow> s | None \<Rightarrow> ns_new (cr_dim t))
      in rbind (ns_update fv v st) (\<lambda>st'. Inr (t\<lparr>cr_fields := AList.update field st' (cr_fields t)\<rparr>)))"

definition correlation_at :: "numerical_stats \<Rightarrow> f64 \<Rightarrow> nat \<Rightarrow> f64" where
  "correlation_at st field_std d =
     (if length (ns_dim_m2 st) \<le> d \<or> length (ns_dim_cross st) \<le> d then Num 0
      else let dim_var = fdiv F64 (ns_dim_m2 st ! d) (count_f64 (ns_count st)) in
        if fle dim_var (Num 0) then Num 0
        else let r = fdiv F64 (ns_dim_cross st ! d)
                   (fmul F64 (fmul F64 (count_f64 (ns_count st)) field_std) (fsqrt F64 dim_var))
             in fclamp (Num (- 1)) (Num 1) r)"

definition cr_correlations :: "correlation_tracker \<Rightarrow> string \<Rightarrow> f64 list option" where
  "cr_correlations t field = (case map_of (cr_fields t) field of None \<Rightarrow> None
     | Some st \<Rightarrow>
         if ns_count st < 2 then Some (zeros (cr_dim t))
         else let field_var = fdiv F64 (ns_field_m2 st) (count_f64 (ns_count st)) in
           if fle field_var (Num 0) then Some (zeros (cr_dim t))
           else Some (map (correlation_at st (fsqrt F64 field_var)) [0..<cr_dim t]))"

definition cr_field_mean :: "correlation_tracker \<Rightarrow> string \<Rightarrow> f64 option" where
  "cr_field_mean t field = (case map_of (cr_fields t) field of None \<Rightarrow> None
     | Some st \<Rightarrow> if ns_count st = 0 then None else Some (ns_field_mean st))"

section \<open>Bucketed centroids\<close>

record numerical_buckets =
  bk_boundaries :: "f64 list"
  bk_sums :: "f64 list list"
  bk_counts :: "u64 list"

record bucket_tracker =
  bt_dim :: nat
  bt_global_sum :: "f64 list"
  bt_global_count :: u64
  bt_fields :: "(string \<times> numerical_buckets) list"

definition bt_new :: "nat \<Rightarrow> bucket_tracker" where
  "bt_new d = \<lparr>bt_dim = d, bt_global_sum = zeros d, bt_global_count = 0, bt_fields = []\<rparr>"

definition register_field :: "string \<Rightarrow> f64 list \<Rightarrow> bucket_tracker \<Rightarrow> bucket_tracker result" where
  "register_field field bs t =
     (if bs = [] then Inl (InvalidConfig ''bucket boundaries must not be empty'')
      else Inr (t\<lparr>bt_fields := AList.update field
        \<lparr>bk_boundaries = bs, bk_sums = replicate (length bs) (zeros (bt_dim t)), bk_counts = replicate (length bs) 0\<rparr> (bt_fields t)\<rparr>))"

text \<open>\<open>bucket_index\<close>; the callers pass a list that is not empty.\<close>

definition bucket_index :: "f64 list \<Rightarrow> f64 \<Rightarrow> nat" where
  "bucket_index bs x =
     (if flt x (bs ! 0) then 0
      else case filter (\<lambda>i. flt x (bs ! (i + 1))) [0..<length bs - 1] of
          i # _ \<Rightarrow> i
        | [] \<Rightarrow> length bs - 1)"

definition bt_update :: "string \<Rightarrow> f64 \<Rightarrow> f64 list \<Rightarrow> bucket_tracker \<Rightarrow> bucket_tracker" where
  "bt_update field x v t =
     (let t' = t\<lparr>bt_global_sum := add_into (bt_global_sum t) v, bt_global_count := bt_global_count t + 1\<rparr>
      in case map_of (bt_fields t') field of None \<Rightarrow> t'
         | Some b \<Rightarrow> (let idx = bucket_index (bk_boundaries b) x in
             if idx < length (bk_sums b) then
               t'\<lparr>bt_fields := AList.update field
                 (b\<lparr>bk_sums := (bk_sums b)[idx := add_into (bk_sums b ! idx) v], bk_counts := (bk_counts b)[idx := bk_counts b ! idx + 1]\<rparr>)
                 (bt_fields t')\<rparr>
             else t'))"

definition bt_global_centroid :: "bucket_tracker \<Rightarrow> f64 list" where
  "bt_global_centroid t =
     (if bt_global_count t = 0 then zeros (length (bt_global_sum t)) else mean_of (bt_global_sum t) (bt_global_count t))"

definition candidate_indices :: "numerical_buckets \<Rightarrow> f64 \<Rightarrow> range_op \<Rightarrow> nat list" where
  "candidate_indices b x opr = (let i = bucket_index (bk_boundaries b) x in
     case opr of
       Eq \<Rightarrow> [i]
     | Gte \<Rightarrow> [i..<length (bk_counts b)]
     | Gt \<Rightarrow> [i..<length (bk_counts b)]
     | Lte \<Rightarrow> [0..<Suc i]
     | Lt \<Rightarrow> [0..<Suc i]
     | Range low high \<Rightarrow>
         [bucket_index (bk_boundaries b) low..<Suc (min (bucket_index (bk_boundaries b) high) (length (bk_counts b) - 1))])"

text \<open>The buckets that contribute, and the sum of their centroid deltas.\<close>

definition valid_bucket :: "numerical_buckets \<Rightarrow> nat \<Rightarrow> bool" where
  "valid_bucket b i \<longleftrightarrow> i < length (bk_counts b) \<and> 0 < bk_counts b ! i \<and> i < length (bk_sums b)"

definition bucket_delta :: "numerical_buckets \<Rightarrow> f64 list \<Rightarrow> nat \<Rightarrow> f64 list \<Rightarrow> f64 list" where
  "bucket_delta b g i acc = map (\<lambda>(d, x). if d < length (bk_sums b ! i)
       then fadd F64 x (fsub F64 (fdiv F64 (bk_sums b ! i ! d) (count_f64 (bk_counts b ! i))) (g ! d)) else x)
     (List.enumerate 0 acc)"

definition bt_delta :: "bucket_tracker \<Rightarrow> string \<Rightarrow> f64 \<Rightarrow> range_op \<Rightarrow> f64 list option" where
  "bt_delta t field x opr = (case map_of (bt_fields t) field of None \<Rightarrow> None
     | Some b \<Rightarrow>
         if bk_boundaries b = [] \<or> bt_global_count t = 0 then None
         else let valid = filter (valid_bucket b) (candidate_indices b x opr);
                  sum_delta = fold (bucket_delta b (bt_global_centroid t)) valid (zeros (bt_dim t))
              in if valid = [] then None
                 else if length valid = 1 then Some sum_delta
                 else Some (map (\<lambda>s. fdiv F64 s (fof_int F64 (int (length valid)))) sum_delta))"

section \<open>Bias\<close>

definition bias_one :: "centroid_tracker \<Rightarrow> correlation_tracker \<Rightarrow> bucket_tracker \<Rightarrow> f64 \<Rightarrow> bias_filter \<Rightarrow>
    f64 list \<Rightarrow> f64 list" where
  "bias_one ct cr bt alpha f biased = (case bf_kind f of
       Category c \<Rightarrow> (case ct_delta ct (bf_field f) c of None \<Rightarrow> biased
         | Some delta \<Rightarrow> add_into biased (map (fmul F64 alpha) delta))
     | Numerical x opr \<Rightarrow> (case bt_delta bt (bf_field f) x opr of
           Some delta \<Rightarrow> add_into biased (map (fmul F64 alpha) delta)
         | None \<Rightarrow> (case cr_correlations cr (bf_field f) of None \<Rightarrow> biased
             | Some corrs \<Rightarrow> (case cr_field_mean cr (bf_field f) of None \<Rightarrow> biased
                 | Some mn \<Rightarrow> (let diff = fsub F64 x mn
                     in add_into biased (map (\<lambda>c. fmul F64 (fmul F64 alpha c) diff) corrs))))))"

definition apply_topological_bias :: "f64 list \<Rightarrow> bias_filter list \<Rightarrow> centroid_tracker \<Rightarrow> correlation_tracker \<Rightarrow>
    bucket_tracker \<Rightarrow> f64 \<Rightarrow> f64 list" where
  "apply_topological_bias query filters ct cr bt alpha = fold (bias_one ct cr bt alpha) filters query"

section \<open>Lengths\<close>

lemma length_add_into [simp]: "length (add_into ss vs) = length ss"
  by (induction ss vs rule: add_into.induct) auto

lemma length_zeros [simp]: "length (zeros n) = n"
  by (simp add: zeros_def)

lemma length_mean_of [simp]: "length (mean_of s n) = length s"
  by (simp add: mean_of_def)

lemma length_bias_one [simp]: "length (bias_one ct cr bt alpha f q) = length q"
  by (auto simp: bias_one_def Let_def split: bias_kind.split option.split)

lemma length_update_first [simp]: "length (update_first n f xs) = length xs"
  by (simp add: update_first_def)

lemma length_bias: "length (fold (bias_one ct cr bt alpha) fs q) = length q"
  by (induction fs arbitrary: q) auto

section \<open>Category centroids hold the bk_sums of their records\<close>

text \<open>The reference: the records seen and the sum and the number of those in one category.\<close>

definition in_category :: "string \<Rightarrow> string \<Rightarrow> f64 list \<times> json \<Rightarrow> bool" where
  "in_category field cat r \<longleftrightarrow> json_get (snd r) field = Some (JString cat)"

definition sum_of :: "nat \<Rightarrow> f64 list list \<Rightarrow> f64 list" where
  "sum_of d vs = foldl add_into (zeros d) vs"

definition category_entry :: "centroid_tracker \<Rightarrow> string \<Rightarrow> string \<Rightarrow> (f64 list \<times> u64) option" where
  "category_entry t field cat = (case map_of (categories t) field of None \<Rightarrow> None | Some m \<Rightarrow> map_of m cat)"

lemma ct_update_field_frame [simp]:
  "ct_global_sum (ct_update_field v j f t) = ct_global_sum t"
  "ct_global_count (ct_update_field v j f t) = ct_global_count t"
  by (simp_all add: ct_update_field_def Let_def split: option.split json.split prod.split)

lemma ct_fold_frame [simp]:
  "ct_global_sum (fold (ct_update_field v j) fs t) = ct_global_sum t"
  "ct_global_count (fold (ct_update_field v j) fs t) = ct_global_count t"
  by (induction fs arbitrary: t) auto

lemma category_entry_field:
  "category_entry (ct_update_field v j f t) field cat =
     (if f = field \<and> json_get j f = Some (JString cat)
      then Some (case category_entry t field cat of Some (s, n) \<Rightarrow> (add_into s v, n + 1)
                 | None \<Rightarrow> (add_into (zeros (length (ct_global_sum t))) v, 1))
      else category_entry t field cat)"
proof (cases "\<exists>c. json_get j f = Some (JString c)")
  case True
  then obtain c where c: "json_get j f = Some (JString c)" ..
  then show ?thesis
    by (cases "map_of (categories t) f"; cases "f = field"; cases "c = cat")
      (auto simp: category_entry_def ct_update_field_def Let_def split: prod.split option.split)
next
  case False
  then show ?thesis by (auto simp: ct_update_field_def split: option.split json.split)
qed

lemma category_entry_fold:
  "distinct fs \<Longrightarrow> category_entry (fold (ct_update_field v j) fs t) field cat =
     (if field \<in> set fs \<and> json_get j field = Some (JString cat)
      then Some (case category_entry t field cat of Some (s, n) \<Rightarrow> (add_into s v, n + 1)
                 | None \<Rightarrow> (add_into (zeros (length (ct_global_sum t))) v, 1))
      else category_entry t field cat)"
proof (induction fs arbitrary: t)
  case (Cons f fs)
  then show ?case by (cases "category_entry t field cat") (auto simp: category_entry_field)
qed simp

definition ct_run :: "nat \<Rightarrow> string list \<Rightarrow> (f64 list \<times> json) list \<Rightarrow> centroid_tracker" where
  "ct_run d tracked rs = foldl (\<lambda>t r. ct_update (fst r) (snd r) tracked t) (ct_new d) rs"

lemma ct_run_snoc: "ct_run d tracked (rs @ [r]) = ct_update (fst r) (snd r) tracked (ct_run d tracked rs)"
  by (simp add: ct_run_def)

lemma ct_run_global:
  "ct_global_sum (ct_run d tracked rs) = sum_of d (map fst rs) \<and>
   ct_global_count (ct_run d tracked rs) = word_of_nat (length rs)"
proof (induction rs rule: rev_induct)
  case Nil
  then show ?case by (simp add: ct_run_def ct_new_def sum_of_def)
next
  case (snoc r rs)
  then show ?case by (simp add: ct_run_snoc ct_update_def sum_of_def)
qed

lemma length_sum_of [simp]: "length (sum_of d vs) = d"
proof -
  have "length (foldl add_into s vs) = length s" for s by (induction vs arbitrary: s) auto
  then show ?thesis by (simp add: sum_of_def)
qed

lemma ct_run_category:
  assumes "distinct tracked" "field \<in> set tracked"
  shows "category_entry (ct_run d tracked rs) field cat =
    (let vs = map fst (filter (in_category field cat) rs)
     in if vs = [] then None else Some (sum_of d vs, word_of_nat (length vs)))"
proof (induction rs rule: rev_induct)
  case Nil
  then show ?case by (simp add: ct_run_def ct_new_def category_entry_def)
next
  case (snoc r rs)
  have g: "length (ct_global_sum (ct_run d tracked rs)) = d" by (simp add: ct_run_global)
  have c: "category_entry (t\<lparr>ct_global_sum := s, ct_global_count := n\<rparr>) field cat = category_entry t field cat" for t s n
    by (simp add: category_entry_def)
  show ?case
    using assms snoc g
    by (auto simp: ct_run_snoc ct_update_def category_entry_fold c in_category_def Let_def sum_of_def
        split: if_splits)
qed

section \<open>Correlation statistics keep their dimension\<close>

definition ns_inv :: "nat \<Rightarrow> numerical_stats \<Rightarrow> bool" where
  "ns_inv d st \<longleftrightarrow> length (ns_dim_means st) = d \<and> length (ns_dim_m2 st) = d \<and> length (ns_dim_cross st) = d"

definition cr_inv :: "correlation_tracker \<Rightarrow> bool" where
  "cr_inv t \<longleftrightarrow> (\<forall>f st. map_of (cr_fields t) f = Some st \<longrightarrow> ns_inv (cr_dim t) st)"

lemma ns_inv_new [simp]: "ns_inv d (ns_new d)"
  by (simp add: ns_inv_def ns_new_def)

lemma ns_update_ok:
  "ns_inv d st \<Longrightarrow> length v = d \<Longrightarrow>
     \<exists>st'. ns_update fv v st = Inr st' \<and> ns_inv d st' \<and> ns_count st' = ns_count st + 1"
  by (cases "ns_count st = 0") (auto simp: ns_update_def ns_inv_def Let_def)

section \<open>Properties\<close>

text \<open>
  Centroid tracking is exact: after any sequence of inserts, the shift for a tracked category is
  the difference between the mean of the vectors of that category and the mean of all vectors, and
  there is no shift exactly when no record has that category (for fewer than 2 to the 64
  records).
\<close>

lemma centroid_delta_exact:
  assumes "distinct tracked" and "field \<in> set tracked" and "length rs < 2 ^ 64"
  shows "ct_delta (ct_run d tracked rs) field cat =
    (let vs = map fst (filter (in_category field cat) rs); mean = (\<lambda>ws. mean_of (sum_of d ws) (word_of_nat (length ws)))
     in if vs = [] then None else Some (map (\<lambda>(g, c). fsub F64 c g) (zip (mean (map fst rs)) (mean vs))))"
proof -
  let ?vs = "map fst (filter (in_category field cat) rs)"
  have nz: "(word_of_nat n :: u64) = 0 \<longleftrightarrow> n = 0" if "n \<le> length rs" for n
    using that assms(3) by (auto simp: word_of_nat_eq_0_iff dest: dvd_imp_le)
  have le: "length ?vs \<le> length rs" by simp
  have e: "category_entry (ct_run d tracked rs) field cat =
      (if ?vs = [] then None else Some (sum_of d ?vs, word_of_nat (length ?vs)))"
    using ct_run_category [OF assms(1,2)] by (simp add: Let_def)
  show ?thesis
  proof (cases "?vs = []")
    case True
    then show ?thesis using e by (auto simp: ct_delta_def category_entry_def Let_def split: option.splits)
  next
    case False
    then have "rs \<noteq> []" by auto
    then have "ct_global_count (ct_run d tracked rs) \<noteq> 0" using nz [of "length rs"] by (simp add: ct_run_global)
    moreover have "(word_of_nat (length ?vs) :: u64) \<noteq> 0" using nz [OF le] False by simp
    ultimately show ?thesis using e False
      by (auto simp: ct_delta_def category_entry_def Let_def ct_global_centroid_def ct_run_global split: option.splits)
  qed
qed

text \<open>
  Buckets partition the numbers: for sorted boundaries and a value that is not NaN, the bucket is
  in range, its lower boundary is not above the value (except in bucket 0) and the next boundary
  is above it (except in the last bucket).
\<close>

lemma bucket_index_spec:
  assumes "bs \<noteq> []" and "sorted_wrt (\<lambda>a b. \<not> flt b a) bs" and "x \<noteq> NaN" and "NaN \<notin> set bs"
  shows "bucket_index bs x < length bs \<and>
    (0 < bucket_index bs x \<longrightarrow> \<not> flt x (bs ! bucket_index bs x)) \<and>
    (bucket_index bs x + 1 < length bs \<longrightarrow> flt x (bs ! (bucket_index bs x + 1)))"
proof (cases "flt x (bs ! 0)")
  case True
  have "flt x (bs ! 1)" if "1 < length bs"
  proof -
    have "\<not> flt (bs ! 1) (bs ! 0)" using assms(2) that by (simp add: sorted_wrt_iff_nth_less)
    moreover have "bs ! 0 \<noteq> NaN" "bs ! 1 \<noteq> NaN" using assms(4) that by (metis nth_mem order_less_trans zero_less_one)+
    ultimately show ?thesis using True assms(3) not_flt_trans by blast
  qed
  then show ?thesis using True assms(1) by (simp add: bucket_index_def)
next
  case False
  let ?P = "\<lambda>i. flt x (bs ! (i + 1))" and ?r = "[0..<length bs - 1]"
  show ?thesis
  proof (cases "filter ?P ?r")
    case Nil
    then have "\<not> flt x (bs ! Suc j)" if "j < length bs - 1" for j
      using that by (auto simp: filter_empty_conv)
    then have "0 < length bs - 1 \<longrightarrow> \<not> flt x (bs ! (length bs - 1))"
      by (metis Suc_pred' diff_Suc_less less_imp_diff_less Suc_diff_1 lessI)
    then show ?thesis using False Nil assms(1) by (auto simp: bucket_index_def)
  next
    case (Cons i js)
    then obtain us vs where u: "?r = us @ i # vs" "\<forall>j\<in>set us. \<not> ?P j" "?P i"
      unfolding filter_eq_Cons_iff by blast
    have lus: "length us < length bs - 1" using arg_cong [OF u(1), of length] by simp
    then have "i = length us" using arg_cong [OF u(1), of "\<lambda>l. l ! length us"] by simp
    moreover have "us = take (length us) ?r" using u(1) by simp
    ultimately have i: "i < length bs - 1" "us = [0..<i]" using lus by simp_all
    have "\<not> flt x (bs ! i)" using u(2) i(2) False by (cases i) auto
    then show ?thesis using False Cons i(1) u(3) by (simp add: bucket_index_def)
  qed
qed


text \<open>
  Welford statistics never index out of range when all vectors have the tracker's dimension: the
  tracker keeps one value per dimension for every field, each update succeeds, and counts one
  more observation of its field.
\<close>

lemma correlation_update_total:
  assumes "cr_inv t" and "length v = cr_dim t"
  shows "\<exists>t'. cr_update field fv v t = Inr t' \<and> cr_inv t' \<and> cr_dim t' = cr_dim t \<and>
    (\<exists>st. map_of (cr_fields t') field = Some st \<and>
      ns_count st = (case map_of (cr_fields t) field of Some s \<Rightarrow> ns_count s + 1 | None \<Rightarrow> 1))"
proof -
  define st where "st = (case map_of (cr_fields t) field of Some s \<Rightarrow> s | None \<Rightarrow> ns_new (cr_dim t))"
  have "ns_inv (cr_dim t) st" using assms(1) by (auto simp: st_def cr_inv_def split: option.split)
  then obtain st' where st': "ns_update fv v st = Inr st'" "ns_inv (cr_dim t) st'" "ns_count st' = ns_count st + 1"
    using ns_update_ok [of "cr_dim t" st v fv] assms(2) by auto
  have "cr_update field fv v t = Inr (t\<lparr>cr_fields := AList.update field st' (cr_fields t)\<rparr>)"
    using st'(1) by (simp add: cr_update_def st_def Let_def)
  moreover have "ns_count st' = (case map_of (cr_fields t) field of Some s \<Rightarrow> ns_count s + 1 | None \<Rightarrow> 1)"
    using st'(3) by (simp add: st_def ns_new_def split: option.split)
  ultimately show ?thesis using st'(2) assms(1) by (auto simp: cr_inv_def)
qed

text \<open>
  Correlations are one coefficient per dimension, none of them below -1 or above 1, whatever the
  statistics are.
\<close>

lemma correlations_bounded:
  assumes "cr_correlations t field = Some cs"
  shows "length cs = cr_dim t \<and> (\<forall>c\<in>set cs. \<not> flt c (Num (- 1)) \<and> \<not> flt (Num 1) c)"
proof -
  have z: "\<not> flt (Num 0) (Num (- 1))" "\<not> flt (Num 1) (Num 0)" by (simp_all add: flt_def)
  have "\<not> flt (correlation_at st s d) (Num (- 1)) \<and> \<not> flt (Num 1) (correlation_at st s d)" for st s d
    using z by (auto simp: correlation_at_def fclamp_def Let_def flt_def)
  then show ?thesis using assms z
    by (auto simp: cr_correlations_def Let_def zeros_def split: option.splits if_splits)
qed

text \<open>
  Biasing keeps the dimension of the query, and filters on fields and categories without any
  recorded data leave the query as it is.
\<close>

lemma bias_neutral_without_data:
  "length (apply_topological_bias q fs ct cr bt alpha) = length q \<and>
   apply_topological_bias q fs (ct_new d) (cr_new d) (bt_new d) alpha = q"
proof -
  have "bias_one (ct_new d) (cr_new d) (bt_new d) alpha f x = x" for f x
    by (simp add: bias_one_def ct_delta_def ct_new_def bt_delta_def bt_new_def cr_correlations_def cr_new_def
        split: bias_kind.split)
  then have "fold (bias_one (ct_new d) (cr_new d) (bt_new d) alpha) fs q = q" by (induction fs) auto
  then show ?thesis by (simp add: apply_topological_bias_def length_bias)
qed

end
