(* ===== verification/Hot_Store.thy ===== *)
theory Hot_Store
  imports Core_Types
begin

text \<open>
  The in-memory tier, \<open>tesseract-storage/src/hot_store.rs\<close>: a map from vector ids to records with a
  capacity. The order of the association list is the iteration order of the \<open>DashMap\<close>.
\<close>

record vector_record =
  vr_id :: vector_id
  vr_vector :: "f64 list"
  vr_metadata :: json
  vr_created_at :: u64
  vr_access_count :: u64

record hot_store =
  vectors :: "(vector_id \<times> vector_record) list"
  hot_max_records :: nat

definition default_hot_max :: nat where
  "default_hot_max = 1000000"

definition hot_new :: "nat \<Rightarrow> hot_store" where
  "hot_new n = \<lparr>vectors = [], hot_max_records = n\<rparr>"

definition max_records :: "hot_store \<Rightarrow> nat option" where
  "max_records s = (if 0 < hot_max_records s then Some (hot_max_records s) else None)"

definition hot_len :: "hot_store \<Rightarrow> nat" where
  "hot_len s = length (vectors s)"

definition hot_full_msg :: "nat \<Rightarrow> string" where
  "hot_full_msg n = ''Hot store capacity reached: '' @ show_nat n @ '' records. Use drain_least_accessed() to free space.''"

definition hot_exists_msg :: "vector_id \<Rightarrow> string" where
  "hot_exists_msg i = ''VectorId '' @ show_nat (unat i) @ '' already exists in hot store''"

definition hot_insert :: "vector_record \<Rightarrow> hot_store \<Rightarrow> hot_store result" where
  "hot_insert r s =
     (let add = (case map_of (vectors s) (vr_id r) of
          Some _ \<Rightarrow> Inl (AlreadyExists (hot_exists_msg (vr_id r)))
        | None \<Rightarrow> Inr (s\<lparr>vectors := AList.update (vr_id r) r (vectors s)\<rparr>))
      in case max_records s of
           Some n \<Rightarrow> if n \<le> hot_len s then Inl (StoreFull (hot_full_msg n)) else add
         | None \<Rightarrow> add)"

definition hot_get :: "hot_store \<Rightarrow> vector_id \<Rightarrow> vector_record option" where
  "hot_get s i = map_of (vectors s) i"

definition hot_delete :: "vector_id \<Rightarrow> hot_store \<Rightarrow> bool \<times> hot_store" where
  "hot_delete i s = (map_of (vectors s) i \<noteq> None, s\<lparr>vectors := AList.delete i (vectors s)\<rparr>)"

text \<open>\<open>drain_least_accessed\<close>: the ids by access count, cut to \<open>n\<close>; each is removed and its record collected.\<close>

fun remove_all :: "vector_id list \<Rightarrow> (vector_id \<times> vector_record) list \<Rightarrow>
    vector_record list \<times> (vector_id \<times> vector_record) list" where
  "remove_all [] m = ([], m)"
| "remove_all (i # ids) m = (case remove_all ids (AList.delete i m) of
     (rs, m') \<Rightarrow> ((case map_of m i of Some r \<Rightarrow> r # rs | None \<Rightarrow> rs), m'))"

definition drain_order :: "hot_store \<Rightarrow> (vector_id \<times> u64) list" where
  "drain_order s = sort_by (\<lambda>a b. snd a \<le> snd b) (map (\<lambda>(i, r). (i, vr_access_count r)) (vectors s))"

definition drain_least_accessed :: "nat \<Rightarrow> hot_store \<Rightarrow> vector_record list \<times> hot_store" where
  "drain_least_accessed n s =
     (if vectors s = [] then ([], s)
      else case remove_all (map fst (take n (drain_order s))) (vectors s) of
        (rs, m) \<Rightarrow> (rs, s\<lparr>vectors := m\<rparr>))"

definition hot_clear :: "hot_store \<Rightarrow> hot_store" where
  "hot_clear s = s\<lparr>vectors := []\<rparr>"

section \<open>Invariant\<close>

text \<open>Keys are distinct and are the ids of their records; a limited store is within its capacity.\<close>

definition hot_inv :: "hot_store \<Rightarrow> bool" where
  "hot_inv s \<longleftrightarrow> wf_map (vectors s) \<and> (\<forall>(i, r)\<in>set (vectors s). vr_id r = i) \<and>
     (0 < hot_max_records s \<longrightarrow> hot_len s \<le> hot_max_records s)"

lemma hot_inv_new [simp, inv_intros]: "hot_inv (hot_new n)"
  by (simp add: hot_inv_def hot_new_def hot_len_def)

lemma hot_insert_Inr:
  "hot_insert r s = Inr s' \<longleftrightarrow> map_of (vectors s) (vr_id r) = None \<and>
     (0 < hot_max_records s \<longrightarrow> hot_len s < hot_max_records s) \<and>
     s' = s\<lparr>vectors := AList.update (vr_id r) r (vectors s)\<rparr>"
  by (auto simp: hot_insert_def max_records_def Let_def split: option.splits if_splits)

lemma hot_insert_inv [inv_intros]: "hot_inv s \<Longrightarrow> hot_insert r s = Inr s' \<Longrightarrow> hot_inv s'"
  by (auto simp: hot_insert_Inr hot_inv_def hot_len_def length_update_new set_update_new)

lemma hot_get_insert:
  "hot_insert r s = Inr s' \<Longrightarrow> hot_get s (vr_id r) = None \<and> (\<forall>k. hot_get s' k = (if k = vr_id r then Some r else hot_get s k))"
  by (auto simp: hot_insert_Inr hot_get_def)

lemma hot_get_id: "hot_inv s \<Longrightarrow> hot_get s i = Some r \<Longrightarrow> vr_id r = i"
  by (auto simp: hot_inv_def hot_get_def dest!: map_of_SomeD)

lemma hot_delete_inv [inv_intros]: "hot_inv s \<Longrightarrow> hot_inv (snd (hot_delete i s))"
  using length_delete_le [of i "vectors s"] by (auto simp: hot_inv_def hot_delete_def hot_len_def set_delete)

section \<open>The contract of a record store\<close>

text \<open>
  What the tier lifecycle and the engine's recovery rely on: an insert that succeeds adds exactly its
  record under a new key, and an insert that fails changes nothing. A batch of inserts whose
  errors are dropped then keeps every old record and adds only records of the batch.
\<close>

locale record_store =
  fixes get :: "'s \<Rightarrow> 'k \<Rightarrow> 'r option"
    and ins :: "'r \<Rightarrow> 's \<Rightarrow> 's result"
    and key :: "'r \<Rightarrow> 'k"
    and inv :: "'s \<Rightarrow> bool"
  assumes ins_inv: "inv s \<Longrightarrow> ins r s = Inr s' \<Longrightarrow> inv s'"
    and ins_get: "inv s \<Longrightarrow> ins r s = Inr s' \<Longrightarrow> get s (key r) = None \<and> (\<forall>k. get s' k = (if k = key r then Some r else get s k))"
begin

lemma batch_inv: "inv s \<Longrightarrow> inv (fold (or_keep ins) rs s)"
proof (induction rs arbitrary: s)
  case (Cons r rs)
  then show ?case by (cases "ins r s") (auto simp: or_keep_def intro: ins_inv)
qed simp

lemma batch_keeps: "inv s \<Longrightarrow> get s k = Some r \<Longrightarrow> get (fold (or_keep ins) rs s) k = Some r"
proof (induction rs arbitrary: s)
  case (Cons x rs)
  show ?case
  proof (cases "ins x s")
    case (Inl e)
    then show ?thesis using Cons by (simp add: or_keep_def)
  next
    case (Inr s')
    then have "get s' k = Some r" using ins_get [OF Cons.prems(1) Inr] Cons.prems(2) by auto
    then show ?thesis using Cons.IH [OF ins_inv [OF Cons.prems(1) Inr]] Inr by (simp add: or_keep_def)
  qed
qed simp

lemma batch_origin:
  "inv s \<Longrightarrow> get (fold (or_keep ins) rs s) k = Some r \<Longrightarrow> get s k = Some r \<or> r \<in> set rs \<and> key r = k"
proof (induction rs arbitrary: s)
  case (Cons x rs)
  show ?case
  proof (cases "ins x s")
    case (Inl e)
    then show ?thesis using Cons by (auto simp: or_keep_def)
  next
    case (Inr s')
    then have "get s' k = Some r \<or> r \<in> set rs \<and> key r = k"
      using Cons ins_inv [OF Cons.prems(1) Inr] by (auto simp: or_keep_def)
    then show ?thesis using ins_get [OF Cons.prems(1) Inr] by (auto split: if_splits)
  qed
qed simp

end

interpretation hs: record_store hot_get hot_insert vr_id hot_inv
  by unfold_locales (auto dest: hot_get_insert intro: hot_insert_inv)

section \<open>Draining\<close>

lemma remove_all_props:
  assumes "wf_map m" "distinct ids" "set ids \<subseteq> fst ` set m"
  shows "map Some (fst (remove_all ids m)) = map (map_of m) ids"
    and "snd (remove_all ids m) = filter (\<lambda>p. fst p \<notin> set ids) m"
proof -
  have "map Some (fst (remove_all ids m)) = map (map_of m) ids \<and> snd (remove_all ids m) = filter (\<lambda>p. fst p \<notin> set ids) m"
    using assms
  proof (induction ids arbitrary: m)
    case (Cons i ids)
    obtain rs m' where r: "remove_all ids (AList.delete i m) = (rs, m')" by fastforce
    have "set ids \<subseteq> fst ` set (AList.delete i m)" using Cons.prems by (fastforce simp: set_delete image_iff)
    then have ih: "map Some rs = map (map_of (AList.delete i m)) ids" "m' = filter (\<lambda>p. fst p \<notin> set ids) (AList.delete i m)"
      using Cons.IH [of "AList.delete i m"] Cons.prems r by auto
    obtain x where x: "map_of m i = Some x" using Cons.prems(3) by (metis insert_subset list.simps(15) map_of_eq_None_iff option.exhaust)
    have "map (map_of (AList.delete i m)) ids = map (map_of m) ids" using Cons.prems(2) by auto
    then show ?case using ih r x by (auto simp: AList.delete_eq intro: filter_cong)
  qed simp
  then show "map Some (fst (remove_all ids m)) = map (map_of m) ids"
    and "snd (remove_all ids m) = filter (\<lambda>p. fst p \<notin> set ids) m" by auto
qed

interpretation by_count: ranking "\<lambda>a b :: vector_id \<times> u64. snd a \<le> snd b" "\<lambda>_. True"
  by unfold_locales auto

lemma drain_order_props:
  assumes "wf_map (vectors s)"
  shows "distinct (map fst (drain_order s))" "set (drain_order s) = (\<lambda>(i, r). (i, vr_access_count r)) ` set (vectors s)"
    "sorted_wrt (\<lambda>a b. snd a \<le> snd b) (drain_order s)" "length (drain_order s) = hot_len s"
proof -
  let ?l = "map (\<lambda>(i, r). (i, vr_access_count r)) (vectors s)"
  have "mset (map fst (drain_order s)) = mset (map fst ?l)" by (simp only: drain_order_def mset_map mset_sort_by)
  moreover have "map fst ?l = map fst (vectors s)" by (simp add: case_prod_beta comp_def)
  ultimately show "distinct (map fst (drain_order s))"
    using assms by (metis mset_eq_imp_distinct_iff wf_map_def)
  show "sorted_wrt (\<lambda>a b. snd a \<le> snd b) (drain_order s)"
    unfolding drain_order_def by (rule by_count.sorted_sort_by) simp
qed (simp_all add: drain_order_def hot_len_def)

text \<open>The records drained are the records of the first ids in the drain order.\<close>

lemma drain_props:
  assumes "hot_inv s" "drain_least_accessed n s = (rs, s')"
  shows "map (\<lambda>r. (vr_id r, vr_access_count r)) rs = take n (drain_order s)"
    and "\<forall>r\<in>set rs. hot_get s (vr_id r) = Some r"
    and "vectors s' = filter (\<lambda>p. fst p \<notin> vr_id ` set rs) (vectors s)" and "hot_max_records s' = hot_max_records s"
proof -
  let ?o = "take n (drain_order s)" and ?m = "vectors s"
  have wf: "wf_map ?m" using assms(1) by (simp add: hot_inv_def)
  note o = drain_order_props [OF wf]
  have d: "distinct (map fst ?o)" using o(1) by (simp add: distinct_map_take)
  have sub: "set (map fst ?o) \<subseteq> fst ` set ?m" using o(2) by (force dest: in_set_takeD)
  show max: "hot_max_records s' = hot_max_records s"
    using assms(2) by (auto simp: drain_least_accessed_def split: if_splits prod.splits)
  have e: "rs = fst (remove_all (map fst ?o) ?m)" "vectors s' = snd (remove_all (map fst ?o) ?m)"
    using assms(2) by (auto simp: drain_least_accessed_def drain_order_def split: if_splits prod.splits)
  have Some: "map Some rs = map (map_of ?m) (map fst ?o)" unfolding e using remove_all_props(1) [OF wf d sub] .
  have len: "length rs = length ?o" using arg_cong [OF Some, of length] by simp
  have nth: "map_of ?m (fst (?o ! k)) = Some (rs ! k)" if "k < length rs" for k
    using arg_cong [OF Some, of "\<lambda>l. l ! k"] that len by simp
  have id: "vr_id r = i" if "map_of ?m i = Some r" for i r
    using assms(1) hot_get_id that by (simp add: hot_get_def)
  have cnt: "?o ! k = (vr_id (rs ! k), vr_access_count (rs ! k))" if k: "k < length rs" for k
  proof -
    have "?o ! k \<in> set (drain_order s)" using k len by (metis in_set_takeD nth_mem)
    then obtain i r where "?o ! k = (i, vr_access_count r)" "(i, r) \<in> set ?m" using o(2) by auto
    moreover from this have "map_of ?m i = Some r" using wf wf_map_lookup by metis
    ultimately show ?thesis using nth [OF k] id by simp
  qed
  show pairs: "map (\<lambda>r. (vr_id r, vr_access_count r)) rs = ?o"
    using len cnt by (intro nth_equalityI) simp_all
  show "\<forall>r\<in>set rs. hot_get s (vr_id r) = Some r"
    using nth cnt by (metis fst_conv hot_get_def in_set_conv_nth)
  have "set (map fst ?o) = vr_id ` set rs" using pairs by (metis (no_types, lifting) fst_conv image_cong image_image list.set_map)
  then show "vectors s' = filter (\<lambda>p. fst p \<notin> vr_id ` set rs) ?m"
    unfolding e using remove_all_props(2) [OF wf d sub] by simp
qed


lemma hot_get_drained:
  assumes "hot_inv s" "drain_least_accessed n s = (rs, s')"
  shows "hot_get s' i = (if i \<in> vr_id ` set rs then None else hot_get s i)"
  unfolding hot_get_def drain_props(3) [OF assms] by (simp add: map_of_filter_keys [of "\<lambda>k. k \<notin> vr_id ` set rs"])

lemma drain_inv [inv_intros]:
  assumes "hot_inv s" "drain_least_accessed n s = (rs, s')"
  shows "hot_inv s'"
  using assms(1) drain_props(3,4) [OF assms] order_trans [OF length_filter_le [of "\<lambda>p. fst p \<notin> vr_id ` set rs" "vectors s"]]
  by (auto simp: hot_inv_def hot_len_def wf_map_filter)

lemma drain_length:
  assumes "hot_inv s" "drain_least_accessed n s = (rs, s')"
  shows "length rs = min n (hot_len s)" "hot_len s' = hot_len s - n"
proof -
  have wf: "wf_map (vectors s)" using assms(1) by (simp add: hot_inv_def)
  note d = drain_props [OF assms] and o = drain_order_props [OF wf]
  show l: "length rs = min n (hot_len s)" using arg_cong [OF d(1), of length] o(4) by simp
  have ids: "distinct (map vr_id rs)"
    using arg_cong [OF d(1), of "map fst"] o(1) by (simp add: comp_def distinct_map_take)
  have "length (filter (\<lambda>p. fst p \<in> vr_id ` set rs) (vectors s)) = card (fst ` set (filter (\<lambda>p. fst p \<in> vr_id ` set rs) (vectors s)))"
    by (rule wf_map_card [OF wf_map_filter [OF wf]])
  also have "fst ` set (filter (\<lambda>p. fst p \<in> vr_id ` set rs) (vectors s)) = vr_id ` set rs"
  proof (intro equalityI subsetI)
    fix i assume "i \<in> vr_id ` set rs"
    then obtain r where "r \<in> set rs" "i = vr_id r" by auto
    then have "(i, r) \<in> set (vectors s)" using d(2) by (auto simp: hot_get_def dest: map_of_SomeD)
    then show "i \<in> fst ` set (filter (\<lambda>p. fst p \<in> vr_id ` set rs) (vectors s))" using \<open>i \<in> vr_id ` set rs\<close> by force
  qed auto
  also have "card (vr_id ` set rs) = length rs" using distinct_card [OF ids] by simp
  finally show "hot_len s' = hot_len s - n"
    using sum_length_filter_compl [of "\<lambda>p. fst p \<in> vr_id ` set rs" "vectors s"] l by (simp add: hot_len_def d(3))
qed

section \<open>Properties\<close>

text \<open>
  Inserting into the hot tier. A store at its capacity answers \<open>StoreFull\<close>, whatever the id; otherwise a
  known id answers \<open>AlreadyExists\<close>; otherwise the record is stored under its id, every other record is
  kept, the store has one more record, and the invariant (distinct ids, capacity) is preserved.
\<close>

lemma hot_insert_spec:
  assumes "hot_inv s"
  shows "if 0 < hot_max_records s \<and> hot_max_records s \<le> hot_len s then hot_insert r s = Inl (StoreFull (hot_full_msg (hot_max_records s)))
    else if hot_get s (vr_id r) \<noteq> None then hot_insert r s = Inl (AlreadyExists (hot_exists_msg (vr_id r)))
    else \<exists>s'. hot_insert r s = Inr s' \<and> hot_inv s' \<and> hot_len s' = hot_len s + 1 \<and>
      (\<forall>i. hot_get s' i = (if i = vr_id r then Some r else hot_get s i))"
proof (cases "hot_insert r s")
  case (Inl e)
  then show ?thesis by (auto simp: hot_insert_def max_records_def hot_get_def Let_def split: option.splits if_splits)
next
  case (Inr s')
  then show ?thesis
    using hot_get_insert [OF Inr] hot_insert_inv [OF assms Inr] by (auto simp: hot_insert_Inr hot_len_def length_update_new)
qed

text \<open>
  C11. Draining the hot tier: it returns as many records as asked for (or all of them), in ascending order of
  access count; no record that stays has a smaller access count than a drained one; the drained
  records leave the store and all others stay.
\<close>

theorem drain_least_accessed_spec:
  assumes "hot_inv s" and "drain_least_accessed n s = (rs, s')"
  shows "length rs = min n (hot_len s) \<and> hot_inv s' \<and> hot_len s' = hot_len s - n \<and>
    sorted (map vr_access_count rs) \<and>
    (\<forall>r\<in>set rs. hot_get s (vr_id r) = Some r \<and>
       (\<forall>i r'. hot_get s' i = Some r' \<longrightarrow> vr_access_count r \<le> vr_access_count r')) \<and>
    (\<forall>i. hot_get s' i = (if i \<in> vr_id ` set rs then None else hot_get s i))"
proof (intro conjI ballI allI impI)
  have wf: "wf_map (vectors s)" using assms(1) by (simp add: hot_inv_def)
  note d = drain_props [OF assms] and o = drain_order_props [OF wf]
  show "length rs = min n (hot_len s)" "hot_len s' = hot_len s - n" by (rule drain_length [OF assms])+
  show "hot_inv s'" by (rule drain_inv [OF assms])
  have "map vr_access_count rs = map snd (take n (drain_order s))" using arg_cong [OF d(1), of "map snd"] by (simp add: comp_def)
  moreover have "sorted_wrt (\<lambda>a b. snd a \<le> snd b) (take n (drain_order s))" using o(3) by (rule sorted_wrt_take)
  ultimately show "sorted (map vr_access_count rs)" by (simp add: sorted_wrt_map)
  fix i
  show "hot_get s' i = (if i \<in> vr_id ` set rs then None else hot_get s i)" by (rule hot_get_drained [OF assms])
next
  note d = drain_props [OF assms]
  fix r assume r: "r \<in> set rs"
  then show "hot_get s (vr_id r) = Some r" using d(2) by simp
  fix i r' assume g: "hot_get s' i = Some r'"
  then have i: "i \<notin> vr_id ` set rs" "hot_get s i = Some r'" using hot_get_drained [OF assms] by (auto split: if_splits)
  have wf: "wf_map (vectors s)" using assms(1) by (simp add: hot_inv_def)
  note o = drain_order_props [OF wf]
  have "(i, vr_access_count r') \<in> set (drain_order s)"
    using i(2) o(2) by (force simp: hot_get_def dest: map_of_SomeD)
  moreover have "(i, vr_access_count r') \<notin> set (take n (drain_order s))" using i(1) unfolding d(1) [symmetric] by auto
  ultimately have "(i, vr_access_count r') \<in> set (drop n (drain_order s))" by (metis Un_iff append_take_drop_id set_append)
  moreover have "(vr_id r, vr_access_count r) \<in> set (take n (drain_order s))" using r unfolding d(1) [symmetric] by auto
  ultimately have "snd (vr_id r, vr_access_count r) \<le> snd (i, vr_access_count r')"
    unfolding drain_order_def by (intro by_count.take_best) simp_all
  then show "vr_access_count r \<le> vr_access_count r'" by simp
qed

theorem drain_least_accessed_spec_witness:
  "drain_least_accessed 1 \<lparr>vectors = [(1, \<lparr>vr_id = 1, vr_vector = [], vr_metadata = JNull, vr_created_at = 0, vr_access_count = 9\<rparr>),
      (2, \<lparr>vr_id = 2, vr_vector = [], vr_metadata = JNull, vr_created_at = 0, vr_access_count = 3\<rparr>)], hot_max_records = 0\<rparr> =
    ([\<lparr>vr_id = 2, vr_vector = [], vr_metadata = JNull, vr_created_at = 0, vr_access_count = 3\<rparr>],
     \<lparr>vectors = [(1, \<lparr>vr_id = 1, vr_vector = [], vr_metadata = JNull, vr_created_at = 0, vr_access_count = 9\<rparr>)], hot_max_records = 0\<rparr>)
   \<and> hot_len \<lparr>vectors = [(1, \<lparr>vr_id = 1, vr_vector = [], vr_metadata = JNull, vr_created_at = 0, vr_access_count = 9\<rparr>)], hot_max_records = 0\<rparr> = 1"
proof -
  let ?a = "\<lparr>vr_id = 1, vr_vector = [], vr_metadata = JNull, vr_created_at = 0, vr_access_count = 9\<rparr>"
    and ?b = "\<lparr>vr_id = 2, vr_vector = [], vr_metadata = JNull, vr_created_at = 0, vr_access_count = 3\<rparr>"
  let ?s = "\<lparr>vectors = [(1, ?a), (2, ?b)], hot_max_records = 0\<rparr>"
  have e: "drain_least_accessed 1 ?s = ([?b], \<lparr>vectors = [(1, ?a)], hot_max_records = 0\<rparr>)"
    by (simp add: drain_least_accessed_def drain_order_def)
  have "hot_inv ?s" by (simp add: hot_inv_def wf_map_def)
  from drain_least_accessed_spec [OF this e] e show ?thesis by (simp add: hot_len_def)
qed

end
