(* ===== verification/Cold_Store.thy ===== *)
theory Cold_Store
  imports Hot_Store Wal "HOL-Library.Countable"
begin

text \<open>
  The on-disk tier, \<open>tesseract-storage/src/cold_store.rs\<close>: batches of records as compressed files in one
  directory per partition, with the partition metadata in memory, in a file per partition and a
  manifest of the partitions. JSON (\<open>serde_json\<close>) and ZSTD are parameters; \<open>codec_ok K S\<close> states that
  they decode what they encode, for the batches in \<open>S\<close> (JSON has no NaN and no infinities, so \<open>S\<close>
  is not every batch).
\<close>

section \<open>Paths and files\<close>

type_synonym partition_id = u64
type_synonym path = "string list"

record disk =
  dk_files :: "(path \<times> u8 list) list"
  dk_dirs :: "path list"

definition pad6 :: "nat \<Rightarrow> string" where
  "pad6 n = (let s = show_nat n in replicate (6 - length s) (CHR ''0'') @ s)"

definition part_dir :: "partition_id \<Rightarrow> path" where
  "part_dir p = [''partition_'' @ show_nat (unat p)]"

definition batch_path :: "partition_id \<Rightarrow> nat \<Rightarrow> path" where
  "batch_path p n = part_dir p @ [''batch_'' @ pad6 n @ ''.zstd'']"

definition meta_path :: "partition_id \<Rightarrow> path" where
  "meta_path p = part_dir p @ [''meta.json'']"

definition manifest_path :: path where
  "manifest_path = [''manifest.json'']"

definition create_dir_all :: "path \<Rightarrow> disk \<Rightarrow> disk" where
  "create_dir_all p d = d\<lparr>dk_dirs := List.insert p (dk_dirs d)\<rparr>"

definition write_file :: "path \<Rightarrow> u8 list \<Rightarrow> disk \<Rightarrow> disk" where
  "write_file p bs d = d\<lparr>dk_files := AList.update p bs (dk_files d)\<rparr>"

section \<open>The store\<close>

record cold_store_config =
  zstd_level :: int
  max_rows_per_file :: nat

definition default_cold_config :: cold_store_config where
  "default_cold_config = \<lparr>zstd_level = 3, max_rows_per_file = 10000\<rparr>"

record partition_meta =
  record_count :: nat
  batch_count :: nat
  size_bytes :: nat

definition partition_meta_new :: partition_meta where
  "partition_meta_new = \<lparr>record_count = 0, batch_count = 0, size_bytes = 0\<rparr>"

record cold_store =
  cs_config :: cold_store_config
  cs_writers :: "(partition_id \<times> partition_meta) list"

record codec =
  records_to_json :: "vector_record list \<Rightarrow> u8 list result"
  records_from_json :: "u8 list \<Rightarrow> vector_record list result"
  meta_to_json :: "partition_meta \<Rightarrow> u8 list result"
  meta_from_json :: "u8 list \<Rightarrow> partition_meta result"
  manifest_to_json :: "partition_id list \<Rightarrow> u8 list result"
  manifest_from_json :: "u8 list \<Rightarrow> partition_id list result"
  zstd_encode :: "int \<Rightarrow> u8 list \<Rightarrow> u8 list result"
  zstd_decode :: "u8 list \<Rightarrow> u8 list result"

text \<open>\<open>write_batch\<close>. An error after the batch file was written leaves the file and the new metadata behind.\<close>

definition write_batch :: "codec \<Rightarrow> partition_id \<Rightarrow> vector_record list \<Rightarrow> cold_store \<Rightarrow> disk \<Rightarrow>
    unit result \<times> cold_store \<times> disk" where
  "write_batch K p rs c d =
     (if rs = [] then (Inr (), c, d)
      else case rbind (records_to_json K rs) (zstd_encode K (zstd_level (cs_config c))) of
        Inl e \<Rightarrow> (Inl e, c, d)
      | Inr compressed \<Rightarrow>
          (let d1 = create_dir_all (part_dir p) d;
               batch_num = (case map_of (cs_writers c) p of Some m \<Rightarrow> batch_count m + 1 | None \<Rightarrow> 1);
               d2 = write_file (batch_path p batch_num) compressed d1;
               m0 = (case map_of (cs_writers c) p of Some m \<Rightarrow> m | None \<Rightarrow> partition_meta_new);
               m = \<lparr>record_count = record_count m0 + length rs, batch_count = batch_num,
                    size_bytes = size_bytes m0 + length compressed\<rparr>;
               c' = c\<lparr>cs_writers := AList.update p m (cs_writers c)\<rparr>
           in case meta_to_json K m of
                Inl e \<Rightarrow> (Inl e, c', d2)
              | Inr meta_json \<Rightarrow> (case manifest_to_json K (map fst (cs_writers c')) of
                    Inl e \<Rightarrow> (Inl e, c', d2)
                  | Inr manifest_json \<Rightarrow>
                      (Inr (), c', write_file manifest_path manifest_json (write_file (meta_path p) meta_json d2)))))"

section \<open>Names are injective\<close>

lemma show_nat_inject [simp]: "show_nat a = show_nat b \<longleftrightarrow> a = b"
  by (metis digits_val_show_nat)

lemma pad6_inject [simp]: "pad6 a = pad6 b \<longleftrightarrow> a = b"
proof -
  have "digits_val (pad6 n) = n" for n by (simp add: pad6_def Let_def digits_val_pad digits_val_show_nat)
  then show ?thesis by metis
qed

lemma part_dir_inject [simp]: "part_dir p = part_dir q \<longleftrightarrow> p = q"
  by (simp add: part_dir_def word_unat_eq_iff)

lemma path_inject [simp]:
  "batch_path p n = batch_path q m \<longleftrightarrow> p = q \<and> n = m" "meta_path p = meta_path q \<longleftrightarrow> p = q"
  "batch_path p n \<noteq> meta_path q" "meta_path q \<noteq> batch_path p n" "batch_path p n \<noteq> manifest_path" "manifest_path \<noteq> batch_path p n"
  "meta_path p \<noteq> manifest_path" "manifest_path \<noteq> meta_path p"
  by (auto simp: batch_path_def meta_path_def manifest_path_def part_dir_def word_unat_eq_iff)

text \<open>
  The loop of \<open>read_partition\<close> over the batch files from number \<open>n\<close>. It ends because there are finitely
  many files (the source counts in \<open>u32\<close>, so this needs fewer than 2 to the 32 batches).
\<close>

function read_batches :: "codec \<Rightarrow> partition_id \<Rightarrow> disk \<Rightarrow> nat \<Rightarrow> vector_record list result" where
  "read_batches K p d n = (case map_of (dk_files d) (batch_path p n) of
       None \<Rightarrow> Inr []
     | Some compressed \<Rightarrow>
         rbind (zstd_decode K compressed) (\<lambda>js. rbind (records_from_json K js) (\<lambda>batch.
           rbind (read_batches K p d (n + 1)) (\<lambda>rest. Inr (batch @ rest)))))"
  by pat_completeness auto
termination
proof (relation "measure (\<lambda>(K, p, d, n). card {m. n \<le> m \<and> map_of (dk_files d) (batch_path p m) \<noteq> None})", goal_cases)
  case (2 K p d n compressed)
  let ?S = "\<lambda>n. {m. n \<le> m \<and> map_of (dk_files d) (batch_path p m) \<noteq> None}"
  have "?S n \<subseteq> batch_path p -` (fst ` set (dk_files d))" by (auto simp: map_of_eq_None_iff)
  moreover have "finite (batch_path p -` (fst ` set (dk_files d)))" by (rule finite_vimageI) (auto intro: injI)
  ultimately have fin: "finite (?S n)" by (rule finite_subset)
  have "n \<in> ?S n" "n \<notin> ?S (n + 1)" "?S (n + 1) \<subseteq> ?S n" using 2 by auto
  then have "?S (n + 1) \<subset> ?S n" by blast
  from psubset_card_mono [OF fin this] show ?case by simp
qed simp

declare read_batches.simps [simp del]

definition read_partition :: "codec \<Rightarrow> partition_id \<Rightarrow> disk \<Rightarrow> vector_record list result" where
  "read_partition K p d = (if part_dir p \<in> set (dk_dirs d) then read_batches K p d 1 else Inr [])"

definition partition_metadata :: "cold_store \<Rightarrow> partition_id \<Rightarrow> partition_meta option" where
  "partition_metadata c p = map_of (cs_writers c) p"

definition partitions :: "cold_store \<Rightarrow> partition_id list" where
  "partitions c = map fst (cs_writers c)"

definition load_meta :: "codec \<Rightarrow> disk \<Rightarrow> partition_id \<Rightarrow> (partition_id \<times> partition_meta) list \<Rightarrow>
    (partition_id \<times> partition_meta) list" where
  "load_meta K d p ws = (case map_of (dk_files d) (meta_path p) of None \<Rightarrow> ws
     | Some js \<Rightarrow> (case meta_from_json K js of Inr m \<Rightarrow> AList.update p m ws | Inl _ \<Rightarrow> ws))"

definition load_manifest :: "codec \<Rightarrow> disk \<Rightarrow> (partition_id \<times> partition_meta) list result" where
  "load_manifest K d = (case map_of (dk_files d) manifest_path of None \<Rightarrow> Inr []
     | Some js \<Rightarrow> rbind (manifest_from_json K js) (\<lambda>ps. Inr (fold (load_meta K d) ps [])))"

definition cold_open :: "codec \<Rightarrow> cold_store_config \<Rightarrow> disk \<Rightarrow> cold_store result" where
  "cold_open K cfg d = rbind (load_manifest K d) (\<lambda>ws. Inr \<lparr>cs_config = cfg, cs_writers = ws\<rparr>)"

section \<open>The abstract store\<close>

text \<open>The hypothesis on the encoders.\<close>

definition codec_ok :: "codec \<Rightarrow> vector_record list set \<Rightarrow> bool" where
  "codec_ok K S \<longleftrightarrow>
     (\<forall>rs\<in>S. \<exists>js. records_to_json K rs = Inr js \<and> records_from_json K js = Inr rs) \<and>
     (\<forall>m. \<exists>js. meta_to_json K m = Inr js \<and> meta_from_json K js = Inr m) \<and>
     (\<forall>ps. \<exists>js. manifest_to_json K ps = Inr js \<and> manifest_from_json K js = Inr ps) \<and>
     (\<forall>l bs. \<exists>cs. zstd_encode K l bs = Inr cs \<and> zstd_decode K cs = Inr bs)"

text \<open>
  A store and its disk represent, for each partition, the list of its batches.
\<close>

definition batch_at :: "codec \<Rightarrow> disk \<Rightarrow> partition_id \<Rightarrow> nat \<Rightarrow> vector_record list option \<Rightarrow> bool" where
  "batch_at K d p n b \<longleftrightarrow> (case map_of (dk_files d) (batch_path p n) of None \<Rightarrow> b = None
     | Some cs \<Rightarrow> \<exists>js rs. b = Some rs \<and> zstd_decode K cs = Inr js \<and> records_from_json K js = Inr rs)"

definition cold_rel :: "codec \<Rightarrow> cold_store \<Rightarrow> disk \<Rightarrow> (partition_id \<Rightarrow> vector_record list list) \<Rightarrow> bool" where
  "cold_rel K c d bs \<longleftrightarrow> wf_map (cs_writers c) \<and>
     (\<forall>p. case map_of (cs_writers c) p of None \<Rightarrow> bs p = []
        | Some m \<Rightarrow> bs p \<noteq> [] \<and> batch_count m = length (bs p) \<and> record_count m = length (concat (bs p)) \<and>
            (\<exists>js. map_of (dk_files d) (meta_path p) = Some js \<and> meta_from_json K js = Inr m)) \<and>
     (\<forall>p i. batch_at K d p (Suc i) (if i < length (bs p) then Some (bs p ! i) else None)) \<and>
     (\<forall>p. part_dir p \<in> set (dk_dirs d) \<longleftrightarrow> bs p \<noteq> []) \<and>
     (case map_of (dk_files d) manifest_path of None \<Rightarrow> cs_writers c = []
      | Some js \<Rightarrow> manifest_from_json K js = Inr (map fst (cs_writers c)))"

lemma cold_rel_empty: "cold_rel K \<lparr>cs_config = cfg, cs_writers = []\<rparr> \<lparr>dk_files = [], dk_dirs = []\<rparr> (\<lambda>_. [])"
  by (simp add: cold_rel_def batch_at_def)

lemma read_batches_drop:
  assumes "\<forall>i. batch_at K d p (Suc i) (if i < length bs then Some (bs ! i) else None)"
  shows "i \<le> length bs \<Longrightarrow> read_batches K p d (Suc i) = Inr (concat (drop i bs))"
proof (induction "length bs - i" arbitrary: i)
  case 0
  then have "batch_at K d p (Suc i) None" using spec [OF assms, of i] by simp
  then show ?case using 0 by (subst read_batches.simps) (simp add: batch_at_def split: option.splits)
next
  case (Suc n)
  then have i: "i < length bs" by simp
  then have b: "batch_at K d p (Suc i) (Some (bs ! i))" using spec [OF assms, of i] by simp
  have "read_batches K p d (Suc (Suc i)) = Inr (concat (drop (Suc i) bs))" using Suc i by (intro Suc.hyps(1)) auto
  then show ?case using b i
    by (subst read_batches.simps) (auto simp: batch_at_def Cons_nth_drop_Suc [symmetric] split: option.splits)
qed

lemma cold_rel_read: "cold_rel K c d bs \<Longrightarrow> read_partition K p d = Inr (concat (bs p))"
  using read_batches_drop [of K d p "bs p" 0] by (auto simp: cold_rel_def read_partition_def)

lemma fold_load_meta:
  assumes "\<forall>p\<in>set ps. \<exists>js. map_of (dk_files d) (meta_path p) = Some js \<and> meta_from_json K js = Inr (f p)"
    and "distinct ps" and "set ps \<inter> fst ` set ws = {}"
  shows "fold (load_meta K d) ps ws = ws @ map (\<lambda>p. (p, f p)) ps"
  using assms
proof (induction ps arbitrary: ws)
  case (Cons p ps)
  have new: "p \<notin> fst ` set ws \<Longrightarrow> AList.update p m ws = ws @ [(p, m)]" for m ws by (induction ws) auto
  have "load_meta K d p ws = ws @ [(p, f p)]" using Cons.prems new by (auto simp: load_meta_def)
  then show ?case using Cons.IH [of "ws @ [(p, f p)]"] Cons.prems by auto
qed simp

lemma cold_rel_open:
  assumes "cold_rel K c d bs"
  shows "load_manifest K d = Inr (cs_writers c)"
proof (cases "map_of (dk_files d) manifest_path")
  case None
  then show ?thesis using assms by (simp add: cold_rel_def load_manifest_def)
next
  case (Some js)
  let ?ws = "cs_writers c" and ?f = "\<lambda>p. the (map_of (cs_writers c) p)"
  have wf: "wf_map ?ws" using assms by (simp add: cold_rel_def)
  have "\<exists>js. map_of (dk_files d) (meta_path p) = Some js \<and> meta_from_json K js = Inr (?f p)" if "p \<in> set (map fst ?ws)" for p
  proof -
    from that obtain m where "map_of ?ws p = Some m" by (metis image_set map_of_eq_None_iff option.exhaust)
    then show ?thesis using assms by (auto simp: cold_rel_def split: option.splits dest: spec [of _ p])
  qed
  then have "fold (load_meta K d) (map fst ?ws) [] = [] @ map (\<lambda>p. (p, ?f p)) (map fst ?ws)"
    using wf by (intro fold_load_meta) (auto simp: wf_map_def)
  also have "\<dots> = ?ws" using wf by (auto intro!: map_idI dest: wf_map_lookup [THEN iffD2])
  finally show ?thesis using assms Some by (simp add: cold_rel_def load_manifest_def)
qed


lemma batch_at_frame:
  "map_of (dk_files d') (batch_path p n) = map_of (dk_files d) (batch_path p n) \<Longrightarrow> batch_at K d' p n b = batch_at K d p n b"
  by (simp add: batch_at_def)

text \<open>One write appends its batch to the partition and changes no other partition.\<close>

lemma write_batch_rel:
  assumes "codec_ok K S" "cold_rel K c d bs" "rs \<noteq> []" "rs \<in> S"
  shows "\<exists>c' d'. write_batch K p rs c d = (Inr (), c', d') \<and> cold_rel K c' d' (bs(p := bs p @ [rs]))"
proof -
  obtain js cs where j: "records_to_json K rs = Inr js" "records_from_json K js = Inr rs"
      "zstd_encode K (zstd_level (cs_config c)) js = Inr cs" "zstd_decode K cs = Inr js"
    using assms(1,4) unfolding codec_ok_def by blast
  let ?ws = "cs_writers c" and ?n = "Suc (length (bs p))"
  have n: "(case map_of ?ws p of Some m \<Rightarrow> batch_count m + 1 | None \<Rightarrow> 1) = ?n"
    using assms(2) by (auto simp: cold_rel_def split: option.splits dest: spec [of _ p])
  define m0 where "m0 = (case map_of ?ws p of Some m \<Rightarrow> m | None \<Rightarrow> partition_meta_new)"
  have m0: "record_count m0 = length (concat (bs p))"
    using assms(2) by (auto simp: cold_rel_def m0_def partition_meta_new_def split: option.splits dest: spec [of _ p])
  define m where "m = \<lparr>record_count = record_count m0 + length rs, batch_count = ?n, size_bytes = size_bytes m0 + length cs\<rparr>"
  define ws where "ws = AList.update p m ?ws"
  obtain mj where mj: "meta_to_json K m = Inr mj" "meta_from_json K mj = Inr m" using assms(1) unfolding codec_ok_def by blast
  obtain nj where nj: "manifest_to_json K (map fst ws) = Inr nj" "manifest_from_json K nj = Inr (map fst ws)"
    using assms(1) unfolding codec_ok_def by blast
  define d' where "d' = write_file manifest_path nj (write_file (meta_path p) mj
      (write_file (batch_path p ?n) cs (create_dir_all (part_dir p) d)))"
  have w: "write_batch K p rs c d = (Inr (), c\<lparr>cs_writers := ws\<rparr>, d')"
    using assms(3) j(1,3) mj(1) nj(1) unfolding write_batch_def Let_def n m0_def [symmetric] m_def [symmetric] ws_def [symmetric]
    by (simp add: d'_def flip: m_def ws_def)
  have f: "map_of (dk_files d') = (map_of (dk_files d))(batch_path p ?n \<mapsto> cs, meta_path p \<mapsto> mj, manifest_path \<mapsto> nj)"
    by (simp add: d'_def write_file_def create_dir_all_def)
  let ?bs = "bs(p := bs p @ [rs])"
  have "batch_at K d' q (Suc i) (if i < length (?bs q) then Some (?bs q ! i) else None)" for q i
  proof (cases "q = p \<and> i = length (bs p)")
    case True
    then show ?thesis using j by (simp add: batch_at_def f)
  next
    case False
    have "batch_at K d q (Suc i) (if i < length (bs q) then Some (bs q ! i) else None)" using assms(2) by (simp add: cold_rel_def)
    moreover have "map_of (dk_files d') (batch_path q (Suc i)) = map_of (dk_files d) (batch_path q (Suc i))" using False by (auto simp: f)
    ultimately show ?thesis using False batch_at_frame [of d' q "Suc i" d K] by (auto simp: nth_append less_Suc_eq split: if_splits)
  qed
  moreover have "part_dir q \<in> set (dk_dirs d') \<longleftrightarrow> ?bs q \<noteq> []" for q
    using assms(2) by (auto simp: cold_rel_def d'_def write_file_def create_dir_all_def)
  moreover have "case map_of ws q of None \<Rightarrow> ?bs q = []
      | Some m \<Rightarrow> ?bs q \<noteq> [] \<and> batch_count m = length (?bs q) \<and> record_count m = length (concat (?bs q)) \<and>
        (\<exists>js. map_of (dk_files d') (meta_path q) = Some js \<and> meta_from_json K js = Inr m)" for q
    using assms(2) m0 mj(2) by (auto simp: cold_rel_def ws_def f m_def split: option.split dest: spec [of _ q])
  moreover have "wf_map ws" using assms(2) by (simp add: cold_rel_def ws_def)
  ultimately have "cold_rel K (c\<lparr>cs_writers := ws\<rparr>) d' ?bs" using nj(2) unfolding cold_rel_def by (simp add: f)
  then show ?thesis using w by blast
qed

section \<open>Properties\<close>

text \<open>
  C12. The cold tier is a map from partitions to lists of batches: writing a batch succeeds, reading the
  partition then returns the old records followed by the new ones, every other partition reads as before,
  the metadata counts batches and records, and a store opened on the resulting disk has
  the same metadata. The encoders decode what they encode.
\<close>

theorem cold_write_read:
  assumes "codec_ok K S" and "cold_rel K c d bs" and "rs \<noteq> []" and "rs \<in> S"
  shows "\<exists>c' d'. write_batch K p rs c d = (Inr (), c', d') \<and> cold_rel K c' d' (bs(p := bs p @ [rs])) \<and>
    read_partition K p d' = Inr (concat (bs p) @ rs) \<and>
    (\<forall>q. q \<noteq> p \<longrightarrow> read_partition K q d' = read_partition K q d) \<and>
    (\<exists>m. partition_metadata c' p = Some m \<and> batch_count m = length (bs p) + 1 \<and>
       record_count m = length (concat (bs p)) + length rs) \<and>
    cold_open K cfg d' = Inr (c'\<lparr>cs_config := cfg\<rparr>)"
proof -
  obtain c' d' where w: "write_batch K p rs c d = (Inr (), c', d')" and r: "cold_rel K c' d' (bs(p := bs p @ [rs]))"
    using write_batch_rel [OF assms] by blast
  have "cold_open K cfg d' = Inr (c'\<lparr>cs_config := cfg\<rparr>)"
    using cold_rel_open [OF r] by (cases c') (simp add: cold_open_def)
  moreover have "\<exists>m. partition_metadata c' p = Some m \<and> batch_count m = length (bs p) + 1 \<and>
      record_count m = length (concat (bs p)) + length rs"
    using r by (auto simp: cold_rel_def partition_metadata_def split: option.splits dest: spec [of _ p])
  ultimately show ?thesis using w r cold_rel_read [OF r] cold_rel_read [OF assms(2)] by auto
qed


text \<open>An instance of the encoders for the batches of one record: bytes that count up to the code of the value.\<close>

definition unary_codec :: "vector_record \<Rightarrow> codec" where
  "unary_codec r = \<lparr>
     records_to_json = (\<lambda>rs. Inr (replicate (length rs) 0)),
     records_from_json = (\<lambda>js. Inr (replicate (length js) r)),
     meta_to_json = (\<lambda>m. Inr (replicate (prod_encode (record_count m, prod_encode (batch_count m, size_bytes m))) 0)),
     meta_from_json = (\<lambda>js. let (a, b) = prod_decode (length js); (x, y) = prod_decode b
        in Inr \<lparr>record_count = a, batch_count = x, size_bytes = y\<rparr>),
     manifest_to_json = (\<lambda>ps. Inr (replicate (list_encode (map unat ps)) 0)),
     manifest_from_json = (\<lambda>js. Inr (map word_of_nat (list_decode (length js)))),
     zstd_encode = (\<lambda>_. Inr), zstd_decode = Inr\<rparr>"

lemma unary_codec_ok: "codec_ok (unary_codec r) {rs. set rs \<subseteq> {r}}"
  by (auto simp: codec_ok_def unary_codec_def map_idI intro!: replicate_length_same)

theorem cold_write_read_witness:
  "\<exists>c' d'. write_batch (unary_codec \<lparr>vr_id = 1, vr_vector = [Num 2], vr_metadata = JNull, vr_created_at = 0, vr_access_count = 0\<rparr>) 0
      [\<lparr>vr_id = 1, vr_vector = [Num 2], vr_metadata = JNull, vr_created_at = 0, vr_access_count = 0\<rparr>]
      \<lparr>cs_config = default_cold_config, cs_writers = []\<rparr> \<lparr>dk_files = [], dk_dirs = []\<rparr> = (Inr (), c', d') \<and>
    read_partition (unary_codec \<lparr>vr_id = 1, vr_vector = [Num 2], vr_metadata = JNull, vr_created_at = 0, vr_access_count = 0\<rparr>) 0 d' =
      Inr [\<lparr>vr_id = 1, vr_vector = [Num 2], vr_metadata = JNull, vr_created_at = 0, vr_access_count = 0\<rparr>]"
  using cold_write_read [OF unary_codec_ok cold_rel_empty, of
      "[\<lparr>vr_id = 1, vr_vector = [Num 2], vr_metadata = JNull, vr_created_at = 0, vr_access_count = 0\<rparr>]"
      "\<lparr>vr_id = 1, vr_vector = [Num 2], vr_metadata = JNull, vr_created_at = 0, vr_access_count = 0\<rparr>"
      0 default_cold_config default_cold_config]
  by auto

end
