(* ===== verification/Lifecycle.thy ===== *)
theory Lifecycle
  imports Cold_Store Topological
begin

text \<open>
  The centroid cache of cold partitions, \<open>tesseract-storage/src/skeleton.rs\<close>, and the tier lifecycle,
  \<open>tesseract-storage/src/lifecycle.rs\<close>. The background task is a sequence of ticks: each runs a promotion
  or a demotion cycle, and an error of a cycle is only logged.
\<close>

section \<open>Skeleton\<close>

record centroid =
  c_partition_id :: partition_id
  c_mean :: "f32 list"
  c_record_count :: nat

record skeleton =
  centroids :: "(partition_id \<times> centroid) list"
  wake_threshold :: f64

definition default_wake_threshold :: f64 where
  "default_wake_threshold = flit F64 (15 / 100)"

definition skeleton_new :: "f64 \<Rightarrow> skeleton" where
  "skeleton_new th = \<lparr>centroids = [], wake_threshold = th\<rparr>"

definition add_partition :: "partition_id \<Rightarrow> f64 list list \<Rightarrow> skeleton \<Rightarrow> skeleton result" where
  "add_partition p vs s =
     (if vs = [] then Inl (NotFound ''cannot compute centroid from empty vector set'')
      else let n = length (hd vs) in
        case List.find (\<lambda>v. length v \<noteq> n) vs of
          Some v \<Rightarrow> Inl (DimensionMismatch n (length v))
        | None \<Rightarrow>
            let total = foldl add_into (zeros n) vs;
                mean = map (\<lambda>x. fcast F32 (fdiv F64 x (fof_int F64 (int (length vs))))) total
            in Inr (s\<lparr>centroids := AList.update p
                 \<lparr>c_partition_id = p, c_mean = mean, c_record_count = length vs\<rparr> (centroids s)\<rparr>))"

definition skel_distance :: "f32 list \<Rightarrow> f32 list \<Rightarrow> f32" where
  "skel_distance a b = fsqrt F32 (fsum F32 (map (\<lambda>(x, y). let d = fsub F32 x y in fmul F32 d d) (zip a b)))"

definition find_nearby :: "f64 list \<Rightarrow> skeleton \<Rightarrow> partition_id list" where
  "find_nearby query s = (let q = map (fcast F32) query in
     map c_partition_id (filter (\<lambda>c. length (c_mean c) = length q \<and> flt (skel_distance q (c_mean c)) (wake_threshold s))
       (map snd (centroids s))))"

definition remove_partition :: "partition_id \<Rightarrow> skeleton \<Rightarrow> skeleton" where
  "remove_partition p s = s\<lparr>centroids := AList.delete p (centroids s)\<rparr>"

definition skeleton_len :: "skeleton \<Rightarrow> nat" where
  "skeleton_len s = length (centroids s)"

definition update_centroid :: "partition_id \<Rightarrow> f64 list list \<Rightarrow> skeleton \<Rightarrow> skeleton result" where
  "update_centroid p vs s =
     (if vs = [] then Inr s
      else case map_of (centroids s) p of
        None \<Rightarrow> Inl (NotFound (''partition '' @ show_nat (unat p) @ '' not found in skeleton''))
      | Some c \<Rightarrow>
          (let n = length (c_mean c); old_count = fof_int F64 (int (c_record_count c)) in
           case List.find (\<lambda>v. length v \<noteq> n) vs of
             Some v \<Rightarrow> Inl (DimensionMismatch n (length v))
           | None \<Rightarrow>
               let new_sum = foldl add_into (zeros n) vs;
                   new_count = c_record_count c + length vs;
                   mean = map (\<lambda>(m, t). fcast F32 (fdiv F64 (fadd F64 (fmul F64 m old_count) t) (fof_int F64 (int new_count))))
                     (zip (c_mean c) new_sum)
               in Inr (s\<lparr>centroids := AList.update p (c\<lparr>c_mean := mean, c_record_count := new_count\<rparr>) (centroids s)\<rparr>)))"

section \<open>Cycles\<close>

record lifecycle_config =
  promote_interval_secs :: nat
  demote_interval_secs :: nat
  lc_hot_max_records :: nat
  cold_min_access :: nat

definition default_lifecycle_config :: lifecycle_config where
  "default_lifecycle_config =
     \<lparr>promote_interval_secs = 60, demote_interval_secs = 300, lc_hot_max_records = 100000, cold_min_access = 5\<rparr>"

record tiers =
  t_hot :: hot_store
  t_cold :: cold_store
  t_disk :: disk
  t_skeleton :: skeleton

text \<open>The loop of \<open>run_promotion\<close> over the partitions; a read error ends it with what it has done so far.\<close>

fun promote_partitions :: "codec \<Rightarrow> partition_id list \<Rightarrow> tiers \<Rightarrow> unit result \<times> tiers" where
  "promote_partitions K [] t = (Inr (), t)"
| "promote_partitions K (p # ps) t = (case partition_metadata (t_cold t) p of
       None \<Rightarrow> promote_partitions K ps t
     | Some _ \<Rightarrow> (case read_partition K p (t_disk t) of
           Inl e \<Rightarrow> (Inl e, t)
         | Inr rs \<Rightarrow> promote_partitions K ps
             (if rs = [] then t
              else t\<lparr>t_hot := fold (or_keep hot_insert) rs (t_hot t),
                     t_skeleton := or_keep (add_partition p) (map vr_vector rs) (t_skeleton t)\<rparr>)))"

definition run_promotion :: "codec \<Rightarrow> tiers \<Rightarrow> unit result \<times> tiers" where
  "run_promotion K t = promote_partitions K (partitions (t_cold t)) t"

definition run_demotion :: "codec \<Rightarrow> lifecycle_config \<Rightarrow> tiers \<Rightarrow> unit result \<times> tiers" where
  "run_demotion K cfg t =
     (if hot_len (t_hot t) \<le> lc_hot_max_records cfg then (Inr (), t)
      else case drain_least_accessed (hot_len (t_hot t) - lc_hot_max_records cfg) (t_hot t) of
        (drained, hot') \<Rightarrow>
          (let t' = t\<lparr>t_hot := hot'\<rparr> in
           if drained = [] then (Inr (), t')
           else case write_batch K 0 drained (t_cold t') (t_disk t') of
             (r, c', d') \<Rightarrow> (r, t'\<lparr>t_cold := c', t_disk := d'\<rparr>)))"

datatype tick_event = PromoteTick | DemoteTick

definition tick :: "codec \<Rightarrow> lifecycle_config \<Rightarrow> tick_event \<Rightarrow> tiers \<Rightarrow> tiers" where
  "tick K cfg ev t = snd (case ev of PromoteTick \<Rightarrow> run_promotion K t | DemoteTick \<Rightarrow> run_demotion K cfg t)"

section \<open>Invariant of the tiers\<close>

text \<open>The records of all tiers come from a set \<open>R\<close> whose batches the encoders can hold.\<close>

definition tiers_inv :: "codec \<Rightarrow> vector_record set \<Rightarrow> tiers \<Rightarrow> (partition_id \<Rightarrow> vector_record list list) \<Rightarrow> bool" where
  "tiers_inv K R t bs \<longleftrightarrow> hot_inv (t_hot t) \<and> cold_rel K (t_cold t) (t_disk t) bs \<and>
     (\<forall>i r. hot_get (t_hot t) i = Some r \<longrightarrow> r \<in> R) \<and> (\<forall>p. set (concat (bs p)) \<subseteq> R)"

definition stored :: "tiers \<Rightarrow> (partition_id \<Rightarrow> vector_record list list) \<Rightarrow> vector_record \<Rightarrow> bool" where
  "stored t bs r \<longleftrightarrow> hot_get (t_hot t) (vr_id r) = Some r \<or> (\<exists>p. r \<in> set (concat (bs p)))"

lemma promote_inv:
  assumes "tiers_inv K R t bs" "promote_partitions K ps t = (res, t')"
  shows "tiers_inv K R t' bs \<and> (\<forall>r. stored t bs r \<longrightarrow> stored t' bs r) \<and> res = Inr () \<and>
    t_cold t' = t_cold t \<and> t_disk t' = t_disk t"
  using assms
proof (induction ps arbitrary: t)
  case (Cons p ps)
  have read: "read_partition K p (t_disk t) = Inr (concat (bs p))"
    using Cons.prems(1) by (auto simp: tiers_inv_def intro: cold_rel_read)
  show ?case
  proof (cases "partition_metadata (t_cold t) p")
    case None
    then show ?thesis using Cons by simp
  next
    case (Some m)
    let ?rs = "concat (bs p)"
    define t1 where "t1 = (if ?rs = [] then t
        else t\<lparr>t_hot := fold (or_keep hot_insert) ?rs (t_hot t),
               t_skeleton := or_keep (add_partition p) (map vr_vector ?rs) (t_skeleton t)\<rparr>)"
    have hot: "hot_inv (t_hot t)" using Cons.prems(1) by (simp add: tiers_inv_def)
    have t1: "tiers_inv K R t1 bs" "\<forall>r. stored t bs r \<longrightarrow> stored t1 bs r" "t_cold t1 = t_cold t" "t_disk t1 = t_disk t"
      using Cons.prems(1) hs.batch_inv [OF hot, of ?rs] hs.batch_keeps [OF hot] hs.batch_origin [OF hot, of ?rs]
      by (auto simp: t1_def tiers_inv_def stored_def) blast
    have "promote_partitions K ps t1 = (res, t')" using Cons.prems(2) Some read by (simp add: t1_def)
    from Cons.IH [OF t1(1) this] show ?thesis using t1 by auto
  qed
qed auto

text \<open>Moving drained records to a partition: no record is lost.\<close>

lemma evict_inv:
  assumes "codec_ok K {rs. set rs \<subseteq> R}" "tiers_inv K R t bs" "drain_least_accessed n (t_hot t) = (rs, hot')" "rs \<noteq> []"
  obtains c' d' where "write_batch K p rs (t_cold t) (t_disk t) = (Inr (), c', d')"
    "tiers_inv K R (t\<lparr>t_hot := hot', t_cold := c', t_disk := d'\<rparr>) (bs(p := bs p @ [rs]))"
    "\<forall>r. stored t bs r \<longrightarrow> stored (t\<lparr>t_hot := hot', t_cold := c', t_disk := d'\<rparr>) (bs(p := bs p @ [rs])) r"
proof -
  have hot: "hot_inv (t_hot t)" and rel: "cold_rel K (t_cold t) (t_disk t) bs" using assms(2) by (auto simp: tiers_inv_def)
  note get = hot_get_drained [OF hot assms(3)] and rs = drain_props(2) [OF hot assms(3)]
  have sub: "set rs \<subseteq> R" using rs assms(2) by (auto simp: tiers_inv_def)
  then obtain c' d' where w: "write_batch K p rs (t_cold t) (t_disk t) = (Inr (), c', d')"
      "cold_rel K c' d' (bs(p := bs p @ [rs]))"
    using write_batch_rel [OF assms(1) rel assms(4)] by blast
  let ?t = "t\<lparr>t_hot := hot', t_cold := c', t_disk := d'\<rparr>"
  have cold: "\<exists>q. r \<in> set (concat ((bs(p := bs p @ [rs])) q))" if "r \<in> set (concat (bs q))" for r q
    using that by (intro exI [of _ q]) auto
  have "stored ?t (bs(p := bs p @ [rs])) r" if st: "stored t bs r" for r
  proof (cases "hot_get (t_hot t) (vr_id r) = Some r")
    case True
    have "r \<in> set rs \<or> hot_get hot' (vr_id r) = Some r"
    proof (cases "vr_id r \<in> vr_id ` set rs")
      case in_rs: True
      then obtain x where x: "x \<in> set rs" "vr_id r = vr_id x" by auto
      from bspec [OF rs x(1)] True x(2) have "r = x" by simp
      with x(1) show ?thesis by simp
    next
      case False
      then show ?thesis using True get [of "vr_id r"] by simp
    qed
    then show ?thesis by (auto simp: stored_def intro!: exI [of _ p])
  next
    case False
    then obtain q where "r \<in> set (concat (bs q))" using st by (auto simp: stored_def)
    from cold [OF this] show ?thesis by (simp add: stored_def)
  qed
  moreover have "tiers_inv K R ?t (bs(p := bs p @ [rs]))"
    using assms(2) drain_inv [OF hot assms(3)] w(2) sub get by (auto simp: tiers_inv_def split: if_splits)
  ultimately show thesis using that w(1) by blast
qed

lemma demote_inv:
  assumes "codec_ok K {rs. set rs \<subseteq> R}" "tiers_inv K R t bs" "run_demotion K cfg t = (res, t')"
  shows "\<exists>bs'. tiers_inv K R t' bs' \<and> (\<forall>r. stored t bs r \<longrightarrow> stored t' bs' r) \<and> res = Inr () \<and>
    hot_len (t_hot t') \<le> lc_hot_max_records cfg"
proof (cases "hot_len (t_hot t) \<le> lc_hot_max_records cfg")
  case True
  then show ?thesis using assms(2,3) by (intro exI [of _ bs]) (auto simp: run_demotion_def)
next
  case False
  obtain rs hot' where d: "drain_least_accessed (hot_len (t_hot t) - lc_hot_max_records cfg) (t_hot t) = (rs, hot')"
    by fastforce
  have hot: "hot_inv (t_hot t)" using assms(2) by (simp add: tiers_inv_def)
  note len = drain_length [OF hot d]
  have ne: "rs \<noteq> []" using len(1) False by auto
  obtain c' d' where w: "write_batch K 0 rs (t_cold t) (t_disk t) = (Inr (), c', d')"
      "tiers_inv K R (t\<lparr>t_hot := hot', t_cold := c', t_disk := d'\<rparr>) (bs(0 := bs 0 @ [rs]))"
      "\<forall>r. stored t bs r \<longrightarrow> stored (t\<lparr>t_hot := hot', t_cold := c', t_disk := d'\<rparr>) (bs(0 := bs 0 @ [rs])) r"
    by (rule evict_inv [OF assms(1,2) d ne])
  have t': "res = Inr ()" "t' = t\<lparr>t_hot := hot', t_cold := c', t_disk := d'\<rparr>"
    using assms(3) False d ne w(1) by (auto simp: run_demotion_def)
  then show ?thesis using w(2,3) len(2) False by auto
qed

lemma tick_inv:
  assumes "codec_ok K {rs. set rs \<subseteq> R}" "tiers_inv K R t bs"
  shows "\<exists>bs'. tiers_inv K R (tick K cfg ev t) bs' \<and> (\<forall>r. stored t bs r \<longrightarrow> stored (tick K cfg ev t) bs' r)"
proof (cases ev)
  case PromoteTick
  obtain res t' where "run_promotion K t = (res, t')" by fastforce
  then show ?thesis using promote_inv [OF assms(2)] PromoteTick by (fastforce simp: tick_def run_promotion_def)
next
  case DemoteTick
  obtain res t' where "run_demotion K cfg t = (res, t')" by fastforce
  then show ?thesis using demote_inv [OF assms] DemoteTick by (fastforce simp: tick_def)
qed

section \<open>Properties\<close>

text \<open>
  C13. The lifecycle loses no record: whatever sequence of promotion and demotion ticks runs, every record
  that was in the hot or in the cold tier is in one of them afterwards, and the invariants of both
  tiers hold.
\<close>

theorem lifecycle_no_loss:
  assumes "codec_ok K {rs. set rs \<subseteq> R}" and "tiers_inv K R t bs"
  shows "\<exists>bs'. tiers_inv K R (fold (tick K cfg) evs t) bs' \<and> (\<forall>r. stored t bs r \<longrightarrow> stored (fold (tick K cfg) evs t) bs' r)"
  using assms(2)
proof (induction evs arbitrary: t bs)
  case Nil
  then show ?case by auto
next
  case (Cons ev evs)
  obtain bs1 where 1: "tiers_inv K R (tick K cfg ev t) bs1" "\<forall>r. stored t bs r \<longrightarrow> stored (tick K cfg ev t) bs1 r"
    using tick_inv [OF assms(1) Cons.prems] by blast
  from Cons.IH [OF 1(1)] 1(2) show ?case by auto
qed

text \<open>An instance: one record in the hot tier, with room for none, so that demotion moves it.\<close>

definition demo_record :: vector_record where
  "demo_record = \<lparr>vr_id = 1, vr_vector = [Num 2], vr_metadata = JNull, vr_created_at = 0, vr_access_count = 0\<rparr>"

definition demo_tiers :: tiers where
  "demo_tiers = \<lparr>t_hot = \<lparr>vectors = [(1, demo_record)], hot_max_records = 0\<rparr>,
     t_cold = \<lparr>cs_config = default_cold_config, cs_writers = []\<rparr>, t_disk = \<lparr>dk_files = [], dk_dirs = []\<rparr>,
     t_skeleton = skeleton_new default_wake_threshold\<rparr>"

lemma demo_tiers_inv: "tiers_inv (unary_codec demo_record) {demo_record} demo_tiers (\<lambda>_. [])"
  using cold_rel_empty
  by (auto simp: tiers_inv_def demo_tiers_def hot_inv_def wf_map_def hot_get_def demo_record_def split: if_splits)

theorem lifecycle_no_loss_witness:
  "\<exists>bs'. stored (fold (tick (unary_codec demo_record) (default_lifecycle_config\<lparr>lc_hot_max_records := 0\<rparr>))
     [DemoteTick, PromoteTick, DemoteTick] demo_tiers) bs' demo_record"
proof -
  have "stored demo_tiers (\<lambda>_. []) demo_record"
    by (simp add: stored_def demo_tiers_def hot_get_def demo_record_def)
  then show ?thesis
    using lifecycle_no_loss [OF unary_codec_ok demo_tiers_inv,
        of "default_lifecycle_config\<lparr>lc_hot_max_records := 0\<rparr>" "[DemoteTick, PromoteTick, DemoteTick]"] by blast
qed

text \<open>
  A demotion cycle succeeds and brings the hot tier down to the configured watermark.
\<close>

lemma demotion_watermark:
  assumes "codec_ok K {rs. set rs \<subseteq> R}" and "tiers_inv K R t bs"
  shows "fst (run_demotion K cfg t) = Inr () \<and>
    hot_len (t_hot (snd (run_demotion K cfg t))) = min (hot_len (t_hot t)) (lc_hot_max_records cfg)"
proof -
  obtain res t' where r: "run_demotion K cfg t = (res, t')" by fastforce
  have hot: "hot_inv (t_hot t)" using assms(2) by (simp add: tiers_inv_def)
  have "hot_len (t_hot t') = min (hot_len (t_hot t)) (lc_hot_max_records cfg)"
    using r drain_length(2) [OF hot] by (auto simp: run_demotion_def Let_def split: if_splits prod.splits)
  then show ?thesis using demote_inv [OF assms r] r by auto
qed

end
