(* ===== verification/Hnsw.thy ===== *)
theory Hnsw
  imports Core_Types Wal
begin

text \<open>
  The HNSW index, \<open>tesseract-index/src/hnsw.rs\<close>, with its configuration (\<open>types.rs\<close>), its f32 distances
  (\<open>distance.rs\<close>), its serialisation (\<open>serialization.rs\<close>) and the type-erased index
  (\<open>topological_index.rs\<close>).

  Every indexing of a vector of the source that may be out of range is checked and gives \<open>Panic\<close>, and so does
  \<open>partial_cmp(..).unwrap()\<close> on a NaN: the theorems show that this does not happen. The weighted
  and the unweighted routines differ in the distance only and are instances of one definition. A
  \<open>BinaryHeap\<close> is the list of its elements; \<open>pop\<close> takes the extreme one of the lexicographic order on
  (distance, index), which is unique when no distance is NaN. The random draw of the level and
  the functions \<open>ln\<close> and \<open>log2\<close> of the platform are parameters.
\<close>

section \<open>Configuration\<close>

datatype distance_metric = Cosine | Euclidean

record hnsw_config =
  cfg_m :: nat
  cfg_m_max0 :: nat
  ef_construction :: nat
  cfg_ml :: f64
  cfg_metric :: distance_metric

record libm =
  lm_ln :: "f64 \<Rightarrow> f64"
  lm_log2 :: "f64 \<Rightarrow> f64"

definition default_hnsw_config :: "libm \<Rightarrow> hnsw_config" where
  "default_hnsw_config L = \<lparr>cfg_m = 16, cfg_m_max0 = 32, ef_construction = 200,
     cfg_ml = fdiv F64 (Num 1) (lm_ln L (Num 16)), cfg_metric = Cosine\<rparr>"

section \<open>Distances\<close>

fun hdistance :: "distance_metric \<Rightarrow> f32 list \<Rightarrow> f32 list \<Rightarrow> f32" where
  "hdistance Cosine a b = fsub F32 (Num 1) (fsum F32 (map (\<lambda>(x, y). fmul F32 x y) (zip a b)))"
| "hdistance Euclidean a b = fsqrt F32 (fsum F32 (map (\<lambda>(x, y). let d = fsub F32 x y in fmul F32 d d) (zip a b)))"

fun hdistance_weighted :: "distance_metric \<Rightarrow> f32 list \<Rightarrow> f32 list \<Rightarrow> f32 list \<Rightarrow> f32" where
  "hdistance_weighted Cosine ws a b = fsub F32 (Num 1)
     (fsum F32 (map (\<lambda>((x, y), w). fmul F32 (fmul F32 (fmul F32 w w) x) y) (zip (zip a b) ws)))"
| "hdistance_weighted Euclidean ws a b = fsqrt F32
     (fsum F32 (map (\<lambda>((x, y), w). let d = fsub F32 x y in fmul F32 (fmul F32 w w) (fmul F32 d d)) (zip (zip a b) ws)))"

definition mask_to_dense :: "weight_mask \<Rightarrow> nat \<Rightarrow> f32 list" where
  "mask_to_dense wm n = fold (\<lambda>(idx, w) dense. if idx < n then dense[idx := w] else dense) wm (replicate n (Num 1))"

definition f64_slice_to_f32 :: "f64 list \<Rightarrow> f32 list" where
  "f64_slice_to_f32 v = map (fcast F32) v"

section \<open>Heaps\<close>

definition heap_lt :: "f32 \<times> nat \<Rightarrow> f32 \<times> nat \<Rightarrow> bool" where
  "heap_lt a b \<longleftrightarrow> flt (fst a) (fst b) \<or> \<not> flt (fst b) (fst a) \<and> snd a < snd b"

definition heap_min :: "(f32 \<times> nat) list \<Rightarrow> f32 \<times> nat" where
  "heap_min xs = fold (\<lambda>a m. if heap_lt a m then a else m) (tl xs) (hd xs)"

definition heap_max :: "(f32 \<times> nat) list \<Rightarrow> f32 \<times> nat" where
  "heap_max xs = fold (\<lambda>a m. if heap_lt m a then a else m) (tl xs) (hd xs)"

section \<open>The index\<close>

record hnsw_node =
  edges :: "nat list list"

record hnsw_index =
  hx_config :: hnsw_config
  hx_dim :: nat
  nodes :: "hnsw_node list"
  id_to_node :: "vector_id list"
  hx_vectors :: "f32 list list"
  entry_point :: "nat option"
  max_layer :: nat
  deleted :: "bool list"

definition hnsw_new :: "nat \<Rightarrow> hnsw_config \<Rightarrow> hnsw_index" where
  "hnsw_new d cfg = \<lparr>hx_config = cfg, hx_dim = d, nodes = [], id_to_node = [], hx_vectors = [],
     entry_point = None, max_layer = 0, deleted = []\<rparr>"

definition hnsw_len :: "hnsw_index \<Rightarrow> nat" where
  "hnsw_len ix = length (nodes ix)"

text \<open>Indexing: \<open>xs[i]\<close> of the source.\<close>

definition index_at :: "'a list \<Rightarrow> nat \<Rightarrow> 'a result" where
  "index_at xs i = (if i < length xs then Inr (xs ! i) else Inl Panic)"

definition layer_edges :: "hnsw_index \<Rightarrow> nat \<Rightarrow> nat \<Rightarrow> nat list result" where
  "layer_edges ix i layer = rbind (index_at (nodes ix) i) (\<lambda>n. index_at (edges n) layer)"

section \<open>Levels\<close>

definition max_allowed_level :: "libm \<Rightarrow> nat \<Rightarrow> nat" where
  "max_allowed_level L n =
     (if n = 0 then 0 else max 1 (nat (fto_int 0 (2 ^ 64 - 1) (fceil (lm_log2 L (fof_int F64 (int n)))))))"

fun ffloor :: "fl \<Rightarrow> fl" where
  "ffloor (Num q) = Num (of_int \<lfloor>q\<rfloor>)"
| "ffloor a = a"

text \<open>\<open>random_level\<close> for the draw \<open>r\<close>; \<open>MAX_LAYER\<close> is 32.\<close>

definition random_level :: "libm \<Rightarrow> f64 \<Rightarrow> hnsw_index \<Rightarrow> nat" where
  "random_level L r ix =
     min (min (nat (fto_int 0 (2 ^ 64 - 1) (ffloor (fmul F64 (fneg (lm_ln L r)) (cfg_ml (hx_config ix)))))) 32)
       (max_allowed_level L (length (nodes ix)))"

section \<open>Greedy search in a layer\<close>

type_synonym dist_fn = "f32 list \<Rightarrow> f32 list \<Rightarrow> f32"

text \<open>The body of the inner loop over the neighbours of the current node.\<close>

definition greedy_step :: "dist_fn \<Rightarrow> hnsw_index \<Rightarrow> f32 list \<Rightarrow> nat \<Rightarrow> nat \<times> f32 \<times> bool \<Rightarrow> (nat \<times> f32 \<times> bool) result" where
  "greedy_step D ix q n s = (case s of (cur, cur_dist, changed) \<Rightarrow>
     rbind (index_at (deleted ix) n) (\<lambda>del.
       if del then Inr s
       else rbind (index_at (hx_vectors ix) n) (\<lambda>v.
         let dist = D v q in Inr (if flt dist cur_dist then (n, dist, True) else s))))"

text \<open>A scan either leaves the node as it is or moves to a closer one.\<close>

definition moved :: "dist_fn \<Rightarrow> hnsw_index \<Rightarrow> f32 list \<Rightarrow> nat set \<Rightarrow> nat \<times> f32 \<Rightarrow> nat \<times> f32 \<times> bool \<Rightarrow> bool" where
  "moved D ix q N s0 s = (case s of (c, cd, ch) \<Rightarrow> (c, cd) = s0 \<and> \<not> ch \<or>
     ch \<and> flt cd (snd s0) \<and> c \<in> N \<and> c < length (hx_vectors ix) \<and> cd = D (hx_vectors ix ! c) q)"

lemma greedy_scan_moved:
  "rfold (greedy_step D ix q) ns (c, cd, False) = Inr s \<Longrightarrow> moved D ix q (set ns) (c, cd) s"
  by (rule rfold_inv [where P = "moved D ix q (set ns) (c, cd)"])
    (auto simp: moved_def greedy_step_def index_at_def Let_def split: if_splits intro: flt_trans)

text \<open>The outer loop. It ends because the distance gets smaller among finitely many vectors.\<close>

function greedy_loop :: "dist_fn \<Rightarrow> hnsw_index \<Rightarrow> f32 list \<Rightarrow> nat \<Rightarrow> nat \<Rightarrow> f32 \<Rightarrow> (nat \<times> f32) result" where
  "greedy_loop D ix q layer cur cur_dist =
     (case rbind (layer_edges ix cur layer) (\<lambda>ns. rfold (greedy_step D ix q) ns (cur, cur_dist, False)) of
        Inl e \<Rightarrow> Inl e
      | Inr (c, cd, changed) \<Rightarrow> if changed then greedy_loop D ix q layer c cd else Inr (c, cd))"
  by pat_completeness auto
termination
proof (relation "measure (\<lambda>(D, ix, q, layer, cur, cd). card {i. i < length (hx_vectors ix) \<and> flt (D (hx_vectors ix ! i) q) cd})", goal_cases)
  case (2 D ix q layer cur cur_dist b c y cd changed)
  let ?S = "\<lambda>cd. {i. i < length (hx_vectors ix) \<and> flt (D (hx_vectors ix ! i) q) cd}"
  obtain ns where "rfold (greedy_step D ix q) ns (cur, cur_dist, False) = Inr (c, cd, changed)"
    using 2 by (auto simp: rbind_eq_Inr)
  from greedy_scan_moved [OF this] have b: "flt cd cur_dist" "c < length (hx_vectors ix)" "cd = D (hx_vectors ix ! c) q"
    using 2 by (auto simp: moved_def)
  have "?S cd \<subseteq> ?S cur_dist" using b(1) by (auto intro: flt_trans)
  moreover have "c \<in> ?S cur_dist" "c \<notin> ?S cd" using b by auto
  ultimately have "?S cd \<subset> ?S cur_dist" by blast
  moreover have "finite (?S cur_dist)" by simp
  ultimately show ?case by (simp add: psubset_card_mono)
qed simp

declare greedy_loop.simps [simp del]

definition greedy_by :: "dist_fn \<Rightarrow> hnsw_index \<Rightarrow> nat \<Rightarrow> f32 list \<Rightarrow> nat \<Rightarrow> (nat \<times> f32) result" where
  "greedy_by D ix start q layer =
     rbind (index_at (hx_vectors ix) start) (\<lambda>v. greedy_loop D ix q layer start (D v q))"

definition greedy_search_layer :: "hnsw_index \<Rightarrow> nat \<Rightarrow> f32 list \<Rightarrow> nat \<Rightarrow> (nat \<times> f32) result" where
  "greedy_search_layer ix = greedy_by (hdistance (cfg_metric (hx_config ix))) ix"

definition greedy_search_layer_weighted :: "hnsw_index \<Rightarrow> nat \<Rightarrow> f32 list \<Rightarrow> nat \<Rightarrow> f32 list \<Rightarrow> (nat \<times> f32) result" where
  "greedy_search_layer_weighted ix start q layer ws =
     greedy_by (hdistance_weighted (cfg_metric (hx_config ix)) ws) ix start q layer"

section \<open>Search in a layer\<close>

text \<open>The body of the inner loop over the neighbours: visited flags, candidates and results.\<close>

type_synonym layer_state = "bool list \<times> (f32 \<times> nat) list \<times> (f32 \<times> nat) list"

definition layer_step :: "dist_fn \<Rightarrow> hnsw_index \<Rightarrow> f32 list \<Rightarrow> nat \<Rightarrow> nat \<Rightarrow> layer_state \<Rightarrow> layer_state result" where
  "layer_step D ix q ef n s = (case s of (visited, cands, results) \<Rightarrow>
     rbind (index_at visited n) (\<lambda>vis.
       if vis then Inr s
       else rbind (index_at (deleted ix) n) (\<lambda>del.
         if del then Inr s
         else rbind (index_at (hx_vectors ix) n) (\<lambda>v.
           let nd = D v q; visited' = visited[n := True] in
           if ef \<le> length results \<and> results = [] then Inl Panic
           else if length results < ef \<or> flt nd (fst (heap_max results)) then
             (let results' = (nd, n) # results in
              Inr (visited', (nd, n) # cands,
                (if ef < length results' then remove1 (heap_max results') results' else results')))
           else Inr (visited', cands, results)))))"

lemma count_unvisited_mark:
  "n < length vis \<Longrightarrow> \<not> vis ! n \<Longrightarrow> Suc (length (filter Not (vis[n := True]))) = length (filter Not vis)"
proof (induction vis arbitrary: n)
  case (Cons b vis)
  then show ?case by (cases n) auto
qed simp

lemma layer_scan_work:
  assumes "rfold (layer_step D ix q ef) ns (vis, cs, rs) = Inr s'"
  shows "length (filter Not (fst s')) + length (fst (snd s')) \<le> length (filter Not vis) + length cs"
proof (rule rfold_inv [where P = "\<lambda>s. length (filter Not (fst s)) + length (fst (snd s)) \<le> length (filter Not vis) + length cs",
      OF _ _ assms])
  fix n s s' assume le: "length (filter Not (fst s)) + length (fst (snd s)) \<le> length (filter Not vis) + length cs"
    and st: "layer_step D ix q ef n s = Inr s'"
  obtain v c r where s: "s = (v, c, r)" by (cases s) auto
  have "s' = s \<or> n < length v \<and> \<not> v ! n \<and> fst s' = v[n := True] \<and> length (fst (snd s')) \<le> Suc (length c)"
    using st by (auto simp: layer_step_def s index_at_def Let_def split: if_splits)
  then show "length (filter Not (fst s')) + length (fst (snd s')) \<le> length (filter Not vis) + length cs"
    using le count_unvisited_mark [of n v] by (auto simp: s)
qed simp

function layer_loop :: "dist_fn \<Rightarrow> hnsw_index \<Rightarrow> f32 list \<Rightarrow> nat \<Rightarrow> nat \<Rightarrow> bool list \<Rightarrow> (f32 \<times> nat) list \<Rightarrow>
    (f32 \<times> nat) list \<Rightarrow> (f32 \<times> nat) list result" where
  "layer_loop D ix q ef layer visited cands results =
     (if cands = [] then Inr results
      else let c = heap_min cands; cands' = remove1 c cands in
        if results \<noteq> [] \<and> flt (fst (heap_max results)) (fst c) \<and> ef \<le> length results then Inr results
        else case rbind (layer_edges ix (snd c) layer) (\<lambda>ns. rfold (layer_step D ix q ef) ns (visited, cands', results)) of
            Inl e \<Rightarrow> Inl e
          | Inr (visited', cands'', results') \<Rightarrow> layer_loop D ix q ef layer visited' cands'' results')"
  by pat_completeness auto

lemma heap_min_in: "xs \<noteq> [] \<Longrightarrow> heap_min xs \<in> set xs"
proof -
  have "fold (\<lambda>a m. if heap_lt a m then a else m) ys m \<in> insert m (set ys)" for ys m
    by (induction ys arbitrary: m) auto
  then show "xs \<noteq> [] \<Longrightarrow> heap_min xs \<in> set xs" by (cases xs) (simp_all add: heap_min_def)
qed

lemma heap_max_in: "xs \<noteq> [] \<Longrightarrow> heap_max xs \<in> set xs"
proof -
  have "fold (\<lambda>a m. if heap_lt m a then a else m) ys m \<in> insert m (set ys)" for ys m
    by (induction ys arbitrary: m) auto
  then show "xs \<noteq> [] \<Longrightarrow> heap_max xs \<in> set xs" by (cases xs) (simp_all add: heap_max_def)
qed

termination layer_loop
proof (relation "measure (\<lambda>(D, ix, q, ef, layer, visited, cands, results). length (filter Not visited) + length cands)", goal_cases)
  case (2 D ix q ef layer visited cands results c cands' b visited' y cands'' results')
  obtain ns where "rfold (layer_step D ix q ef) ns (visited, cands', results) = Inr (visited', cands'', results')"
    using 2 by (auto simp: rbind_eq_Inr)
  from layer_scan_work [OF this] have "length (filter Not visited') + length cands'' \<le> length (filter Not visited) + length cands'" by simp
  moreover have "length cands' < length cands" using 2 heap_min_in [of cands] by (simp add: length_remove1)
  ultimately show ?case by simp
qed simp

declare layer_loop.simps [simp del]

definition search_by :: "dist_fn \<Rightarrow> hnsw_index \<Rightarrow> nat \<Rightarrow> f32 list \<Rightarrow> nat \<Rightarrow> nat \<Rightarrow> (nat \<times> f32) list result" where
  "search_by D ix start q ef layer =
     rbind (index_at (hx_vectors ix) start) (\<lambda>v.
       let d = D v q in
       if length (nodes ix) \<le> start then Inl Panic
       else rbind (layer_loop D ix q ef layer ((replicate (length (nodes ix)) False)[start := True]) [(d, start)] [(d, start)])
         (\<lambda>results. Inr (map (\<lambda>(d, i). (i, d)) (sort_by (\<lambda>a b. \<not> heap_lt b a) results))))"

definition search_layer :: "hnsw_index \<Rightarrow> nat \<Rightarrow> f32 list \<Rightarrow> nat \<Rightarrow> nat \<Rightarrow> (nat \<times> f32) list result" where
  "search_layer ix = search_by (hdistance (cfg_metric (hx_config ix))) ix"

definition search_layer_weighted :: "hnsw_index \<Rightarrow> nat \<Rightarrow> f32 list \<Rightarrow> nat \<Rightarrow> nat \<Rightarrow> f32 list \<Rightarrow> (nat \<times> f32) list result" where
  "search_layer_weighted ix start q ef layer ws =
     search_by (hdistance_weighted (cfg_metric (hx_config ix)) ws) ix start q ef layer"

section \<open>Linking\<close>

definition select_neighbors :: "(nat \<times> f32) list \<Rightarrow> nat \<Rightarrow> nat list" where
  "select_neighbors cands m = map fst (take m cands)"

definition set_edges :: "nat \<Rightarrow> nat \<Rightarrow> nat list \<Rightarrow> hnsw_index \<Rightarrow> hnsw_index" where
  "set_edges i layer ns ix = ix\<lparr>nodes := (nodes ix)[i := (nodes ix ! i)\<lparr>edges := (edges (nodes ix ! i))[layer := ns]\<rparr>]\<rparr>"

definition push_edge :: "nat \<Rightarrow> nat \<Rightarrow> nat \<Rightarrow> hnsw_index \<Rightarrow> hnsw_index result" where
  "push_edge i layer n ix = rbind (layer_edges ix i layer) (\<lambda>ns. Inr (set_edges i layer (ns @ [n]) ix))"

text \<open>\<open>sort_by(|a, b| a.1.partial_cmp(&b.1).unwrap())\<close>: any comparison with a NaN panics.\<close>

definition sort_unwrap :: "('a \<times> f32) list \<Rightarrow> ('a \<times> f32) list result" where
  "sort_unwrap xs = (if 2 \<le> length xs \<and> (\<exists>x\<in>set xs. snd x = NaN) then Inl Panic
     else Inr (sort_by (\<lambda>a b. fle_total (snd a) (snd b)) xs))"

definition max_conn :: "hnsw_index \<Rightarrow> nat \<Rightarrow> nat" where
  "max_conn ix layer = (if layer = 0 then cfg_m_max0 (hx_config ix) else cfg_m (hx_config ix))"

fun with_distances :: "dist_fn \<Rightarrow> hnsw_index \<Rightarrow> f32 list \<Rightarrow> nat list \<Rightarrow> (nat \<times> f32) list result" where
  "with_distances D ix center [] = Inr []"
| "with_distances D ix center (n # ns) = rbind (index_at (hx_vectors ix) n) (\<lambda>v.
     rbind (with_distances D ix center ns) (\<lambda>rest. Inr ((n, D center v) # rest)))"

definition shrink_connections :: "nat \<Rightarrow> nat \<Rightarrow> hnsw_index \<Rightarrow> hnsw_index result" where
  "shrink_connections layer i ix =
     rbind (layer_edges ix i layer) (\<lambda>ns.
       if length ns \<le> max_conn ix layer then Inr ix
       else rbind (index_at (hx_vectors ix) i) (\<lambda>center.
         rbind (with_distances (hdistance (cfg_metric (hx_config ix))) ix center ns) (\<lambda>ds.
           rbind (sort_unwrap ds) (\<lambda>sorted. Inr (set_edges i layer (map fst (take (max_conn ix layer) sorted)) ix)))))"

definition link :: "nat \<Rightarrow> nat \<Rightarrow> nat \<Rightarrow> hnsw_index \<Rightarrow> hnsw_index result" where
  "link node_idx layer n ix = rbind (push_edge node_idx layer n ix) (push_edge n layer node_idx)"

section \<open>Insert, search, remove\<close>

text \<open>Phase 1 of \<open>insert\<close>: descend through the listed layers.\<close>

fun descend :: "f32 list \<Rightarrow> nat list \<Rightarrow> nat \<Rightarrow> hnsw_index \<Rightarrow> nat result" where
  "descend q [] cur ix = Inr cur"
| "descend q (l # ls) cur ix = rbind (index_at (nodes ix) cur) (\<lambda>n.
     if l < length (edges n) then rbind (greedy_search_layer ix cur q l) (\<lambda>(c, _). descend q ls c ix)
     else descend q ls cur ix)"

text \<open>Phase 2: search, connect both ways and shrink, one layer after the other.\<close>

fun connect :: "nat \<Rightarrow> f32 list \<Rightarrow> nat list \<Rightarrow> nat \<Rightarrow> hnsw_index \<Rightarrow> hnsw_index result" where
  "connect node_idx q [] cur ix = Inr ix"
| "connect node_idx q (l # ls) cur ix =
     rbind (search_layer ix cur q (ef_construction (hx_config ix)) l) (\<lambda>cands.
       let nearest = select_neighbors cands (max_conn ix l) in
       rbind (rfold (link node_idx l) nearest ix) (\<lambda>ix1.
         rbind (rfold (shrink_connections l) nearest ix1) (\<lambda>ix2.
           connect node_idx q ls (if nearest \<noteq> [] then hd nearest else cur) ix2)))"

definition position :: "'a \<Rightarrow> 'a list \<Rightarrow> nat option" where
  "position x xs = (case filter (\<lambda>i. xs ! i = x) [0..<length xs] of i # _ \<Rightarrow> Some i | [] \<Rightarrow> None)"

text \<open>A new node, linked to nothing yet.\<close>

definition add_node :: "nat \<Rightarrow> vector_id \<Rightarrow> f32 list \<Rightarrow> hnsw_index \<Rightarrow> hnsw_index" where
  "add_node level vid q ix = ix\<lparr>nodes := nodes ix @ [\<lparr>edges = replicate (level + 1) []\<rparr>], id_to_node := id_to_node ix @ [vid],
     hx_vectors := hx_vectors ix @ [q], deleted := deleted ix @ [False]\<rparr>"

definition hnsw_insert :: "libm \<Rightarrow> f64 \<Rightarrow> vector_id \<Rightarrow> f64 list \<Rightarrow> hnsw_index \<Rightarrow> hnsw_index result" where
  "hnsw_insert L r vid v ix =
     (if length v \<noteq> hx_dim ix then Inl (DimensionMismatch (length v) (hx_dim ix))
      else let q = map (fcast F32) v in
        case position vid (id_to_node ix) of
          Some existing \<Rightarrow> rbind (index_at (hx_vectors ix) existing) (\<lambda>_. Inr (ix\<lparr>hx_vectors := (hx_vectors ix)[existing := q]\<rparr>))
        | None \<Rightarrow>
            (let node_idx = length (nodes ix); level = random_level L r ix;
                 ix1 = add_node level vid q ix
             in if node_idx = 0 then Inr (ix1\<lparr>entry_point := Some 0, max_layer := level\<rparr>)
                else case entry_point ix of
                    None \<Rightarrow> Inl Panic
                  | Some entry \<Rightarrow>
                      rbind (index_at (nodes ix1) entry) (\<lambda>en.
                        let descent_top = min (max_layer ix) (length (edges en) - 1) in
                        rbind (descend q (rev [level + 1..<descent_top + 1]) entry ix1) (\<lambda>cur.
                          rbind (connect node_idx q (rev [0..<min level (max_layer ix) + 1]) cur ix1) (\<lambda>ix2.
                            Inr (if max_layer ix < level then ix2\<lparr>max_layer := level, entry_point := Some node_idx\<rparr> else ix2))))))"

fun search_descend :: "(nat \<Rightarrow> nat \<Rightarrow> (nat \<times> f32) result) \<Rightarrow> nat list \<Rightarrow> nat \<Rightarrow> nat result" where
  "search_descend g [] cur = Inr cur"
| "search_descend g (l # ls) cur = rbind (g cur l) (\<lambda>(c, _). search_descend g ls c)"

fun drop_deleted :: "hnsw_index \<Rightarrow> (nat \<times> f32) list \<Rightarrow> (nat \<times> f32) list result" where
  "drop_deleted ix [] = Inr []"
| "drop_deleted ix ((i, d) # cs) = rbind (index_at (deleted ix) i) (\<lambda>del.
     rbind (drop_deleted ix cs) (\<lambda>rest. Inr (if del then rest else (i, d) # rest)))"

fun external_ids :: "hnsw_index \<Rightarrow> (nat \<times> f32) list \<Rightarrow> (vector_id \<times> f32) list result" where
  "external_ids ix [] = Inr []"
| "external_ids ix ((i, d) # cs) = rbind (index_at (id_to_node ix) i) (\<lambda>vid.
     rbind (external_ids ix cs) (\<lambda>rest. Inr ((vid, d) # rest)))"

definition hnsw_search :: "hnsw_index \<Rightarrow> f64 list \<Rightarrow> nat \<Rightarrow> weight_mask option \<Rightarrow> (vector_id \<times> f32) list result" where
  "hnsw_search ix query ef wm =
     (if length query \<noteq> hx_dim ix then Inl (DimensionMismatch (length query) (hx_dim ix))
      else let q = map (fcast F32) query; weights = map_option (\<lambda>m. mask_to_dense m (hx_dim ix)) wm in
        if nodes ix = [] then Inr []
        else case entry_point ix of
            None \<Rightarrow> Inl Panic
          | Some entry \<Rightarrow>
              rbind (search_descend (\<lambda>c l. case weights of Some w \<Rightarrow> greedy_search_layer_weighted ix c q l w
                  | None \<Rightarrow> greedy_search_layer ix c q l) (rev [1..<max_layer ix + 1]) entry) (\<lambda>cur.
              rbind (case weights of Some w \<Rightarrow> search_layer_weighted ix cur q ef 0 w
                  | None \<Rightarrow> search_layer ix cur q ef 0) (\<lambda>cands.
              rbind (drop_deleted ix cands) (\<lambda>live.
              rbind (external_ids ix (take ef live)) sort_unwrap))))"

definition hnsw_remove :: "vector_id \<Rightarrow> hnsw_index \<Rightarrow> hnsw_index result" where
  "hnsw_remove vid ix = (case position vid (id_to_node ix) of
       None \<Rightarrow> Inl (NotFound (''VectorId VectorId('' @ show_nat (unat vid) @ '') not found in index''))
     | Some pos \<Rightarrow> rbind (index_at (deleted ix) pos) (\<lambda>_. Inr (ix\<lparr>deleted := (deleted ix)[pos := True]\<rparr>)))"

section \<open>Snapshots\<close>

record hnsw_snapshot =
  sn_version :: u32
  sn_m :: nat
  sn_m_max0 :: nat
  sn_ef_construction :: nat
  sn_ml :: f64
  sn_dim :: nat
  sn_entry_point :: "nat option"
  sn_max_layer :: nat
  sn_id_to_node :: "vector_id list"
  sn_vectors :: "f32 list list"
  sn_edges :: "nat list list list"
  sn_deleted :: "bool list"

text \<open>The bincode encoding of a snapshot.\<close>

record snapshot_codec =
  sn_serialize :: "hnsw_snapshot \<Rightarrow> u8 list result"
  sn_deserialize :: "u8 list \<Rightarrow> hnsw_snapshot result"

definition snapshot_of :: "hnsw_index \<Rightarrow> hnsw_snapshot" where
  "snapshot_of ix = \<lparr>sn_version = 1, sn_m = cfg_m (hx_config ix), sn_m_max0 = cfg_m_max0 (hx_config ix),
     sn_ef_construction = ef_construction (hx_config ix), sn_ml = cfg_ml (hx_config ix), sn_dim = hx_dim ix,
     sn_entry_point = entry_point ix, sn_max_layer = max_layer ix, sn_id_to_node = id_to_node ix,
     sn_vectors = hx_vectors ix, sn_edges = map edges (nodes ix), sn_deleted = deleted ix\<rparr>"

definition hnsw_save :: "snapshot_codec \<Rightarrow> hnsw_index \<Rightarrow> u8 list result" where
  "hnsw_save B ix = rbind (sn_serialize B (snapshot_of ix)) (\<lambda>bs. Inr (u32_to_le_bytes 1 @ bs))"

definition hnsw_load :: "snapshot_codec \<Rightarrow> u8 list \<Rightarrow> hnsw_index \<Rightarrow> hnsw_index result" where
  "hnsw_load B data ix =
     (if length data < 4 then Inl IoError
      else let version = u32_from_le_bytes (take 4 data) in
        if version \<noteq> 1 then Inl (GraphCorrupt (''Unsupported format version: '' @ show_nat (unat version) @ '', expected 1''))
        else rbind (sn_deserialize B (drop 4 data)) (\<lambda>s. Inr (ix\<lparr>
          hx_config := (hx_config ix)\<lparr>cfg_m := sn_m s, cfg_m_max0 := sn_m_max0 s,
            ef_construction := sn_ef_construction s, cfg_ml := sn_ml s\<rparr>,
          hx_dim := sn_dim s, entry_point := sn_entry_point s, max_layer := sn_max_layer s, id_to_node := sn_id_to_node s,
          hx_vectors := sn_vectors s, deleted := sn_deleted s, nodes := map (\<lambda>es. \<lparr>edges = es\<rparr>) (sn_edges s)\<rparr>)))"

section \<open>The type-erased index\<close>

datatype any_index = CosineIndex hnsw_index | EuclideanIndex hnsw_index

text \<open>The index inside runs with the distance of its constructor.\<close>

fun any_inner :: "any_index \<Rightarrow> hnsw_index" where
  "any_inner (CosineIndex i) = i\<lparr>hx_config := (hx_config i)\<lparr>cfg_metric := Cosine\<rparr>\<rparr>"
| "any_inner (EuclideanIndex i) = i\<lparr>hx_config := (hx_config i)\<lparr>cfg_metric := Euclidean\<rparr>\<rparr>"

fun any_put :: "any_index \<Rightarrow> hnsw_index \<Rightarrow> any_index" where
  "any_put (CosineIndex _) i = CosineIndex i"
| "any_put (EuclideanIndex _) i = EuclideanIndex i"

definition any_insert :: "libm \<Rightarrow> f64 \<Rightarrow> vector_id \<Rightarrow> f64 list \<Rightarrow> any_index \<Rightarrow> any_index result" where
  "any_insert L r vid v a = rbind (hnsw_insert L r vid v (any_inner a)) (\<lambda>i. Inr (any_put a i))"

definition any_search :: "any_index \<Rightarrow> f64 list \<Rightarrow> nat \<Rightarrow> weight_mask option \<Rightarrow> (vector_id \<times> f32) list result" where
  "any_search a query ef wm = hnsw_search (any_inner a) query ef wm"

definition any_remove :: "vector_id \<Rightarrow> any_index \<Rightarrow> any_index result" where
  "any_remove vid a = rbind (hnsw_remove vid (any_inner a)) (\<lambda>i. Inr (any_put a i))"

definition any_len :: "any_index \<Rightarrow> nat" where
  "any_len a = hnsw_len (any_inner a)"

definition any_save :: "snapshot_codec \<Rightarrow> any_index \<Rightarrow> u8 list result" where
  "any_save B a = hnsw_save B (any_inner a)"

definition any_load :: "snapshot_codec \<Rightarrow> u8 list \<Rightarrow> any_index \<Rightarrow> any_index result" where
  "any_load B data a = rbind (hnsw_load B data (any_inner a)) (\<lambda>i. Inr (any_put a i))"

definition is_cosine :: "any_index \<Rightarrow> bool" where
  "is_cosine a = (case a of CosineIndex _ \<Rightarrow> True | EuclideanIndex _ \<Rightarrow> False)"

definition is_euclidean :: "any_index \<Rightarrow> bool" where
  "is_euclidean a = (case a of CosineIndex _ \<Rightarrow> False | EuclideanIndex _ \<Rightarrow> True)"

section \<open>Well-formed graphs\<close>

abbreviation layers :: "hnsw_index \<Rightarrow> nat \<Rightarrow> nat" where
  "layers ix i \<equiv> length (edges (nodes ix ! i))"

abbreviation nbrs :: "hnsw_index \<Rightarrow> nat \<Rightarrow> nat \<Rightarrow> nat list" where
  "nbrs ix i l \<equiv> edges (nodes ix ! i) ! l"

definition has_layer :: "hnsw_index \<Rightarrow> nat \<Rightarrow> nat \<Rightarrow> bool" where
  "has_layer ix l i \<longleftrightarrow> i < length (nodes ix) \<and> l < layers ix i"

text \<open>The parallel vectors have one length, and an edge in a layer leads to a node that has this layer.\<close>

definition graph_ok :: "hnsw_index \<Rightarrow> bool" where
  "graph_ok ix \<longleftrightarrow> length (id_to_node ix) = length (nodes ix) \<and> length (hx_vectors ix) = length (nodes ix) \<and>
     length (deleted ix) = length (nodes ix) \<and> (\<forall>i < length (nodes ix). 0 < layers ix i) \<and>
     (\<forall>i l. has_layer ix l i \<longrightarrow> (\<forall>n\<in>set (nbrs ix i l). has_layer ix l n))"

text \<open>No node has more edges in a layer than the configuration allows.\<close>

definition deg_ok :: "hnsw_index \<Rightarrow> bool" where
  "deg_ok ix \<longleftrightarrow> (\<forall>i l. has_layer ix l i \<longrightarrow> length (nbrs ix i l) \<le> max_conn ix l)"

text \<open>The entry point has all layers and no node has more.\<close>

definition entry_ok_ix :: "hnsw_index \<Rightarrow> bool" where
  "entry_ok_ix ix \<longleftrightarrow> (case entry_point ix of None \<Rightarrow> nodes ix = []
     | Some e \<Rightarrow> e < length (nodes ix) \<and> layers ix e = max_layer ix + 1) \<and>
     (\<forall>i < length (nodes ix). layers ix i \<le> max_layer ix + 1)"

definition hnsw_inv :: "hnsw_index \<Rightarrow> bool" where
  "hnsw_inv ix \<longleftrightarrow> graph_ok ix \<and> deg_ok ix \<and> entry_ok_ix ix \<and> distinct (id_to_node ix)"

lemma index_at_Inr [simp]: "i < length xs \<Longrightarrow> index_at xs i = Inr (xs ! i)"
  by (simp add: index_at_def)

lemma layer_edges_Inr [simp]: "has_layer ix l i \<Longrightarrow> layer_edges ix i l = Inr (nbrs ix i l)"
  by (simp add: layer_edges_def has_layer_def)

lemma graph_okD:
  assumes "graph_ok ix" "has_layer ix l i"
  shows "i < length (nodes ix)" "i < length (hx_vectors ix)" "i < length (deleted ix)" "i < length (id_to_node ix)"
    "\<And>n. n \<in> set (nbrs ix i l) \<Longrightarrow> has_layer ix l n"
proof -
  show i: "i < length (nodes ix)" using assms(2) by (simp add: has_layer_def)
  show "i < length (hx_vectors ix)" "i < length (deleted ix)" "i < length (id_to_node ix)"
    using i assms(1) by (simp_all add: graph_ok_def)
  show "\<And>n. n \<in> set (nbrs ix i l) \<Longrightarrow> has_layer ix l n" using assms unfolding graph_ok_def by blast
qed

lemma has_layer_less: "has_layer ix l i \<Longrightarrow> k \<le> l \<Longrightarrow> has_layer ix k i"
  by (auto simp: has_layer_def)

section \<open>Greedy search\<close>

abbreviation dist_to :: "dist_fn \<Rightarrow> hnsw_index \<Rightarrow> f32 list \<Rightarrow> nat \<Rightarrow> f32" where
  "dist_to D ix q i \<equiv> D (hx_vectors ix ! i) q"

lemma greedy_scan_total:
  assumes "graph_ok ix" "has_layer ix l c"
  shows "\<exists>s. rfold (greedy_step D ix q) (nbrs ix c l) (c, dist_to D ix q c, False) = Inr s \<and>
    has_layer ix l (fst s) \<and> fst (snd s) = dist_to D ix q (fst s)"
proof (rule rfold_total)
  fix n and s :: "nat \<times> f32 \<times> bool" assume n: "n \<in> set (nbrs ix c l)" and P: "has_layer ix l (fst s) \<and> fst (snd s) = dist_to D ix q (fst s)"
  note n' = graph_okD [OF assms(1) graph_okD(5) [OF assms n]]
  show "\<exists>s'. greedy_step D ix q n s = Inr s' \<and> has_layer ix l (fst s') \<and> fst (snd s') = dist_to D ix q (fst s')"
    using P n' graph_okD(5) [OF assms n] by (cases s) (auto simp: greedy_step_def Let_def)
qed (use assms in simp)

text \<open>A scan that does not move has seen no live neighbour that is closer.\<close>

lemma greedy_scan_still:
  "rfold (greedy_step D ix q) ns (c, cd, ch) = Inr (c', cd', False) \<Longrightarrow>
     c' = c \<and> cd' = cd \<and> (\<forall>n\<in>set ns. n < length (deleted ix) \<and> \<not> deleted ix ! n \<longrightarrow> \<not> flt (dist_to D ix q n) cd)"
proof (induction ns arbitrary: c cd ch)
  case (Cons n ns)
  obtain s where s: "greedy_step D ix q n (c, cd, ch) = Inr s" "rfold (greedy_step D ix q) ns s = Inr (c', cd', False)"
    using Cons.prems by (auto simp: rbind_eq_Inr)
  have "\<not> snd (snd s)"
  proof
    assume "snd (snd s)"
    then have "snd (snd (c', cd', False))"
      by (intro rfold_inv [where P = "\<lambda>s. snd (snd s)", OF _ _ s(2)])
        (auto simp: greedy_step_def index_at_def Let_def split: if_splits)
    then show False by simp
  qed
  then have "s = (c, cd, ch) \<and> (n < length (deleted ix) \<and> \<not> deleted ix ! n \<longrightarrow> \<not> flt (dist_to D ix q n) cd)"
    using s(1) by (auto simp: greedy_step_def index_at_def Let_def split: if_splits)
  then show ?case using Cons.IH s(2) by auto
qed simp

lemma greedy_loop_total:
  assumes "graph_ok ix" "has_layer ix l c" "cd = dist_to D ix q c"
  shows "\<exists>c'. greedy_loop D ix q l c cd = Inr (c', dist_to D ix q c') \<and> has_layer ix l c' \<and>
    (dist_to D ix q c' = cd \<or> flt (dist_to D ix q c') cd) \<and>
    (\<forall>n\<in>set (nbrs ix c' l). \<not> deleted ix ! n \<longrightarrow> \<not> flt (dist_to D ix q n) (dist_to D ix q c'))"
  using assms
proof (induction D ix q l c cd rule: greedy_loop.induct)
  case (1 D ix q l c cd)
  obtain c1 d1 ch where s: "rfold (greedy_step D ix q) (nbrs ix c l) (c, cd, False) = Inr (c1, d1, ch)"
      "has_layer ix l c1" "d1 = dist_to D ix q c1"
    using greedy_scan_total [OF 1(2,3), of D q] 1(4) by (metis fst_conv prod_cases3 snd_conv)
  have e: "rbind (layer_edges ix c l) (\<lambda>ns. rfold (greedy_step D ix q) ns (c, cd, False)) = Inr (c1, d1, ch)"
    using s(1) 1(3) by simp
  show ?case
  proof (cases ch)
    case True
    then have "flt d1 cd" using greedy_scan_moved [OF s(1)] by (auto simp: moved_def)
    moreover obtain c' where "greedy_loop D ix q l c1 d1 = Inr (c', dist_to D ix q c')" "has_layer ix l c'"
        "dist_to D ix q c' = d1 \<or> flt (dist_to D ix q c') d1"
        "\<forall>n\<in>set (nbrs ix c' l). \<not> deleted ix ! n \<longrightarrow> \<not> flt (dist_to D ix q n) (dist_to D ix q c')"
      using 1(1) [OF e refl refl True 1(2) s(2,3)] by blast
    ultimately show ?thesis using e True by (subst greedy_loop.simps) (auto intro: flt_trans)
  next
    case False
    then have "c1 = c \<and> d1 = cd \<and> (\<forall>n\<in>set (nbrs ix c l). n < length (deleted ix) \<and> \<not> deleted ix ! n \<longrightarrow> \<not> flt (dist_to D ix q n) cd)"
      using greedy_scan_still [of D ix q "nbrs ix c l" c cd False c1 d1] s(1) by simp
    moreover have "\<forall>n\<in>set (nbrs ix c l). n < length (deleted ix)" using graph_okD(3) [OF 1(2)] graph_okD(5) [OF 1(2,3)] by blast
    ultimately show ?thesis using e False s(2,3) by (subst greedy_loop.simps) auto
  qed
qed

lemma greedy_by_total:
  assumes "graph_ok ix" "has_layer ix l c"
  shows "\<exists>c'. greedy_by D ix c q l = Inr (c', dist_to D ix q c') \<and> has_layer ix l c' \<and>
    (dist_to D ix q c' = dist_to D ix q c \<or> flt (dist_to D ix q c') (dist_to D ix q c)) \<and>
    (\<forall>n\<in>set (nbrs ix c' l). \<not> deleted ix ! n \<longrightarrow> \<not> flt (dist_to D ix q n) (dist_to D ix q c'))"
  using greedy_loop_total [OF assms refl, of D q] graph_okD(2) [OF assms] by (simp add: greedy_by_def)

section \<open>Search in a layer\<close>

text \<open>What holds of the visited flags, the candidates and the results all the time.\<close>

definition reached :: "hnsw_index \<Rightarrow> nat \<Rightarrow> nat \<Rightarrow> bool" where
  "reached ix l i \<longleftrightarrow> (\<exists>j. has_layer ix l j \<and> i \<in> set (nbrs ix j l))"

definition found :: "dist_fn \<Rightarrow> hnsw_index \<Rightarrow> f32 list \<Rightarrow> nat \<Rightarrow> nat \<Rightarrow> bool list \<Rightarrow> f32 \<times> nat \<Rightarrow> bool" where
  "found D ix q l start vis p \<longleftrightarrow> has_layer ix l (snd p) \<and> vis ! snd p \<and> fst p = dist_to D ix q (snd p) \<and>
     (snd p = start \<or> \<not> deleted ix ! snd p \<and> reached ix l (snd p))"

definition layer_inv :: "dist_fn \<Rightarrow> hnsw_index \<Rightarrow> f32 list \<Rightarrow> nat \<Rightarrow> nat \<Rightarrow> nat \<Rightarrow> layer_state \<Rightarrow> bool" where
  "layer_inv D ix q ef l start s = (case s of (vis, cs, rs) \<Rightarrow>
     length vis = length (nodes ix) \<and> (\<forall>p\<in>set cs \<union> set rs. found D ix q l start vis p) \<and>
     rs \<noteq> [] \<and> distinct (map snd rs) \<and> length rs \<le> max 1 ef)"

lemma found_mark: "found D ix q l start vis p \<Longrightarrow> found D ix q l start (vis[n := True]) p"
  by (cases "n < length vis"; cases "snd p = n") (auto simp: found_def list_update_beyond)

lemma remove1_max:
  assumes "rs \<noteq> []"
  shows "Suc (length (remove1 (heap_max rs) rs)) = length rs" "set (remove1 (heap_max rs) rs) \<subseteq> set rs"
    "distinct (map snd rs) \<Longrightarrow> distinct (map snd (remove1 (heap_max rs) rs))"
proof -
  have in_rs: "heap_max rs \<in> set rs" using assms by (rule heap_max_in)
  then have "0 < length rs" by (cases rs) auto
  then show "Suc (length (remove1 (heap_max rs) rs)) = length rs" using in_rs by (simp add: length_remove1)
  show "set (remove1 (heap_max rs) rs) \<subseteq> set rs" by (rule set_remove1_subset)
  show "distinct (map snd rs) \<Longrightarrow> distinct (map snd (remove1 (heap_max rs) rs))"
    by (rule distinct_map_remove1)
qed


lemma layer_step_total:
  assumes g: "graph_ok ix" and n: "has_layer ix l n" and r: "reached ix l n" and inv: "layer_inv D ix q ef l start s"
  shows "\<exists>s'. layer_step D ix q ef n s = Inr s' \<and> layer_inv D ix q ef l start s'"
proof -
  obtain vis cs rs where s: "s = (vis, cs, rs)" by (cases s) auto
  have i: "length vis = length (nodes ix)" "\<forall>p\<in>set cs \<union> set rs. found D ix q l start vis p" "rs \<noteq> []"
      "distinct (map snd rs)" "length rs \<le> max 1 ef"
    using inv by (auto simp: s layer_inv_def)
  note n' = graph_okD [OF g n]
  show ?thesis
  proof (cases "vis ! n \<or> deleted ix ! n")
    case True
    then show ?thesis using n' i inv by (auto simp: layer_step_def s)
  next
    case False
    let ?p = "(dist_to D ix q n, n)" and ?vis = "vis[n := True]"
    let ?rs = "if ef < length (?p # rs) then remove1 (heap_max (?p # rs)) (?p # rs) else ?p # rs"
    have p: "found D ix q l start ?vis ?p" using False n n'(1) i(1) r by (simp add: found_def)
    have mark: "\<forall>p\<in>set cs \<union> set rs. found D ix q l start ?vis p" using i(2) by (auto intro: found_mark)
    have "n \<notin> set (map snd rs)" using i(2) False by (auto simp: found_def)
    then have d: "distinct (map snd (?p # rs))" using i(4) by simp
    note rm = remove1_max [of "?p # rs"]
    have rs: "set ?rs \<subseteq> insert ?p (set rs)" "distinct (map snd ?rs)" "?rs \<noteq> []" "length ?rs \<le> max 1 ef"
      using rm(2) rm(3) [OF _ d] d rm(1) i(3,5) by (auto split: if_splits)
    have "layer_step D ix q ef n s = Inr (if length rs < ef \<or> flt (dist_to D ix q n) (fst (heap_max rs))
        then (?vis, ?p # cs, ?rs) else (?vis, cs, rs))"
      using False n' i(1,3) by (simp add: layer_step_def s Let_def)
    moreover have "layer_inv D ix q ef l start (?vis, ?p # cs, ?rs)"
      using p mark rs i(1) unfolding layer_inv_def by (auto dest: subsetD)
    moreover have "layer_inv D ix q ef l start (?vis, cs, rs)"
      using mark i by (simp add: layer_inv_def)
    ultimately show ?thesis by auto
  qed
qed

lemma layer_loop_total:
  assumes "graph_ok ix" "layer_inv D ix q ef l start (vis, cs, rs)"
  shows "\<exists>rs' vis'. layer_loop D ix q ef l vis cs rs = Inr rs' \<and> layer_inv D ix q ef l start (vis', [], rs')"
  using assms
proof (induction D ix q ef l vis cs rs rule: layer_loop.induct)
  case (1 D ix q ef l vis cs rs)
  have drop_cs: "layer_inv D ix q ef l start (vis, [], rs)" using 1(3) by (simp add: layer_inv_def)
  let ?c = "heap_min cs" and ?stop = "rs \<noteq> [] \<and> flt (fst (heap_max rs)) (fst (heap_min cs)) \<and> ef \<le> length rs"
  show ?case
  proof (cases "cs = [] \<or> ?stop")
    case True
    then show ?thesis using drop_cs by (subst layer_loop.simps) (auto simp: Let_def)
  next
    case False
    then have c: "?c \<in> set cs" by (auto intro: heap_min_in)
    then have hl: "has_layer ix l (snd ?c)" using 1(3) by (auto simp: layer_inv_def found_def)
    have "layer_inv D ix q ef l start (vis, remove1 ?c cs, rs)"
      using 1(3) set_remove1_subset [of ?c cs] by (auto simp: layer_inv_def)
    then obtain s where s: "rfold (layer_step D ix q ef) (nbrs ix (snd ?c) l) (vis, remove1 ?c cs, rs) = Inr s"
        "layer_inv D ix q ef l start s"
      using rfold_total [of "nbrs ix (snd ?c) l" "layer_inv D ix q ef l start" "layer_step D ix q ef"]
        layer_step_total [OF 1(2)] graph_okD(5) [OF 1(2) hl] hl unfolding reached_def by blast
    obtain vis1 cs1 rs1 where s1: "s = (vis1, cs1, rs1)" by (cases s) auto
    have e: "rbind (layer_edges ix (snd ?c) l) (\<lambda>ns. rfold (layer_step D ix q ef) ns (vis, remove1 ?c cs, rs)) = Inr (vis1, cs1, rs1)"
      using s(1) hl by (simp add: s1)
    have "\<exists>rs' vis'. layer_loop D ix q ef l vis1 cs1 rs1 = Inr rs' \<and> layer_inv D ix q ef l start (vis', [], rs')"
      by (rule 1(1) [OF _ refl refl _ e refl refl 1(2)]) (use False s(2) s1 in auto)
    then show ?thesis using False e by (subst layer_loop.simps) (auto simp: Let_def)
  qed
qed

text \<open>What a search in a layer returns: nodes of the layer with their distances, in ascending order.\<close>

interpretation by_dist: ranking "\<lambda>a b :: f32 \<times> nat. \<not> heap_lt b a" "\<lambda>p. fst p \<noteq> NaN"
  by unfold_locales (auto simp: heap_lt_def flt_def)

lemma heap_order_dist: "\<not> heap_lt b a \<Longrightarrow> \<not> flt (fst b) (fst a)"
  by (simp add: heap_lt_def)

lemma search_by_total:
  assumes g: "graph_ok ix" and st: "has_layer ix l start"
  shows "\<exists>cs. search_by D ix start q ef l = Inr cs \<and> distinct (map fst cs) \<and> cs \<noteq> [] \<and> length cs \<le> max 1 ef \<and>
    (\<forall>(i, d)\<in>set cs. has_layer ix l i \<and> d = dist_to D ix q i \<and> (i = start \<or> \<not> deleted ix ! i \<and> reached ix l i))"
proof -
  note st' = graph_okD [OF g st]
  let ?p = "(dist_to D ix q start, start)" and ?vis = "(replicate (length (nodes ix)) False)[start := True]"
  have "layer_inv D ix q ef l start (?vis, [?p], [?p])"
    using st st' by (simp add: layer_inv_def found_def)
  then obtain rs vis' where rs: "layer_loop D ix q ef l ?vis [?p] [?p] = Inr rs" "layer_inv D ix q ef l start (vis', [], rs)"
    using layer_loop_total [OF g] by blast
  let ?s = "sort_by (\<lambda>a b. \<not> heap_lt b a) rs"
  let ?cs = "map (\<lambda>(d, i). (i, d)) ?s"
  have "search_by D ix start q ef l = Inr ?cs" using rs(1) st' by (simp add: search_by_def)
  moreover have "distinct (map fst ?cs)"
  proof -
    have fs: "map fst ?cs = map snd ?s" by (simp add: case_prod_beta comp_def)
    have "mset (map snd ?s) = mset (map snd rs)" by (simp only: mset_map mset_sort_by)
    moreover have "distinct (map snd rs)" using rs(2) by (simp add: layer_inv_def)
    ultimately show ?thesis unfolding fs by (metis mset_eq_imp_distinct_iff)
  qed
  moreover have "\<forall>(i, d)\<in>set ?cs. has_layer ix l i \<and> d = dist_to D ix q i \<and> (i = start \<or> \<not> deleted ix ! i \<and> reached ix l i)"
    using rs(2) by (auto simp: layer_inv_def found_def)
  moreover have "?cs \<noteq> []" "length ?cs \<le> max 1 ef" using rs(2) by (simp_all add: layer_inv_def)
  ultimately show ?thesis by blast
qed

section \<open>Linking keeps the graph well-formed\<close>

text \<open>Two indexes that differ at most in the edges: same nodes, same layers, same everything else.\<close>

definition same_shape :: "hnsw_index \<Rightarrow> hnsw_index \<Rightarrow> bool" where
  "same_shape ix ix' \<longleftrightarrow> ix' = ix\<lparr>nodes := nodes ix'\<rparr> \<and> length (nodes ix') = length (nodes ix) \<and>
     (\<forall>i < length (nodes ix). layers ix' i = layers ix i)"

lemma same_shape_refl [simp]: "same_shape ix ix"
  by (simp add: same_shape_def)

lemma same_shape_trans: "same_shape a b \<Longrightarrow> same_shape b c \<Longrightarrow> same_shape a c"
  by (cases a; cases b; cases c) (simp add: same_shape_def)

lemma same_shapeD:
  assumes "same_shape ix ix'"
  shows "hx_config ix' = hx_config ix" "hx_dim ix' = hx_dim ix" "id_to_node ix' = id_to_node ix" "hx_vectors ix' = hx_vectors ix"
    "entry_point ix' = entry_point ix" "max_layer ix' = max_layer ix" "deleted ix' = deleted ix"
    "length (nodes ix') = length (nodes ix)" "has_layer ix' = has_layer ix" "max_conn ix' = max_conn ix"
  using assms by (cases ix; cases ix'; auto simp: same_shape_def has_layer_def max_conn_def fun_eq_iff)+

lemma set_edges_shape: "has_layer ix l i \<Longrightarrow> same_shape ix (set_edges i l ns ix)"
  by (auto simp: same_shape_def set_edges_def has_layer_def nth_list_update)

lemma nbrs_set_edges:
  "has_layer ix l i \<Longrightarrow> has_layer ix k j \<Longrightarrow> nbrs (set_edges i l ns ix) j k = (if j = i \<and> k = l then ns else nbrs ix j k)"
  by (auto simp: set_edges_def has_layer_def nth_list_update)

lemma set_edges_ok:
  assumes g: "graph_ok ix" and i: "has_layer ix l i" and ns: "\<forall>n\<in>set ns. has_layer ix l n"
  shows "graph_ok (set_edges i l ns ix)"
proof -
  note sh = set_edges_shape [OF i, of ns]
  note D = same_shapeD [OF sh]
  have nb: "has_layer ix k n" if "has_layer ix k j" "n \<in> set (nbrs (set_edges i l ns ix) j k)" for j k n
    using that(2) ns graph_okD(5) [OF g that(1)] unfolding nbrs_set_edges [OF i that(1)] by (auto split: if_splits)
  have lay: "\<forall>j < length (nodes ix). layers (set_edges i l ns ix) j = layers ix j" using sh by (simp add: same_shape_def)
  have "\<forall>j < length (nodes ix). 0 < layers ix j" "length (id_to_node ix) = length (nodes ix)"
    "length (hx_vectors ix) = length (nodes ix)" "length (deleted ix) = length (nodes ix)"
    using g by (simp_all add: graph_ok_def)
  then show ?thesis unfolding graph_ok_def D using lay nb by metis
qed

text \<open>What linking a new node with its neighbours does to the edges of the layer.\<close>

lemma push_edge_ok:
  assumes "graph_ok ix" "has_layer ix l i" "has_layer ix l n"
  shows "\<exists>ix'. push_edge i l n ix = Inr ix' \<and> graph_ok ix' \<and> same_shape ix ix' \<and>
    (\<forall>j k. has_layer ix k j \<longrightarrow> nbrs ix' j k = (if j = i \<and> k = l then nbrs ix i l @ [n] else nbrs ix j k))"
proof -
  have "\<forall>x\<in>set (nbrs ix i l @ [n]). has_layer ix l x" using graph_okD(5) [OF assms(1,2)] assms(3) by auto
  then show ?thesis
    using assms set_edges_ok [OF assms(1,2)] set_edges_shape [OF assms(2)] nbrs_set_edges [OF assms(2)]
    by (simp add: push_edge_def)
qed

lemma link_ok:
  assumes "graph_ok ix" "has_layer ix l x" "has_layer ix l n" "x \<noteq> n"
  shows "\<exists>ix'. link x l n ix = Inr ix' \<and> graph_ok ix' \<and> same_shape ix ix' \<and>
    (\<forall>j k. has_layer ix k j \<longrightarrow> nbrs ix' j k =
      (if k = l \<and> j = x then nbrs ix x l @ [n] else if k = l \<and> j = n then nbrs ix n l @ [x] else nbrs ix j k))"
proof -
  obtain ix1 where 1: "push_edge x l n ix = Inr ix1" "graph_ok ix1" "same_shape ix ix1"
      "\<forall>j k. has_layer ix k j \<longrightarrow> nbrs ix1 j k = (if j = x \<and> k = l then nbrs ix x l @ [n] else nbrs ix j k)"
    using push_edge_ok [OF assms(1-3)] by blast
  note D = same_shapeD(9) [OF 1(3)]
  have "has_layer ix1 l n" "has_layer ix1 l x" using assms(2,3) by (simp_all add: D)
  from push_edge_ok [OF 1(2) this] obtain ix2 where 2: "push_edge n l x ix1 = Inr ix2" "graph_ok ix2" "same_shape ix1 ix2"
      "\<forall>j k. has_layer ix1 k j \<longrightarrow> nbrs ix2 j k = (if j = n \<and> k = l then nbrs ix1 n l @ [x] else nbrs ix1 j k)"
    by blast
  have "\<forall>j k. has_layer ix k j \<longrightarrow> nbrs ix2 j k =
      (if k = l \<and> j = x then nbrs ix x l @ [n] else if k = l \<and> j = n then nbrs ix n l @ [x] else nbrs ix j k)"
    using 1(4) 2(4) assms(3,4) unfolding D by simp
  then show ?thesis using 1(1,3) 2(1-3) same_shape_trans by (auto simp: link_def)
qed

lemma rfold_link_ok:
  assumes "graph_ok ix" "has_layer ix l x" "\<forall>n\<in>set ns. has_layer ix l n" "x \<notin> set ns" "distinct ns"
  shows "\<exists>ix'. rfold (link x l) ns ix = Inr ix' \<and> graph_ok ix' \<and> same_shape ix ix' \<and>
    (\<forall>j k. has_layer ix k j \<longrightarrow> nbrs ix' j k =
      (if k = l \<and> j = x then nbrs ix x l @ ns else if k = l \<and> j \<in> set ns then nbrs ix j l @ [x] else nbrs ix j k))"
  using assms
proof (induction ns arbitrary: ix)
  case (Cons n ns)
  obtain ix1 where 1: "link x l n ix = Inr ix1" "graph_ok ix1" "same_shape ix ix1"
      "\<forall>j k. has_layer ix k j \<longrightarrow> nbrs ix1 j k =
        (if k = l \<and> j = x then nbrs ix x l @ [n] else if k = l \<and> j = n then nbrs ix n l @ [x] else nbrs ix j k)"
    using link_ok [OF Cons.prems(1,2), of n] Cons.prems(3,4) by auto
  note D = same_shapeD(9) [OF 1(3)]
  have prems: "has_layer ix1 l x" "\<forall>m\<in>set ns. has_layer ix1 l m" "x \<notin> set ns" "distinct ns"
    using Cons.prems by (simp_all add: D)
  obtain ix2 where 2: "rfold (link x l) ns ix1 = Inr ix2" "graph_ok ix2" "same_shape ix1 ix2"
      "\<forall>j k. has_layer ix1 k j \<longrightarrow> nbrs ix2 j k =
        (if k = l \<and> j = x then nbrs ix1 x l @ ns else if k = l \<and> j \<in> set ns then nbrs ix1 j l @ [x] else nbrs ix1 j k)"
    using Cons.IH [OF 1(2) prems] by blast
  have "nbrs ix2 j k = (if k = l \<and> j = x then nbrs ix x l @ n # ns else if k = l \<and> j \<in> set (n # ns) then nbrs ix j l @ [x] else nbrs ix j k)"
    if j: "has_layer ix k j" for j k
    using j spec [OF spec [OF 1(4), of j], of k] spec [OF spec [OF 2(4), of j], of k] Cons.prems(4,5) unfolding D
    by auto
  then show ?case using 1(1) 2(1,2) same_shape_trans [OF 1(3) 2(3)] by auto
qed auto

section \<open>Shrinking\<close>

definition no_nan :: "hnsw_index \<Rightarrow> bool" where
  "no_nan ix \<longleftrightarrow> (\<forall>a\<in>set (hx_vectors ix). \<forall>b\<in>set (hx_vectors ix). hdistance (cfg_metric (hx_config ix)) a b \<noteq> NaN)"

lemma with_distances_ok:
  "\<forall>n\<in>set ns. n < length (hx_vectors ix) \<Longrightarrow>
     with_distances D ix c ns = Inr (map (\<lambda>n. (n, D c (hx_vectors ix ! n))) ns)"
  by (induction ns) auto

lemma shrink_ok:
  assumes g: "graph_ok ix" and i: "has_layer ix l i" and nn: "no_nan ix"
  shows "\<exists>ix'. shrink_connections l i ix = Inr ix' \<and> graph_ok ix' \<and> same_shape ix ix' \<and>
    length (nbrs ix' i l) \<le> max_conn ix l \<and>
    (\<forall>j k. has_layer ix k j \<and> (j \<noteq> i \<or> k \<noteq> l) \<longrightarrow> nbrs ix' j k = nbrs ix j k)"
proof (cases "length (nbrs ix i l) \<le> max_conn ix l")
  case True
  then show ?thesis using g i by (simp add: shrink_connections_def)
next
  case False
  let ?ns = "nbrs ix i l" and ?D = "hdistance (cfg_metric (hx_config ix))" and ?m = "max_conn ix l"
  let ?ds = "map (\<lambda>n. (n, ?D (hx_vectors ix ! i) (hx_vectors ix ! n))) ?ns"
  let ?s = "sort_by (\<lambda>a b. fle_total (snd a) (snd b)) ?ds"
  have n: "\<forall>n\<in>set ?ns. has_layer ix l n" using graph_okD(5) [OF g i] by blast
  then have v: "\<forall>n\<in>set ?ns. n < length (hx_vectors ix)" using graph_okD(2) [OF g] by blast
  have "\<forall>x\<in>set ?ds. snd x \<noteq> NaN" using nn v graph_okD(2) [OF g i] by (auto simp: no_nan_def)
  then have s: "sort_unwrap ?ds = Inr ?s" by (auto simp: sort_unwrap_def)
  have sub: "set (map fst (take ?m ?s)) \<subseteq> set ?ns" by (auto dest: in_set_takeD)
  then have hl: "\<forall>n\<in>set (map fst (take ?m ?s)). has_layer ix l n" using n by blast
  have "shrink_connections l i ix = Inr (set_edges i l (map fst (take ?m ?s)) ix)"
    using False i g s with_distances_ok [OF v] graph_okD(2) [OF g i] by (simp add: shrink_connections_def)
  then show ?thesis
    using set_edges_ok [OF g i hl] set_edges_shape [OF i] i by (auto simp: nbrs_set_edges [OF i])
qed

lemma rfold_shrink_ok:
  assumes "graph_ok ix" "\<forall>n\<in>set ns. has_layer ix l n" "no_nan ix"
  shows "\<exists>ix'. rfold (shrink_connections l) ns ix = Inr ix' \<and> graph_ok ix' \<and> same_shape ix ix' \<and>
    (\<forall>n\<in>set ns. length (nbrs ix' n l) \<le> max_conn ix l) \<and>
    (\<forall>j k. has_layer ix k j \<and> (j \<notin> set ns \<or> k \<noteq> l) \<longrightarrow> nbrs ix' j k = nbrs ix j k)"
  using assms
proof (induction ns arbitrary: ix rule: rev_induct)
  case Nil
  then show ?case by auto
next
  case (snoc n ns)
  have rs: "rfold f (xs @ [y]) s = rbind (rfold f xs s) (f y)" for f :: "nat \<Rightarrow> hnsw_index \<Rightarrow> hnsw_index result" and xs y s
    by (induction xs arbitrary: s) (auto simp: rbind_def split: sum.split)
  obtain ix1 where 1: "rfold (shrink_connections l) ns ix = Inr ix1" "graph_ok ix1" "same_shape ix ix1"
      "\<forall>n\<in>set ns. length (nbrs ix1 n l) \<le> max_conn ix l"
      "\<forall>j k. has_layer ix k j \<and> (j \<notin> set ns \<or> k \<noteq> l) \<longrightarrow> nbrs ix1 j k = nbrs ix j k"
    using snoc by force
  note D = same_shapeD [OF 1(3)]
  have "has_layer ix1 l n" "no_nan ix1" using snoc.prems by (simp_all add: D no_nan_def)
  from shrink_ok [OF 1(2) this] obtain ix2 where 2: "shrink_connections l n ix1 = Inr ix2" "graph_ok ix2" "same_shape ix1 ix2"
      "length (nbrs ix2 n l) \<le> max_conn ix1 l"
      "\<forall>j k. has_layer ix1 k j \<and> (j \<noteq> n \<or> k \<noteq> l) \<longrightarrow> nbrs ix2 j k = nbrs ix1 j k"
    by blast
  have "\<forall>m\<in>set (ns @ [n]). length (nbrs ix2 m l) \<le> max_conn ix l"
  proof
    fix m assume m: "m \<in> set (ns @ [n])"
    show "length (nbrs ix2 m l) \<le> max_conn ix l"
    proof (cases "m = n")
      case True
      then show ?thesis using 2(4) by (simp add: D)
    next
      case False
      then have "nbrs ix2 m l = nbrs ix1 m l" using 2(5) m snoc.prems(2) by (simp add: D)
      then show ?thesis using 1(4) m False by simp
    qed
  qed
  moreover have "\<forall>j k. has_layer ix k j \<and> (j \<notin> set (ns @ [n]) \<or> k \<noteq> l) \<longrightarrow> nbrs ix2 j k = nbrs ix j k"
    using 1(5) 2(5) unfolding D by auto
  ultimately show ?case using 1(1) 2(1,2) same_shape_trans [OF 1(3) 2(3)] by (auto simp: rs)
qed

section \<open>Connecting a new node\<close>

text \<open>Node \<open>x\<close> has no edges yet in the layers below \<open>k\<close>.\<close>

definition unlinked :: "hnsw_index \<Rightarrow> nat \<Rightarrow> nat \<Rightarrow> bool" where
  "unlinked ix x k \<longleftrightarrow> (\<forall>l < k. nbrs ix x l = [] \<and> \<not> reached ix l x)"

lemma connect_layer:
  assumes g: "graph_ok ix" and deg: "deg_ok ix" and nn: "no_nan ix" and x: "has_layer ix k x"
    and cur: "has_layer ix k cur" "cur \<noteq> x" and un: "unlinked ix x (Suc k)"
  shows "\<exists>nearest ix'. connect x q (k # ls) cur ix = connect x q ls (if nearest \<noteq> [] then hd nearest else cur) ix' \<and>
    graph_ok ix' \<and> deg_ok ix' \<and> same_shape ix ix' \<and> unlinked ix' x k \<and> (\<forall>n\<in>set nearest. has_layer ix k n \<and> n \<noteq> x)"
proof -
  obtain cs where cs: "search_layer ix cur q (ef_construction (hx_config ix)) k = Inr cs" "distinct (map fst cs)"
      "\<forall>(i, d)\<in>set cs. has_layer ix k i \<and> (i = cur \<or> reached ix k i)"
    using search_by_total [OF g cur(1), of "hdistance (cfg_metric (hx_config ix))" q "ef_construction (hx_config ix)"]
    unfolding search_layer_def by (fastforce simp: case_prod_beta)
  define ns where "ns = select_neighbors cs (max_conn ix k)"
  have ns: "\<forall>n\<in>set ns. has_layer ix k n" "x \<notin> set ns" "distinct ns" "length ns \<le> max_conn ix k"
    using cs(2,3) cur(2) un by (auto simp: ns_def select_neighbors_def unlinked_def distinct_map_take dest!: in_set_takeD)
  obtain ix1 where 1: "rfold (link x k) ns ix = Inr ix1" "graph_ok ix1" "same_shape ix ix1"
      "\<forall>j l. has_layer ix l j \<longrightarrow> nbrs ix1 j l =
        (if l = k \<and> j = x then nbrs ix x k @ ns else if l = k \<and> j \<in> set ns then nbrs ix j k @ [x] else nbrs ix j l)"
    using rfold_link_ok [OF g x ns(1-3)] by blast
  note D1 = same_shapeD [OF 1(3)]
  have "\<forall>n\<in>set ns. has_layer ix1 k n" "no_nan ix1" using ns(1) nn by (simp_all add: D1 no_nan_def)
  from rfold_shrink_ok [OF 1(2) this] obtain ix2 where 2: "rfold (shrink_connections k) ns ix1 = Inr ix2" "graph_ok ix2"
      "same_shape ix1 ix2" "\<forall>n\<in>set ns. length (nbrs ix2 n k) \<le> max_conn ix1 k"
      "\<forall>j l. has_layer ix1 l j \<and> (j \<notin> set ns \<or> l \<noteq> k) \<longrightarrow> nbrs ix2 j l = nbrs ix1 j l"
    by blast
  have sh: "same_shape ix ix2" using 1(3) 2(3) by (rule same_shape_trans)
  note D2 = same_shapeD [OF sh]
  have xk: "nbrs ix x k = []" using un by (simp add: unlinked_def)
  have nb: "nbrs ix2 j l = (if l = k \<and> j = x then ns else nbrs ix j l)" if "has_layer ix l j" "j \<notin> set ns \<or> l \<noteq> k" for j l
    using that 1(4) 2(5) xk unfolding D1 by auto
  have "length (nbrs ix2 j l) \<le> max_conn ix l" if "has_layer ix l j" for j l
  proof (cases "j \<in> set ns \<and> l = k")
    case True
    then show ?thesis using 2(4) by (simp add: D1)
  next
    case False
    then show ?thesis using nb [OF that] ns(4) deg that by (auto simp: deg_ok_def)
  qed
  then have "deg_ok ix2" by (simp add: deg_ok_def D2)
  moreover have "unlinked ix2 x k"
  proof -
    have "nbrs ix2 x l = [] \<and> \<not> reached ix2 l x" if l: "l < k" for l
    proof -
      have "has_layer ix l x" using x l by (auto intro: has_layer_less)
      moreover have "nbrs ix2 j l = nbrs ix j l" if "has_layer ix l j" for j using nb [OF that] l by simp
      ultimately show ?thesis using un l by (auto simp: unlinked_def reached_def D2)
    qed
    then show ?thesis by (simp add: unlinked_def)
  qed
  ultimately show ?thesis
    using cs(1) 1(1) 2(1,2) sh ns(1,2) by (intro exI [of _ ns] exI [of _ ix2]) (auto simp: Let_def ns_def [symmetric])
qed

lemma connect_ok:
  assumes "graph_ok ix" "deg_ok ix" "no_nan ix" "x < length (nodes ix)" "k \<le> layers ix x"
    "0 < k \<longrightarrow> has_layer ix (k - 1) cur" "cur \<noteq> x" "unlinked ix x k"
  shows "\<exists>ix'. connect x q (rev [0..<k]) cur ix = Inr ix' \<and> graph_ok ix' \<and> deg_ok ix' \<and> same_shape ix ix'"
  using assms
proof (induction k arbitrary: ix cur)
  case 0
  then show ?case by simp
next
  case (Suc k)
  have x: "has_layer ix k x" using Suc.prems(4,5) by (simp add: has_layer_def)
  have cur: "has_layer ix k cur" using Suc.prems(6) by simp
  obtain nearest ix1 where c: "connect x q (k # rev [0..<k]) cur ix =
        connect x q (rev [0..<k]) (if nearest \<noteq> [] then hd nearest else cur) ix1"
      "graph_ok ix1" "deg_ok ix1" "same_shape ix ix1" "unlinked ix1 x k" "\<forall>n\<in>set nearest. has_layer ix k n \<and> n \<noteq> x"
    using connect_layer [OF Suc.prems(1-3) x cur Suc.prems(7,8)] by blast
  note D = same_shapeD [OF c(4)]
  let ?cur = "if nearest \<noteq> [] then hd nearest else cur"
  have cur1: "has_layer ix k ?cur" "?cur \<noteq> x" using c(6) cur Suc.prems(7) by auto
  have "\<exists>ix'. connect x q (rev [0..<k]) ?cur ix1 = Inr ix' \<and> graph_ok ix' \<and> deg_ok ix' \<and> same_shape ix1 ix'"
  proof (rule Suc.IH [OF c(2,3)])
    show "no_nan ix1" using Suc.prems(3) by (simp add: no_nan_def D)
    show "x < length (nodes ix1)" using Suc.prems(4) by (simp add: D)
    show "k \<le> layers ix1 x" using Suc.prems(4,5) c(4) by (simp add: same_shape_def)
    show "0 < k \<longrightarrow> has_layer ix1 (k - 1) ?cur" using cur1(1) by (auto simp: D intro: has_layer_less)
  qed (use cur1(2) c(5) in auto)
  then show ?case using c(1) same_shape_trans [OF c(4)] by auto
qed

lemma descend_ok:
  assumes "graph_ok ix" "cur < length (nodes ix)" "t < layers ix cur" "\<forall>l\<in>set ls. t \<le> l" "cur \<noteq> x" "\<forall>l\<in>set ls. \<not> has_layer ix l x"
  shows "\<exists>c. descend q ls cur ix = Inr c \<and> has_layer ix t c \<and> c \<noteq> x"
  using assms(2-6)
proof (induction ls arbitrary: cur)
  case Nil
  then show ?case by (simp add: has_layer_def)
next
  case (Cons l ls)
  show ?case
  proof (cases "l < layers ix cur")
    case True
    then have hl: "has_layer ix l cur" using Cons.prems(1) by (simp add: has_layer_def)
    obtain c d where c: "greedy_search_layer ix cur q l = Inr (c, d)" "has_layer ix l c"
      using greedy_by_total [OF assms(1) hl] unfolding greedy_search_layer_def by blast
    have "c < length (nodes ix)" "t < layers ix c" using c(2) Cons.prems(3) by (auto simp: has_layer_def)
    moreover have "c \<noteq> x" using c(2) Cons.prems(5) by auto
    ultimately show ?thesis using Cons.IH [of c] Cons.prems True c(1) by simp
  next
    case False
    then show ?thesis using Cons by simp
  qed
qed

section \<open>Insert\<close>

lemma position_Some: "position x xs = Some i \<Longrightarrow> i < length xs \<and> xs ! i = x"
proof -
  assume "position x xs = Some i"
  then obtain ys where "filter (\<lambda>i. xs ! i = x) [0..<length xs] = i # ys" by (auto simp: position_def split: list.splits)
  then have "i \<in> set (filter (\<lambda>i. xs ! i = x) [0..<length xs])" by simp
  then show ?thesis unfolding set_filter by simp
qed

lemma position_None: "position x xs = None \<longleftrightarrow> x \<notin> set xs"
proof -
  have "position x xs = None \<longleftrightarrow> filter (\<lambda>i. xs ! i = x) [0..<length xs] = []" by (auto simp: position_def split: list.splits)
  then show ?thesis by (auto simp: filter_empty_conv in_set_conv_nth)
qed

lemma has_layer_add:
  "has_layer (add_node level vid q ix) l i \<longleftrightarrow> has_layer ix l i \<or> i = length (nodes ix) \<and> l \<le> level"
  by (auto simp: has_layer_def add_node_def nth_append split: if_splits)

lemma nbrs_add: "has_layer ix l i \<Longrightarrow> nbrs (add_node level vid q ix) i l = nbrs ix i l"
  "l \<le> level \<Longrightarrow> nbrs (add_node level vid q ix) (length (nodes ix)) l = []"
  by (cases l; auto simp: has_layer_def add_node_def nth_append)+

lemma entry_frame [simp]:
  "graph_ok (ix\<lparr>entry_point := e, max_layer := m\<rparr>) = graph_ok ix" "deg_ok (ix\<lparr>entry_point := e, max_layer := m\<rparr>) = deg_ok ix"
  "graph_ok (ix\<lparr>max_layer := m, entry_point := e\<rparr>) = graph_ok ix" "deg_ok (ix\<lparr>max_layer := m, entry_point := e\<rparr>) = deg_ok ix"
  by (simp_all add: graph_ok_def deg_ok_def has_layer_def max_conn_def)

lemma add_node_ok:
  assumes g: "graph_ok ix" and d: "deg_ok ix"
  shows "graph_ok (add_node level vid q ix)" "deg_ok (add_node level vid q ix)"
    "unlinked (add_node level vid q ix) (length (nodes ix)) (Suc level)"
proof -
  let ?ix = "add_node level vid q ix"
  have nb: "nbrs ?ix i l = (if has_layer ix l i then nbrs ix i l else [])" if "has_layer ?ix l i" for i l
    using that by (auto simp: has_layer_add nbrs_add)
  have len: "length (id_to_node ?ix) = length (nodes ?ix)" "length (hx_vectors ?ix) = length (nodes ?ix)"
      "length (deleted ?ix) = length (nodes ?ix)" "\<forall>i < length (nodes ?ix). 0 < layers ?ix i"
    using g by (auto simp: graph_ok_def add_node_def nth_append less_Suc_eq)
  have "\<forall>n\<in>set (nbrs ?ix i l). has_layer ?ix l n" if "has_layer ?ix l i" for i l
    using nb [OF that] graph_okD(5) [OF g] by (auto simp: has_layer_add split: if_splits)
  then show "graph_ok ?ix" using len unfolding graph_ok_def by blast
  have m: "max_conn ?ix = max_conn ix" by (simp add: max_conn_def add_node_def fun_eq_iff)
  show "deg_ok ?ix" unfolding deg_ok_def m using nb d by (simp add: deg_ok_def)
  have "\<not> reached ?ix l (length (nodes ix))" for l
    using nb graph_okD(1,5) [OF g] unfolding reached_def by (metis (no_types, lifting) empty_iff empty_set less_irrefl)
  then show "unlinked ?ix (length (nodes ix)) (Suc level)" by (simp add: unlinked_def nbrs_add)
qed

definition nan_free :: "hnsw_index \<Rightarrow> f32 list \<Rightarrow> bool" where
  "nan_free ix q \<longleftrightarrow> (\<forall>a\<in>insert q (set (hx_vectors ix)). \<forall>b\<in>insert q (set (hx_vectors ix)).
     hdistance (cfg_metric (hx_config ix)) a b \<noteq> NaN)"

lemma insert_new:
  assumes inv: "hnsw_inv ix" and v: "length v = hx_dim ix" and nn: "nan_free ix (map (fcast F32) v)" and new: "vid \<notin> set (id_to_node ix)"
  shows "\<exists>ix'. hnsw_insert L r vid v ix = Inr ix' \<and> hnsw_inv ix' \<and> id_to_node ix' = id_to_node ix @ [vid] \<and>
    hx_vectors ix' = hx_vectors ix @ [map (fcast F32) v] \<and> deleted ix' = deleted ix @ [False] \<and>
    hx_dim ix' = hx_dim ix \<and> hx_config ix' = hx_config ix"
proof -
  let ?q = "map (fcast F32) v" and ?n = "length (nodes ix)"
  define level where "level = random_level L r ix"
  define ix1 where "ix1 = add_node level vid ?q ix"
  have g: "graph_ok ix" and d: "deg_ok ix" and e: "entry_ok_ix ix" and ds: "distinct (id_to_node ix)"
    using inv by (auto simp: hnsw_inv_def)
  note ix1 = add_node_ok [OF g d, of level vid ?q, folded ix1_def]
  have f1: "hx_config ix1 = hx_config ix" "hx_dim ix1 = hx_dim ix" "id_to_node ix1 = id_to_node ix @ [vid]"
      "hx_vectors ix1 = hx_vectors ix @ [?q]" "deleted ix1 = deleted ix @ [False]" "length (nodes ix1) = Suc ?n"
      "layers ix1 ?n = Suc level" "\<forall>i < ?n. layers ix1 i = layers ix i" "max_layer ix1 = max_layer ix"
    by (simp_all add: ix1_def add_node_def nth_append)
  have nn1: "no_nan ix1" using nn by (simp add: no_nan_def nan_free_def f1)
  have ds1: "distinct (id_to_node ix1)" using ds new by (simp add: f1)
  have pos: "position vid (id_to_node ix) = None" using new by (simp add: position_None)
  show ?thesis
  proof (cases "?n = 0")
    case True
    have "entry_ok_ix (ix1\<lparr>entry_point := Some 0, max_layer := level\<rparr>)" using f1(6,7) True by (simp add: entry_ok_ix_def)
    moreover have "graph_ok (ix1\<lparr>entry_point := Some 0, max_layer := level\<rparr>)" "deg_ok (ix1\<lparr>entry_point := Some 0, max_layer := level\<rparr>)"
      using ix1(1,2) by simp_all
    moreover have "hnsw_insert L r vid v ix = Inr (ix1\<lparr>entry_point := Some 0, max_layer := level\<rparr>)"
      using True v pos by (simp add: hnsw_insert_def ix1_def add_node_def level_def Let_def)
    ultimately show ?thesis using ds1 f1 by (simp add: hnsw_inv_def)
  next
    case False
    obtain en where en: "entry_point ix = Some en" "en < ?n" "layers ix en = max_layer ix + 1"
      using e False by (auto simp: entry_ok_ix_def split: option.splits)
    let ?t = "min level (max_layer ix)"
    have en1: "en < length (nodes ix1)" "?t < layers ix1 en" using en f1 by auto
    have "\<exists>c. descend ?q (rev [level + 1..<max_layer ix + 1]) en ix1 = Inr c \<and> has_layer ix1 ?t c \<and> c \<noteq> ?n"
      by (rule descend_ok [OF ix1(1) en1]) (use en f1 in \<open>auto simp: has_layer_def\<close>)
    then obtain c where c: "descend ?q (rev [level + 1..<max_layer ix + 1]) en ix1 = Inr c" "has_layer ix1 ?t c" "c \<noteq> ?n" by blast
    have "\<exists>ix'. connect ?n ?q (rev [0..<Suc ?t]) c ix1 = Inr ix' \<and> graph_ok ix' \<and> deg_ok ix' \<and> same_shape ix1 ix'"
      by (rule connect_ok [OF ix1(1,2) nn1]) (use c f1 ix1(3) in \<open>auto simp: unlinked_def\<close>)
    then obtain ix2 where ix2: "connect ?n ?q (rev [0..<Suc ?t]) c ix1 = Inr ix2" "graph_ok ix2" "deg_ok ix2" "same_shape ix1 ix2" by blast
    note D = same_shapeD [OF ix2(4)]
    have lay: "\<forall>i < Suc ?n. layers ix2 i = layers ix1 i" using ix2(4) f1(6) by (simp add: same_shape_def)
    define ix3 where "ix3 = (if max_layer ix < level then ix2\<lparr>max_layer := level, entry_point := Some ?n\<rparr> else ix2)"
    have ins: "hnsw_insert L r vid v ix = Inr ix3"
      using False v pos en c(1) ix2(1) f1(8) unfolding hnsw_insert_def
      by (simp add: ix1_def [symmetric] level_def [symmetric] Let_def ix3_def f1(6) del: upt_Suc)
    have le: "\<forall>i < ?n. layers ix i \<le> max_layer ix + 1" using e by (simp add: entry_ok_ix_def)
    have "entry_ok_ix ix3"
      using en lay f1 D le unfolding entry_ok_ix_def ix3_def
      by (auto simp: less_Suc_eq ix1_def add_node_def) 
    moreover have "graph_ok ix3" "deg_ok ix3"
      using ix2(2,3) by (simp_all add: ix3_def)
    ultimately show ?thesis using ins ds1 f1 D by (simp add: hnsw_inv_def ix3_def)
  qed
qed


lemma vectors_frame [simp]:
  "length vs = length (hx_vectors ix) \<Longrightarrow> graph_ok (ix\<lparr>hx_vectors := vs\<rparr>) = graph_ok ix"
  "deg_ok (ix\<lparr>hx_vectors := vs\<rparr>) = deg_ok ix" "entry_ok_ix (ix\<lparr>hx_vectors := vs\<rparr>) = entry_ok_ix ix"
  by (simp_all add: graph_ok_def deg_ok_def has_layer_def max_conn_def entry_ok_ix_def split: option.split)

lemma insert_existing:
  assumes inv: "hnsw_inv ix" and v: "length v = hx_dim ix" and old: "id_to_node ix ! i = vid" "i < length (id_to_node ix)"
  shows "hnsw_insert L r vid v ix = Inr (ix\<lparr>hx_vectors := (hx_vectors ix)[i := map (fcast F32) v]\<rparr>)"
    "hnsw_inv (ix\<lparr>hx_vectors := (hx_vectors ix)[i := map (fcast F32) v]\<rparr>)"
proof -
  have ds: "distinct (id_to_node ix)" and len: "length (hx_vectors ix) = length (id_to_node ix)"
    using inv by (auto simp: hnsw_inv_def graph_ok_def)
  obtain j where j: "position vid (id_to_node ix) = Some j" using old position_None [of vid "id_to_node ix"] by (metis nth_mem option.exhaust)
  then have "j = i" using position_Some [OF j] old ds by (auto simp: nth_eq_iff_index_eq)
  then show "hnsw_insert L r vid v ix = Inr (ix\<lparr>hx_vectors := (hx_vectors ix)[i := map (fcast F32) v]\<rparr>)"
    using j v old len by (simp add: hnsw_insert_def)
  show "hnsw_inv (ix\<lparr>hx_vectors := (hx_vectors ix)[i := map (fcast F32) v]\<rparr>)"
    using inv by (simp add: hnsw_inv_def)
qed

section \<open>Search\<close>

lemma search_descend_ok:
  assumes "graph_ok ix" "has_layer ix k cur"
    and "\<And>c l. has_layer ix l c \<Longrightarrow> \<exists>c' d. g c l = Inr (c', d) \<and> has_layer ix l c'"
  shows "\<exists>c. search_descend g (rev [1..<Suc k]) cur = Inr c \<and> has_layer ix 0 c"
  using assms(2)
proof (induction k arbitrary: cur)
  case (Suc k)
  obtain c d where c: "g cur (Suc k) = Inr (c, d)" "has_layer ix (Suc k) c" using assms(3) Suc.prems by blast
  then have "has_layer ix k c" by (auto intro: has_layer_less)
  from Suc.IH [OF this] show ?case using c(1) by simp
qed simp

lemma drop_deleted_ok:
  "\<forall>(i, d)\<in>set cs. i < length (deleted ix) \<Longrightarrow> drop_deleted ix cs = Inr (filter (\<lambda>(i, d). \<not> deleted ix ! i) cs)"
  by (induction cs) auto

lemma external_ids_ok:
  "\<forall>(i, d)\<in>set cs. i < length (id_to_node ix) \<Longrightarrow> external_ids ix cs = Inr (map (\<lambda>(i, d). (id_to_node ix ! i, d)) cs)"
  by (induction cs) auto

text \<open>The distance a search uses: weighted when there is a mask.\<close>

definition search_dist :: "hnsw_index \<Rightarrow> weight_mask option \<Rightarrow> dist_fn" where
  "search_dist ix wm = (case wm of None \<Rightarrow> hdistance (cfg_metric (hx_config ix))
     | Some m \<Rightarrow> hdistance_weighted (cfg_metric (hx_config ix)) (mask_to_dense m (hx_dim ix)))"

lemma search_steps:
  "(case map_option (\<lambda>m. mask_to_dense m (hx_dim ix)) wm of Some w \<Rightarrow> greedy_search_layer_weighted ix c q l w
     | None \<Rightarrow> greedy_search_layer ix c q l) = greedy_by (search_dist ix wm) ix c q l"
  "(case map_option (\<lambda>m. mask_to_dense m (hx_dim ix)) wm of Some w \<Rightarrow> search_layer_weighted ix c q ef l w
     | None \<Rightarrow> search_layer ix c q ef l) = search_by (search_dist ix wm) ix c q ef l"
  by (simp_all add: search_dist_def greedy_search_layer_weighted_def greedy_search_layer_def
      search_layer_weighted_def search_layer_def split: option.split)

lemma search_result:
  assumes inv: "hnsw_inv ix" and q: "length query = hx_dim ix" and ne: "nodes ix \<noteq> []"
  obtains c cs where "has_layer ix 0 c" "search_by (search_dist ix wm) ix c (map (fcast F32) query) ef 0 = Inr cs"
    "hnsw_search ix query ef wm = sort_unwrap (map (\<lambda>(i, d). (id_to_node ix ! i, d)) (take ef (filter (\<lambda>(i, d). \<not> deleted ix ! i) cs)))"
    "distinct (map fst cs)"
    "\<forall>(i, d)\<in>set cs. has_layer ix 0 i \<and> d = dist_to (search_dist ix wm) ix (map (fcast F32) query) i"
proof -
  let ?q = "map (fcast F32) query" and ?D = "search_dist ix wm"
  have g: "graph_ok ix" using inv by (simp add: hnsw_inv_def)
  obtain en where en: "entry_point ix = Some en" "has_layer ix (max_layer ix) en"
    using inv ne by (auto simp: hnsw_inv_def entry_ok_ix_def has_layer_def split: option.splits)
  obtain c where c: "search_descend (\<lambda>c l. greedy_by ?D ix c ?q l) (rev [1..<Suc (max_layer ix)]) en = Inr c" "has_layer ix 0 c"
    using search_descend_ok [OF g en(2), of "\<lambda>c l. greedy_by ?D ix c ?q l"] greedy_by_total [OF g] by blast
  obtain cs where cs: "search_by ?D ix c ?q ef 0 = Inr cs" "distinct (map fst cs)"
      "\<forall>(i, d)\<in>set cs. has_layer ix 0 i \<and> d = dist_to ?D ix ?q i \<and> (i = c \<or> \<not> deleted ix ! i \<and> reached ix 0 i)"
    using search_by_total [OF g c(2)] by blast
  have del: "\<forall>(i, d)\<in>set cs. i < length (deleted ix)" and ids: "\<forall>(i, d)\<in>set cs. i < length (id_to_node ix)"
    using cs(3) graph_okD(3,4) [OF g] by fast+
  let ?live = "take ef (filter (\<lambda>(i, d). \<not> deleted ix ! i) cs)"
  have "set ?live \<subseteq> set cs" using set_take_subset [of ef "filter (\<lambda>(i, d). \<not> deleted ix ! i) cs"] by auto
  then have "\<forall>(i, d)\<in>set ?live. i < length (id_to_node ix)" using ids by blast
  then have "hnsw_search ix query ef wm = sort_unwrap (map (\<lambda>(i, d). (id_to_node ix ! i, d)) ?live)"
    using q ne en(1) c(1) cs(1) unfolding hnsw_search_def Let_def search_steps
    by (simp add: drop_deleted_ok [OF del] external_ids_ok del: upt_Suc)
  moreover have "\<forall>(i, d)\<in>set cs. has_layer ix 0 i \<and> d = dist_to ?D ix ?q i" using cs(3) by fast
  ultimately show thesis using that [OF c(2) cs(1) _ cs(2)] by blast
qed


lemma search_sound:
  assumes inv: "hnsw_inv ix" and q: "length query = hx_dim ix"
    and nn: "\<forall>v\<in>set (hx_vectors ix). search_dist ix wm v (map (fcast F32) query) \<noteq> NaN"
  shows "\<exists>rs. hnsw_search ix query ef wm = Inr rs \<and> length rs \<le> ef \<and> distinct (map fst rs) \<and>
    sorted_wrt (\<lambda>a b. \<not> flt (snd b) (snd a)) rs \<and>
    (\<forall>(vid, d)\<in>set rs. \<exists>i < hnsw_len ix. id_to_node ix ! i = vid \<and> \<not> deleted ix ! i \<and>
       d = search_dist ix wm (hx_vectors ix ! i) (map (fcast F32) query))"
proof (cases "nodes ix = []")
  case True
  then show ?thesis using q by (simp add: hnsw_search_def)
next
  case False
  let ?q = "map (fcast F32) query" and ?D = "search_dist ix wm"
  have g: "graph_ok ix" and ds: "distinct (id_to_node ix)" using inv by (auto simp: hnsw_inv_def)
  obtain c cs where "has_layer ix 0 c" "search_by ?D ix c ?q ef 0 = Inr cs" and cs: "hnsw_search ix query ef wm =
      sort_unwrap (map (\<lambda>(i, d). (id_to_node ix ! i, d)) (take ef (filter (\<lambda>(i, d). \<not> deleted ix ! i) cs)))"
      "distinct (map fst cs)" "\<forall>(i, d)\<in>set cs. has_layer ix 0 i \<and> d = dist_to ?D ix ?q i"
    by (rule search_result [OF inv q False])
  define live where "live = take ef (filter (\<lambda>(i, d). \<not> deleted ix ! i) cs)"
  define rs where "rs = map (\<lambda>(i, d). (id_to_node ix ! i, d)) live"
  have sub: "set live \<subseteq> {(i, d) \<in> set cs. \<not> deleted ix ! i}"
    using set_take_subset [of ef "filter (\<lambda>(i, d). \<not> deleted ix ! i) cs"] by (auto simp: live_def)
  have el: "\<exists>i < hnsw_len ix. id_to_node ix ! i = vid \<and> \<not> deleted ix ! i \<and> d = ?D (hx_vectors ix ! i) ?q" if "(vid, d) \<in> set rs" for vid d
    using that sub cs(3) graph_okD(1) [OF g] unfolding rs_def hnsw_len_def by fastforce
  have "\<forall>x\<in>set rs. snd x \<noteq> NaN"
  proof
    fix x assume "x \<in> set rs"
    then obtain i where "i < hnsw_len ix" "snd x = ?D (hx_vectors ix ! i) ?q" using el [of "fst x" "snd x"] by auto
    then show "snd x \<noteq> NaN" using nn g by (auto simp: hnsw_len_def graph_ok_def)
  qed
  note nnr = this
  let ?s = "sort_by (\<lambda>a b. fle_total (snd a) (snd b)) rs"
  have s: "hnsw_search ix query ef wm = Inr ?s" using cs(1) nnr by (auto simp: sort_unwrap_def rs_def live_def)
  have "sorted_wrt (\<lambda>a b. fle_total (snd a) (snd b)) ?s" using nnr by (intro asc_snd.sorted_sort_by) simp
  then have sorted: "sorted_wrt (\<lambda>a b. \<not> flt (snd b) (snd a)) ?s"
  proof (rule sorted_wrt_mono_rel [rotated])
    fix x y assume "x \<in> set ?s" "y \<in> set ?s" "fle_total (snd x) (snd y)"
    then show "\<not> flt (snd y) (snd x)" using bspec [OF nnr, of x] bspec [OF nnr, of y] by (simp add: fle_total_NaN)
  qed
  have "distinct (map fst live)" using cs(2) by (simp add: live_def distinct_map_take distinct_map_filter)
  moreover have "map fst rs = map (\<lambda>i. id_to_node ix ! i) (map fst live)" by (simp add: rs_def case_prod_beta comp_def)
  moreover have "inj_on (\<lambda>i. id_to_node ix ! i) (set (map fst live))"
  proof (rule inj_onI)
    have len: "i < length (id_to_node ix)" if "i \<in> set (map fst live)" for i
    proof -
      from that obtain d where "(i, d) \<in> set cs" using sub by auto
      then show ?thesis using cs(3) graph_okD(4) [OF g] by fast
    qed
    fix i j assume "i \<in> set (map fst live)" "j \<in> set (map fst live)" "id_to_node ix ! i = id_to_node ix ! j"
    then show "i = j" using nth_eq_iff_index_eq [OF ds len len] by blast
  qed
  ultimately have "distinct (map fst rs)" by (simp only: distinct_map)
  moreover have "mset (map fst ?s) = mset (map fst rs)" by (simp only: mset_map mset_sort_by)
  ultimately have "distinct (map fst ?s)" by (metis mset_eq_imp_distinct_iff)
  moreover have "length ?s \<le> ef" by (simp add: rs_def live_def)
  moreover have "\<forall>(vid, d)\<in>set ?s. \<exists>i < hnsw_len ix. id_to_node ix ! i = vid \<and> \<not> deleted ix ! i \<and> d = ?D (hx_vectors ix ! i) ?q"
    using el by auto
  ultimately show ?thesis using s sorted by blast
qed

lemma deleted_frame:
  "graph_ok (ix\<lparr>deleted := (deleted ix)[i := b]\<rparr>) = graph_ok ix" "deg_ok (ix\<lparr>deleted := ds\<rparr>) = deg_ok ix"
  "entry_ok_ix (ix\<lparr>deleted := ds\<rparr>) = entry_ok_ix ix"
  by (simp_all add: graph_ok_def deg_ok_def has_layer_def max_conn_def entry_ok_ix_def split: option.split)

section \<open>The contract of an index\<close>

text \<open>
  What the trait \<open>TopologicalIndex\<close> promises to the storage engine: operations keep the invariant, a removal takes its
  id out of the live ids and nothing else, and a search returns live ids only. So no search finds an
  id of a batch of removals, whatever errors the removals return.
\<close>

locale ann_index =
  fixes inv :: "'i \<Rightarrow> bool"
    and live :: "'i \<Rightarrow> 'k set"
    and rem :: "'k \<Rightarrow> 'i \<Rightarrow> 'i result"
    and srch :: "'i \<Rightarrow> 'q \<Rightarrow> ('k \<times> 'd) list result"
  assumes rem_ok: "inv i \<Longrightarrow> rem k i = Inr i' \<Longrightarrow> inv i' \<and> live i' = live i - {k}"
    and rem_err: "inv i \<Longrightarrow> rem k i = Inl e \<Longrightarrow> k \<notin> live i"
    and srch_live: "inv i \<Longrightarrow> srch i q = Inr rs \<Longrightarrow> fst ` set rs \<subseteq> live i"
begin

lemma batch_removed: "inv i \<Longrightarrow> inv (fold (or_keep rem) ks i) \<and> live (fold (or_keep rem) ks i) = live i - set ks"
proof (induction ks arbitrary: i)
  case (Cons k ks)
  have "inv (or_keep rem k i) \<and> live (or_keep rem k i) = live i - {k}"
    using Cons.prems rem_ok [of i k] rem_err [of i k] by (cases "rem k i") (auto simp: or_keep_def)
  with Cons.IH [of "or_keep rem k i"] show ?case by auto
qed simp

lemma removed_gone: "inv i \<Longrightarrow> srch (fold (or_keep rem) ks i) q = Inr rs \<Longrightarrow> fst ` set rs \<inter> set ks = {}"
  using batch_removed [of i ks] srch_live by fastforce

end

definition live_ids :: "hnsw_index \<Rightarrow> vector_id set" where
  "live_ids ix = {id_to_node ix ! i | i. i < hnsw_len ix \<and> \<not> deleted ix ! i}"

lemma remove_live:
  assumes "hnsw_inv ix" "hnsw_remove vid ix = Inr ix'"
  shows "hnsw_inv ix' \<and> live_ids ix' = live_ids ix - {vid}"
proof -
  obtain i where i: "position vid (id_to_node ix) = Some i" "ix' = ix\<lparr>deleted := (deleted ix)[i := True]\<rparr>" "i < length (deleted ix)"
    using assms(2) by (auto simp: hnsw_remove_def index_at_def split: option.splits if_splits)
  note p = position_Some [OF i(1)]
  have ds: "distinct (id_to_node ix)" and len: "length (id_to_node ix) = length (nodes ix)" "length (deleted ix) = length (nodes ix)"
    using assms(1) by (auto simp: hnsw_inv_def graph_ok_def)
  have "live_ids ix' = live_ids ix - {vid}"
    using p ds len by (auto simp: live_ids_def i(2) hnsw_len_def nth_list_update nth_eq_iff_index_eq split: if_splits)
  moreover have "hnsw_inv ix'" using assms(1) by (simp add: hnsw_inv_def i(2) deleted_frame)
  ultimately show ?thesis by simp
qed

lemma search_live:
  assumes "hnsw_inv ix" "hnsw_search ix query ef wm = Inr rs"
  shows "fst ` set rs \<subseteq> live_ids ix"
proof (cases "nodes ix = []")
  case True
  then show ?thesis using assms(2) by (auto simp: hnsw_search_def split: if_splits)
next
  case False
  have q: "length query = hx_dim ix" using assms(2) by (auto simp: hnsw_search_def split: if_splits)
  have g: "graph_ok ix" using assms(1) by (auto simp: hnsw_inv_def)
  obtain c cs where "has_layer ix 0 c" "search_by (search_dist ix wm) ix c (map (fcast F32) query) ef 0 = Inr cs"
    and cs: "hnsw_search ix query ef wm =
      sort_unwrap (map (\<lambda>(i, d). (id_to_node ix ! i, d)) (take ef (filter (\<lambda>(i, d). \<not> deleted ix ! i) cs)))"
      "distinct (map fst cs)" "\<forall>(i, d)\<in>set cs. has_layer ix 0 i \<and> d = dist_to (search_dist ix wm) ix (map (fcast F32) query) i"
    by (rule search_result [OF assms(1) q False])
  have e: "set rs = (\<lambda>(i, d). (id_to_node ix ! i, d)) ` set (take ef (filter (\<lambda>(i, d). \<not> deleted ix ! i) cs))"
    using cs(1) assms(2) by (auto simp: sort_unwrap_def split: if_splits)
  show ?thesis
  proof
    fix k assume "k \<in> fst ` set rs"
    then obtain i d where "(i, d) \<in> set (take ef (filter (\<lambda>(i, d). \<not> deleted ix ! i) cs))" "k = id_to_node ix ! i"
      unfolding e by auto
    then have i: "(i, d) \<in> set cs" "\<not> deleted ix ! i" "k = id_to_node ix ! i" by (auto dest!: in_set_takeD)
    then have "i < hnsw_len ix" using cs(3) graph_okD(1) [OF g] unfolding hnsw_len_def by fast
    then show "k \<in> live_ids ix" using i by (auto simp: live_ids_def)
  qed
qed

interpretation hx: ann_index hnsw_inv live_ids hnsw_remove "\<lambda>ix (query, ef, wm). hnsw_search ix query ef wm"
proof
  fix i k i' assume "hnsw_inv i" "hnsw_remove k i = Inr i'"
  then show "hnsw_inv i' \<and> live_ids i' = live_ids i - {k}" by (rule remove_live)
next
  fix i k e assume i: "hnsw_inv i" and e: "hnsw_remove k i = Inl e"
  then have "k \<notin> set (id_to_node i)"
    by (auto simp: hnsw_remove_def index_at_def hnsw_inv_def graph_ok_def position_None [symmetric]
        split: option.splits if_splits dest: position_Some)
  then show "k \<notin> live_ids i" using i by (auto simp: live_ids_def hnsw_len_def hnsw_inv_def graph_ok_def)
next
  fix i and q :: "f64 list \<times> nat \<times> weight_mask option" and rs
  assume "hnsw_inv i" "(case q of (query, ef, wm) \<Rightarrow> hnsw_search i query ef wm) = Inr rs"
  then show "fst ` set rs \<subseteq> live_ids i" by (cases q) (auto dest: search_live)
qed

lemma search_never_deleted:
  assumes "hnsw_inv ix" "id_to_node ix ! i = vid" "i < hnsw_len ix" "deleted ix ! i"
    "hnsw_search ix query ef wm = Inr rs"
  shows "vid \<notin> fst ` set rs"
proof -
  have "distinct (id_to_node ix)" "length (id_to_node ix) = hnsw_len ix" using assms(1) by (auto simp: hnsw_inv_def graph_ok_def hnsw_len_def)
  then have "vid \<notin> live_ids ix" using assms(2-4) by (auto simp: live_ids_def nth_eq_iff_index_eq)
  then show ?thesis using search_live [OF assms(1,5)] by blast
qed

section \<open>Properties\<close>

lemma hnsw_insert_ok:
  assumes "hnsw_inv ix" and "nan_free ix (map (fcast F32) v)"
  shows "if length v \<noteq> hx_dim ix then hnsw_insert L r vid v ix = Inl (DimensionMismatch (length v) (hx_dim ix))
    else \<exists>ix'. hnsw_insert L r vid v ix = Inr ix' \<and> hnsw_inv ix' \<and> set (id_to_node ix') = insert vid (set (id_to_node ix)) \<and>
      (\<forall>i < hnsw_len ix'. hx_vectors ix' ! i = (if id_to_node ix' ! i = vid then map (fcast F32) v else hx_vectors ix ! i))"
proof (cases "length v = hx_dim ix \<and> vid \<in> set (id_to_node ix)")
  case True
  then obtain i where i: "i < length (id_to_node ix)" "id_to_node ix ! i = vid" by (auto simp: in_set_conv_nth)
  have "length (hx_vectors ix) = length (nodes ix)" "length (id_to_node ix) = length (nodes ix)" "distinct (id_to_node ix)"
    using assms(1) by (auto simp: hnsw_inv_def graph_ok_def)
  then show ?thesis using True i insert_existing(1) [OF assms(1) _ i(2,1), where v = v and L = L and r = r]
      insert_existing(2) [OF assms(1) _ i(2,1), where v = v]
    by (auto simp: hnsw_len_def nth_list_update nth_eq_iff_index_eq)
next
  case False
  show ?thesis
  proof (cases "length v = hx_dim ix")
    case True
    then have new: "vid \<notin> set (id_to_node ix)" using False by simp
    obtain ix' where ix': "hnsw_insert L r vid v ix = Inr ix'" "hnsw_inv ix'" "id_to_node ix' = id_to_node ix @ [vid]"
        "hx_vectors ix' = hx_vectors ix @ [map (fcast F32) v]"
      using insert_new [OF assms(1) True assms(2) new, of L r] by blast
    have len: "hnsw_len ix' = Suc (length (id_to_node ix))" "length (hx_vectors ix) = length (id_to_node ix)"
      using ix'(2,3) assms(1) by (auto simp: hnsw_inv_def graph_ok_def hnsw_len_def)
    then have "\<forall>i < hnsw_len ix'. hx_vectors ix' ! i = (if id_to_node ix' ! i = vid then map (fcast F32) v else hx_vectors ix ! i)"
      using new by (auto simp: ix'(3,4) nth_append less_Suc_eq)
    then show ?thesis using True ix' by simp
  qed (simp add: hnsw_insert_def)
qed

text \<open>
  C14. Insert keeps the graph well-formed, and it does not panic as long as no distance is NaN. In a well-formed index (all parallel vectors of one
  length, every edge of a layer leads to a node that has the layer, degrees within the configured bounds, the
  entry point on the top layer, distinct ids) and when no distance is NaN, insert rejects vectors of a wrong
  dimension and otherwise returns a well-formed index that holds exactly the old ids and the new one, with
  the new vector stored for it and all other vectors unchanged. This holds for every random
  level. Without the condition on the distances the sorts of the neighbours may panic: a component beyond the range of \<open>f32\<close> becomes infinite, and its product with 0 is NaN.
\<close>

theorem hnsw_insert_spec:
  assumes "hnsw_inv ix" and "nan_free ix (map (fcast F32) v)"
  shows "if length v \<noteq> hx_dim ix then hnsw_insert L r vid v ix = Inl (DimensionMismatch (length v) (hx_dim ix))
    else \<exists>ix'. hnsw_insert L r vid v ix = Inr ix' \<and> hnsw_inv ix' \<and> set (id_to_node ix') = insert vid (set (id_to_node ix)) \<and>
      (\<forall>i < hnsw_len ix'. hx_vectors ix' ! i = (if id_to_node ix' ! i = vid then map (fcast F32) v else hx_vectors ix ! i))"
  by (rule hnsw_insert_ok [OF assms])

definition tiny_config :: hnsw_config where
  "tiny_config = \<lparr>cfg_m = 2, cfg_m_max0 = 4, ef_construction = 8, cfg_ml = Num 1, cfg_metric = Euclidean\<rparr>"

lemma hnsw_inv_new [simp]: "hnsw_inv (hnsw_new d cfg)"
  by (simp add: hnsw_inv_def hnsw_new_def graph_ok_def deg_ok_def has_layer_def entry_ok_ix_def)

theorem hnsw_insert_spec_witness:
  "\<exists>ix'. hnsw_insert \<lparr>lm_ln = \<lambda>_. Num (- 1), lm_log2 = \<lambda>_. Num 0\<rparr> (Num 0) 7 [Num 0] (hnsw_new 1 tiny_config) = Inr ix' \<and>
     hnsw_inv ix' \<and> set (id_to_node ix') = {7}"
proof -
  have "hdistance Euclidean [Num 0] [Num 0] \<noteq> NaN"
    by (simp add: fsub_def fround_def round_mag_def fzero_def fmul_def fsum_def)
  then have "nan_free (hnsw_new 1 tiny_config) (map (fcast F32) [Num 0])"
    by (simp add: nan_free_def hnsw_new_def tiny_config_def fround_def round_mag_def fzero_def)
  from hnsw_insert_spec [OF hnsw_inv_new this, of "\<lparr>lm_ln = \<lambda>_. Num (- 1), lm_log2 = \<lambda>_. Num 0\<rparr>" "Num 0" 7]
  show ?thesis by (auto simp: hnsw_new_def)
qed

text \<open>
  C15. Search is sound: in a well-formed index, for a query of its dimension whose distance to no stored vector is NaN, it does not panic and
  returns at most \<open>ef\<close> results in ascending order of distance, with distinct ids, each of them the id of a
  stored vector that is not deleted, with its distance to the query (weighted if there is a mask).
\<close>

theorem hnsw_search_sound:
  assumes "hnsw_inv ix" and "length query = hx_dim ix"
    and "\<forall>v\<in>set (hx_vectors ix). search_dist ix wm v (map (fcast F32) query) \<noteq> NaN"
  shows "\<exists>rs. hnsw_search ix query ef wm = Inr rs \<and> length rs \<le> ef \<and> distinct (map fst rs) \<and>
    sorted_wrt (\<lambda>a b. \<not> flt (snd b) (snd a)) rs \<and>
    (\<forall>(vid, d)\<in>set rs. \<exists>i < hnsw_len ix. id_to_node ix ! i = vid \<and> \<not> deleted ix ! i \<and>
       d = search_dist ix wm (hx_vectors ix ! i) (map (fcast F32) query))"
  by (rule search_sound [OF assms])

text \<open>A one-node index, as insert builds it.\<close>

definition one_node :: "bool \<Rightarrow> hnsw_index" where
  "one_node del = (hnsw_new 1 tiny_config)\<lparr>nodes := [\<lparr>edges = [[]]\<rparr>], id_to_node := [7], hx_vectors := [[Num 0]],
     entry_point := Some 0, deleted := [del]\<rparr>"

lemma one_node_inv: "hnsw_inv (one_node del)"
  by (simp add: hnsw_inv_def one_node_def hnsw_new_def graph_ok_def deg_ok_def has_layer_def entry_ok_ix_def)


theorem hnsw_search_sound_witness:
  "\<exists>rs. hnsw_search (one_node False) [Num 0] 3 None = Inr rs \<and> length rs \<le> 3 \<and> distinct (map fst rs)"
proof -
  have "\<forall>v\<in>set (hx_vectors (one_node False)). search_dist (one_node False) None v (map (fcast F32) [Num 0]) \<noteq> NaN"
    by (simp add: search_dist_def one_node_def tiny_config_def hnsw_new_def fsub_def fround_def round_mag_def fzero_def fmul_def fsum_def)
  moreover have "length [Num 0] = hx_dim (one_node False)" by (simp add: one_node_def hnsw_new_def)
  ultimately show ?thesis using hnsw_search_sound [OF one_node_inv, of "[Num 0]" False None 3] by blast
qed

text \<open>
  C16. Removing an id that the index does not hold is an error; otherwise the index stays well-formed, keeps its
  size, and no later search returns the id.
\<close>

theorem hnsw_remove_spec:
  assumes "hnsw_inv ix"
  shows "if vid \<in> set (id_to_node ix)
    then \<exists>ix'. hnsw_remove vid ix = Inr ix' \<and> hnsw_inv ix' \<and> hnsw_len ix' = hnsw_len ix \<and>
      (\<forall>query ef wm rs. hnsw_search ix' query ef wm = Inr rs \<longrightarrow> vid \<notin> fst ` set rs)
    else \<exists>msg. hnsw_remove vid ix = Inl (NotFound msg)"
proof (cases "position vid (id_to_node ix)")
  case None
  then show ?thesis using position_None [of vid "id_to_node ix"] by (simp add: hnsw_remove_def)
next
  case (Some i)
  have i: "i < length (id_to_node ix)" "id_to_node ix ! i = vid" using position_Some [OF Some] by auto
  have len: "length (id_to_node ix) = length (nodes ix)" "length (deleted ix) = length (nodes ix)"
    using assms by (auto simp: hnsw_inv_def graph_ok_def)
  let ?ix = "ix\<lparr>deleted := (deleted ix)[i := True]\<rparr>"
  have inv: "hnsw_inv ?ix" using assms by (simp add: hnsw_inv_def deleted_frame)
  have "hnsw_remove vid ix = Inr ?ix" using Some i len by (simp add: hnsw_remove_def)
  moreover have "vid \<notin> fst ` set rs" if "hnsw_search ?ix query ef wm = Inr rs" for query ef wm rs
    by (rule search_never_deleted [OF inv _ _ _ that, of i]) (use i len in \<open>auto simp: hnsw_len_def\<close>)
  ultimately show ?thesis using inv i by (auto simp: hnsw_len_def)
qed

theorem hnsw_remove_spec_witness:
  "\<exists>ix'. hnsw_remove 7 (one_node False) = Inr ix' \<and> hnsw_inv ix' \<and> hnsw_len ix' = 1"
  using hnsw_remove_spec [where ix = "one_node False" and vid = 7, OF one_node_inv] by (auto simp: one_node_def hnsw_len_def hnsw_new_def)

text \<open>
  A batch of removals is complete: after removing any ids one after the other, with errors ignored, no search
  returns any of them.
\<close>

lemma hnsw_removed_gone:
  assumes "hnsw_inv ix" and "hnsw_search (fold (or_keep hnsw_remove) vids ix) query ef wm = Inr rs"
  shows "fst ` set rs \<inter> set vids = {}"
  using hx.removed_gone [OF assms(1), of vids "(query, ef, wm)"] assms(2) by simp

text \<open>
  A removed id stays hidden after it is inserted again: insert replaces the stored vector but leaves the tombstone,
  so no search returns the id.
\<close>

lemma hnsw_reinsert_stays_deleted:
  assumes "hnsw_inv ix" and "hnsw_remove vid ix = Inr ix1" and "hnsw_insert L r vid v ix1 = Inr ix2"
    and "hnsw_search ix2 query ef wm = Inr rs"
  shows "vid \<notin> fst ` set rs"
proof -
  obtain i where i: "position vid (id_to_node ix) = Some i" "ix1 = ix\<lparr>deleted := (deleted ix)[i := True]\<rparr>" "i < length (deleted ix)"
    using assms(2) by (auto simp: hnsw_remove_def index_at_def split: option.splits if_splits)
  note p = position_Some [OF i(1)]
  have len: "length (id_to_node ix) = length (nodes ix)" using assms(1) by (auto simp: hnsw_inv_def graph_ok_def)
  have inv1: "hnsw_inv ix1" using assms(1) by (simp add: hnsw_inv_def i(2) deleted_frame)
  have v: "length v = hx_dim ix1" using assms(3) by (auto simp: hnsw_insert_def split: if_splits)
  have old: "id_to_node ix1 ! i = vid" "i < length (id_to_node ix1)" using p by (auto simp: i(2))
  have ix2: "ix2 = ix1\<lparr>hx_vectors := (hx_vectors ix1)[i := map (fcast F32) v]\<rparr>" "hnsw_inv ix2"
    using insert_existing(1) [OF inv1 v old, where L = L and r = r] insert_existing(2) [OF inv1 v old] assms(3) by auto
  show ?thesis
    by (rule search_never_deleted [OF ix2(2) _ _ _ assms(4), of i]) (use p i len in \<open>auto simp: ix2(1) i(2) hnsw_len_def\<close>)
qed

text \<open>
  C17. The greedy descent of a layer ends at a local optimum: in a well-formed graph it reaches a node of the layer that
  is not farther from the query than the start and has no live neighbour in the layer that is closer.
\<close>

theorem greedy_search_local_optimum:
  assumes "graph_ok ix" and "has_layer ix layer start"
  shows "\<exists>c. greedy_search_layer ix start q layer = Inr (c, hdistance (cfg_metric (hx_config ix)) (hx_vectors ix ! c) q) \<and>
    has_layer ix layer c \<and>
    (let D = (\<lambda>i. hdistance (cfg_metric (hx_config ix)) (hx_vectors ix ! i) q)
     in (D c = D start \<or> flt (D c) (D start)) \<and> (\<forall>n\<in>set (nbrs ix c layer). \<not> deleted ix ! n \<longrightarrow> \<not> flt (D n) (D c)))"
  using greedy_by_total [OF assms, of "hdistance (cfg_metric (hx_config ix))" q] by (auto simp: greedy_search_layer_def Let_def)

theorem greedy_search_local_optimum_witness:
  "\<exists>c. greedy_search_layer (one_node False) 0 [Num 0] 0 = Inr (c, hdistance Euclidean (hx_vectors (one_node False) ! c) [Num 0])"
  using greedy_search_local_optimum [of "one_node False" 0 0 "[Num 0]"] one_node_inv [of False]
  by (auto simp: hnsw_inv_def has_layer_def one_node_def hnsw_new_def tiny_config_def)

text \<open>
  C18. Saving an index and loading the bytes into any index restores it, except for the metric, which the loading
  index keeps; other version prefixes are rejected. The encoding of the snapshot decodes to it.
\<close>

theorem hnsw_save_load:
  assumes "sn_serialize B (snapshot_of ix) = Inr bs" and "sn_deserialize B bs = Inr (snapshot_of ix)"
  shows "\<exists>data. hnsw_save B ix = Inr data \<and>
    hnsw_load B data ix0 = Inr (ix\<lparr>hx_config := (hx_config ix)\<lparr>cfg_metric := cfg_metric (hx_config ix0)\<rparr>\<rparr>) \<and>
    (\<forall>w rest. w \<noteq> 1 \<longrightarrow> (\<exists>msg. hnsw_load B (u32_to_le_bytes w @ rest) ix0 = Inl (GraphCorrupt msg)))"
proof -
  have "map (\<lambda>es. \<lparr>edges = es\<rparr>) (map edges (nodes ix)) = nodes ix" by (simp add: map_idI)
  then show ?thesis using assms by (cases ix; cases ix0) (auto simp: hnsw_save_def hnsw_load_def snapshot_of_def map_idI)
qed


theorem hnsw_save_load_witness:
  "\<exists>data. hnsw_save \<lparr>sn_serialize = \<lambda>_. Inr [], sn_deserialize = \<lambda>_. Inr (snapshot_of (one_node False))\<rparr> (one_node False) = Inr data \<and>
     hnsw_load \<lparr>sn_serialize = \<lambda>_. Inr [], sn_deserialize = \<lambda>_. Inr (snapshot_of (one_node False))\<rparr> data (hnsw_new 5 tiny_config) =
       Inr (one_node False)"
  using hnsw_save_load [of "\<lparr>sn_serialize = \<lambda>_. Inr [], sn_deserialize = \<lambda>_. Inr (snapshot_of (one_node False))\<rparr>" "one_node False" "[]"
      "hnsw_new 5 tiny_config"]
  by (auto simp: one_node_def hnsw_new_def)

end
