(* ===== verification/Merkle.thy ===== *)
theory Merkle
  imports Core_Types Wal
begin

text \<open>
  The progressive Merkle tree of \<open>tesseract-index/src/merkle\<close>: the hot buffer that absorbs inserts, the nodes with
  their Blake3 hashes, and the tree with its batch insertion, search and persistence.

  Blake3 is a parameter \<open>B\<close> from byte strings to digests; several \<open>update\<close> calls hash the concatenation.
  The bytes of a float are computed from its value (one NaN pattern). Additions of \<open>u64\<close> wrap. The
  splitting loop of a batch insertion may run forever (a maximum cluster size of 0), so the insertion
  returns an option, whose \<open>None\<close> is \<open>does not return\<close>; a panic is an error value.
\<close>

section \<open>The hot buffer\<close>

record buffered_vector =
  bv_id :: u64
  bv_vector :: "f32 list"
  bv_metadata :: json

record hot_buffer =
  hb_vectors :: "buffered_vector list"
  hb_capacity :: nat
  hb_merging :: bool

definition hb_new :: "nat \<Rightarrow> hot_buffer" where
  "hb_new capacity = \<lparr>hb_vectors = [], hb_capacity = capacity, hb_merging = False\<rparr>"

definition hb_len :: "hot_buffer \<Rightarrow> nat" where
  "hb_len b = length (hb_vectors b)"

definition hb_is_full :: "hot_buffer \<Rightarrow> bool" where
  "hb_is_full b \<longleftrightarrow> hb_capacity b \<le> length (hb_vectors b)"

definition hb_insert :: "u64 \<Rightarrow> f32 list \<Rightarrow> json \<Rightarrow> hot_buffer \<Rightarrow> bool \<times> hot_buffer" where
  "hb_insert vid vector metadata b =
     (let b' = b\<lparr>hb_vectors := hb_vectors b @ [\<lparr>bv_id = vid, bv_vector = vector, bv_metadata = metadata\<rparr>]\<rparr>
      in (hb_is_full b', b'))"

text \<open>The product of two \<open>f32\<close> vectors and the sort by distance, shared by the searches below.\<close>

definition dot32 :: "f32 list \<Rightarrow> f32 list \<Rightarrow> f32" where
  "dot32 a b = fsum F32 (map (\<lambda>(x, y). fmul F32 x y) (zip a b))"

definition nearest_first :: "nat \<Rightarrow> (u64 \<times> f32) list \<Rightarrow> (u64 \<times> f32) list" where
  "nearest_first k rs = take k (sort_by (\<lambda>a b. fle_total (snd a) (snd b)) rs)"

definition hb_search :: "hot_buffer \<Rightarrow> f32 list \<Rightarrow> nat \<Rightarrow> (u64 \<times> f32) list" where
  "hb_search b query k =
     (if hb_vectors b = [] \<or> k = 0 then []
      else nearest_first k (map (\<lambda>bv. (bv_id bv, fsub F32 (Num 1) (dot32 (bv_vector bv) query))) (hb_vectors b)))"

definition hb_drain :: "hot_buffer \<Rightarrow> buffered_vector list \<times> hot_buffer" where
  "hb_drain b = (hb_vectors b, b\<lparr>hb_vectors := []\<rparr>)"

section \<open>Nodes\<close>

text \<open>\<open>Leaf centroid cluster_id count hash\<close> and \<open>Internal hash left right centroid count\<close>.\<close>

datatype merkle_node =
    Leaf "f32 list" u64 u64 "u8 list"
  | Internal "u8 list" merkle_node merkle_node "f32 list" u64

fun node_centroid :: "merkle_node \<Rightarrow> f32 list" where
  "node_centroid (Leaf c _ _ _) = c"
| "node_centroid (Internal _ _ _ c _) = c"

fun node_hash :: "merkle_node \<Rightarrow> u8 list" where
  "node_hash (Leaf _ _ _ h) = h"
| "node_hash (Internal h _ _ _ _) = h"

fun node_count :: "merkle_node \<Rightarrow> u64" where
  "node_count (Leaf _ _ n _) = n"
| "node_count (Internal _ _ _ _ n) = n"

fun node_cluster_id :: "merkle_node \<Rightarrow> u64 option" where
  "node_cluster_id (Leaf _ i _ _) = Some i"
| "node_cluster_id (Internal _ _ _ _ _) = None"

fun collect_leaves :: "merkle_node \<Rightarrow> merkle_node list" where
  "collect_leaves (Leaf c i n h) = [Leaf c i n h]"
| "collect_leaves (Internal _ l r _ _) = collect_leaves l @ collect_leaves r"

text \<open>
  \<open>f32::to_le_bytes\<close>. With \<open>u\<close> the exponent of the last place, a finite value is \<open>m * 2 ^ u\<close> and its
  bit pattern without the sign is \<open>(u + 149) * 2 ^ 23 + m\<close>, for normal and subnormal values alike.
\<close>

fun f32_to_bits :: "f32 \<Rightarrow> u32" where
  "f32_to_bits NaN = 0x7FC00000"
| "f32_to_bits (Infty s) = (if s then 0xFF800000 else 0x7F800000)"
| "f32_to_bits NZero = 0x80000000"
| "f32_to_bits (Num q) =
     (if q = 0 then 0
      else let u = ulp_exp F32 \<bar>q\<bar>
           in word_of_int ((if q < 0 then 2 ^ 31 else 0) + (u + 149) * 2 ^ 23 + \<lfloor>\<bar>q\<bar> / pow2 u\<rfloor>))"

definition f32_to_le_bytes :: "f32 \<Rightarrow> u8 list" where
  "f32_to_le_bytes x = u32_to_le_bytes (f32_to_bits x)"

definition leaf_bytes :: "f32 list \<Rightarrow> u64 \<Rightarrow> u64 \<Rightarrow> u8 list" where
  "leaf_bytes c n i = concat (map f32_to_le_bytes c) @ u64_to_le_bytes n @ u64_to_le_bytes i"

type_synonym blake3 = "u8 list \<Rightarrow> u8 list"

fun recompute_hash :: "blake3 \<Rightarrow> merkle_node \<Rightarrow> merkle_node" where
  "recompute_hash B (Leaf c i n _) = Leaf c i n (B (leaf_bytes c n i))"
| "recompute_hash B (Internal _ l r c n) = Internal (B (node_hash l @ node_hash r)) l r c n"

definition norm32 :: "f32 list \<Rightarrow> f32" where
  "norm32 v = fsqrt F32 (fsum F32 (map (\<lambda>x. fmul F32 x x) v))"

definition centroid_distance :: "merkle_node \<Rightarrow> f32 list \<Rightarrow> f32" where
  "centroid_distance nd query =
     (let c = node_centroid nd; qn = norm32 query; cn = norm32 c
      in if feq qn (Num 0) \<or> feq cn (Num 0) then Num 1
         else fsub F32 (Num 1) (fdiv F32 (dot32 query c) (fmul F32 qn cn)))"

section \<open>The tree\<close>

record merkle_tree =
  mt_root :: "merkle_node option"
  next_cluster_id :: u64
  max_cluster_size :: nat
  mt_path :: "string option"

definition mt_new :: "nat \<Rightarrow> merkle_tree" where
  "mt_new mx = \<lparr>mt_root = None, next_cluster_id = 1, max_cluster_size = mx, mt_path = None\<rparr>"

definition mt_with_path :: "nat \<Rightarrow> string \<Rightarrow> merkle_tree" where
  "mt_with_path mx p = (mt_new mx)\<lparr>mt_path := Some p\<rparr>"

definition mt_set_path :: "string \<Rightarrow> merkle_tree \<Rightarrow> merkle_tree" where
  "mt_set_path p t = t\<lparr>mt_path := Some p\<rparr>"

definition mt_leaves :: "merkle_tree \<Rightarrow> merkle_node list" where
  "mt_leaves t = (case mt_root t of None \<Rightarrow> [] | Some r \<Rightarrow> collect_leaves r)"

definition num_centroids :: "merkle_tree \<Rightarrow> nat" where
  "num_centroids t = length (mt_leaves t)"

text \<open>\<open>min_by\<close> returns the first of several minimal elements.\<close>

fun min_by_dist :: "('a \<times> f32) list \<Rightarrow> ('a \<times> f32) option" where
  "min_by_dist [] = None"
| "min_by_dist (x # xs) = Some (foldl (\<lambda>a b. if fle_total (snd a) (snd b) then a else b) x xs)"

definition leaf_distances :: "merkle_node list \<Rightarrow> f32 list \<Rightarrow> (u64 \<times> f32) list" where
  "leaf_distances leaves v =
     List.map_filter (\<lambda>l. map_option (\<lambda>i. (i, centroid_distance l v)) (node_cluster_id l)) leaves"

definition find_nearest_in_leaves :: "merkle_node list \<Rightarrow> f32 list \<Rightarrow> (u64 \<times> f32) option" where
  "find_nearest_in_leaves leaves v = min_by_dist (leaf_distances leaves v)"

text \<open>Element-wise update of a vector by a second one, as long as both have elements.\<close>

fun zip_into :: "('a \<Rightarrow> 'b \<Rightarrow> 'a) \<Rightarrow> 'a list \<Rightarrow> 'b list \<Rightarrow> 'a list" where
  "zip_into f (c # cs) (s # ss) = f c s # zip_into f cs ss"
| "zip_into f cs _ = cs"

text \<open>Phase 1: one vector of the batch. The state is the new leaves, the sums, the additions, the next id.\<close>

type_synonym batch_state = "merkle_node list \<times> (u64 \<times> f32 list) list \<times> (u64 \<times> u64) list \<times> u64"

definition assign_vector :: "nat \<Rightarrow> merkle_node list \<Rightarrow> buffered_vector \<Rightarrow> batch_state \<Rightarrow> batch_state" where
  "assign_vector d leaves bv = (\<lambda>(new, csums, adds, nid).
     if length (bv_vector bv) \<noteq> d then (new, csums, adds, nid)
     else case find_nearest_in_leaves leaves (bv_vector bv) of
       Some (cid, _) \<Rightarrow>
         let n = (case map_of adds cid of None \<Rightarrow> 0 | Some n \<Rightarrow> n);
             s = (case map_of csums cid of None \<Rightarrow> replicate d (Num 0) | Some s \<Rightarrow> s)
         in (new, AList.update cid (zip_into (fadd F32) s (bv_vector bv)) csums, AList.update cid (n + 1) adds, nid)
     | None \<Rightarrow> (new @ [Leaf (bv_vector bv) nid 1 (replicate 32 0)], csums, adds, nid + 1))"

text \<open>Phase 2: the existing leaves take the accumulated sums.\<close>

fun update_leaves :: "(u64 \<times> u64) list \<Rightarrow> (u64 \<times> f32 list) list \<Rightarrow> merkle_node list \<Rightarrow> merkle_node list result" where
  "update_leaves adds csums [] = Inr []"
| "update_leaves adds csums (Leaf c i n h # ls) =
     (case map_of adds i of
        None \<Rightarrow> rbind (update_leaves adds csums ls) (\<lambda>ls'. Inr (Leaf c i n h # ls'))
      | Some a \<Rightarrow> (case map_of csums i of
          None \<Rightarrow> Inl Panic
        | Some s \<Rightarrow>
            let c' = zip_into (\<lambda>x y. fdiv F32 (fadd F32 (fmul F32 x (fof_int F32 (uint n))) y) (fof_int F32 (uint (n + a)))) c s
            in rbind (update_leaves adds (AList.delete i csums) ls) (\<lambda>ls'. Inr (Leaf c' i (n + a) h # ls'))))"
| "update_leaves adds csums (Internal h l r c n # ls) =
     rbind (update_leaves adds csums ls) (\<lambda>ls'. Inr (Internal h l r c n # ls'))"

definition split_centroid :: "f32 list \<Rightarrow> f32 list \<times> f32 list" where
  "split_centroid c = (let epsilon = flit F32 (1 / 100)
     in (map (\<lambda>x. fadd F32 x epsilon) c, map (\<lambda>x. fsub F32 x epsilon) c))"

text \<open>Phase 4: one pass over the leaves, and the loop that repeats it until nothing is split.\<close>

fun split_pass :: "blake3 \<Rightarrow> nat \<Rightarrow> merkle_node list \<Rightarrow> u64 \<Rightarrow> bool \<times> merkle_node list \<times> u64" where
  "split_pass B mx [] nid = (False, [], nid)"
| "split_pass B mx (Leaf c i n h # ls) nid =
     (if mx < unat n
      then let (c1, c2) = split_centroid c;
               leaf1 = recompute_hash B (Leaf c1 nid (n div 2) (replicate 32 0));
               leaf2 = recompute_hash B (Leaf c2 (nid + 1) (n - n div 2) (replicate 32 0));
               (_, out, nid') = split_pass B mx ls (nid + 2)
           in (True, leaf1 # leaf2 # out, nid')
      else let (again, out, nid') = split_pass B mx ls nid in (again, Leaf c i n h # out, nid'))"
| "split_pass B mx (Internal h l r c n # ls) nid =
     (let (again, out, nid') = split_pass B mx ls nid in (again, Internal h l r c n # out, nid'))"

partial_function (option) split_loop :: "blake3 \<Rightarrow> nat \<Rightarrow> merkle_node list \<Rightarrow> u64 \<Rightarrow> (merkle_node list \<times> u64) option" where
  "split_loop B mx ls nid = (case split_pass B mx ls nid of (again, ls', nid') \<Rightarrow>
     if again then split_loop B mx ls' nid' else Some (ls', nid'))"

definition weighted_average :: "f32 list \<Rightarrow> u64 \<Rightarrow> f32 list \<Rightarrow> u64 \<Rightarrow> f32 list" where
  "weighted_average a na b nb =
     (let total = fof_int F32 (uint (na + nb))
      in map (\<lambda>(x, y). fdiv F32 (fadd F32 (fmul F32 x (fof_int F32 (uint na))) (fmul F32 y (fof_int F32 (uint nb)))) total)
           (zip a b))"

definition join_nodes :: "blake3 \<Rightarrow> merkle_node \<Rightarrow> merkle_node \<Rightarrow> merkle_node" where
  "join_nodes B l r = recompute_hash B (Internal (replicate 32 0) l r
     (weighted_average (node_centroid l) (node_count l) (node_centroid r) (node_count r)) (node_count l + node_count r))"

fun build_level :: "blake3 \<Rightarrow> merkle_node list \<Rightarrow> merkle_node list" where
  "build_level B (l # r # ns) = join_nodes B l r # build_level B ns"
| "build_level B ns = ns"

lemma length_build_level: "length (build_level B ns) = (length ns + 1) div 2"
  by (induction ns rule: build_level.induct [of "\<lambda>B ns. length (build_level B ns) = (length ns + 1) div 2"]) auto

function build_loop :: "blake3 \<Rightarrow> merkle_node list \<Rightarrow> merkle_node list" where
  "build_loop B ns = (if 1 < length ns then build_loop B (build_level B ns) else ns)"
  by auto
termination
  by (relation "measure (\<lambda>(B, ns). length ns)") (auto simp: length_build_level)

declare build_loop.simps [simp del]

definition id_key :: "merkle_node \<Rightarrow> u64" where
  "id_key nd = (case node_cluster_id nd of Some i \<Rightarrow> i | None \<Rightarrow> - 1)"

definition build_tree :: "blake3 \<Rightarrow> merkle_node list \<Rightarrow> merkle_node option" where
  "build_tree B leaves =
     (if leaves = [] then None else Some (hd (build_loop B (sort_by (\<lambda>a b. id_key a \<le> id_key b) leaves))))"

definition insert_batch :: "blake3 \<Rightarrow> buffered_vector list \<Rightarrow> merkle_tree \<Rightarrow> merkle_tree result option" where
  "insert_batch B vs t =
     (if vs = [] then Some (Inr t)
      else let d = length (bv_vector (hd vs)); leaves = mt_leaves t;
               (new, csums, adds, nid) = fold (assign_vector d leaves) vs ([], [], [], next_cluster_id t)
           in case update_leaves adds csums leaves of
                Inl e \<Rightarrow> Some (Inl e)
              | Inr upd \<Rightarrow> map_option
                  (\<lambda>(ls, nid'). Inr (t\<lparr>mt_root := build_tree B ls, next_cluster_id := nid'\<rparr>))
                  (split_loop B (max_cluster_size t) (map (recompute_hash B) (upd @ new)) nid))"

definition find_nearest_cluster :: "merkle_tree \<Rightarrow> f32 list \<Rightarrow> u64 option" where
  "find_nearest_cluster t v = map_option fst (min_by_dist (leaf_distances (mt_leaves t) v))"

definition mt_search :: "merkle_tree \<Rightarrow> f32 list \<Rightarrow> nat \<Rightarrow> (u64 \<times> f32) list" where
  "mt_search t query k = (if k = 0 then [] else nearest_first k (leaf_distances (mt_leaves t) query))"

text \<open>Persistence: the bincode form of the snapshot is a parameter, a file is its bytes.\<close>

type_synonym tree_snapshot = "merkle_node option \<times> u64 \<times> nat"

record tree_codec =
  tc_serialize :: "tree_snapshot \<Rightarrow> u8 list result"
  tc_deserialize :: "u8 list \<Rightarrow> tree_snapshot result"

definition mt_save :: "tree_codec \<Rightarrow> merkle_tree \<Rightarrow> u8 list result" where
  "mt_save K t = tc_serialize K (mt_root t, next_cluster_id t, max_cluster_size t)"

definition mt_load :: "tree_codec \<Rightarrow> string \<Rightarrow> u8 list option \<Rightarrow> merkle_tree result" where
  "mt_load K p contents = (case contents of None \<Rightarrow> Inl IoError
     | Some bytes \<Rightarrow> rbind (tc_deserialize K bytes) (\<lambda>(r, nid, mx).
         Inr \<lparr>mt_root = r, next_cluster_id = nid, max_cluster_size = mx, mt_path = Some p\<rparr>))"

section \<open>Well-formed trees\<close>

text \<open>
  Every hash is the hash of the node's content, and every internal node holds the aggregate of its children.
\<close>

fun node_ok :: "blake3 \<Rightarrow> merkle_node \<Rightarrow> bool" where
  "node_ok B (Leaf c i n h) \<longleftrightarrow> h = B (leaf_bytes c n i)"
| "node_ok B (Internal h l r c n) \<longleftrightarrow> node_ok B l \<and> node_ok B r \<and> h = B (node_hash l @ node_hash r) \<and>
     n = node_count l + node_count r \<and> c = weighted_average (node_centroid l) (node_count l) (node_centroid r) (node_count r)"

fun is_leaf :: "merkle_node \<Rightarrow> bool" where
  "is_leaf (Leaf _ _ _ _) = True"
| "is_leaf (Internal _ _ _ _ _) = False"

definition vector_total :: "merkle_node list \<Rightarrow> nat" where
  "vector_total ls = (\<Sum>l\<leftarrow>ls. unat (node_count l))"

text \<open>The clusters: leaves that are not empty, with distinct ids that were handed out already.\<close>

definition clusters_ok :: "u64 \<Rightarrow> merkle_node list \<Rightarrow> bool" where
  "clusters_ok nid ls \<longleftrightarrow> (\<forall>l\<in>set ls. is_leaf l \<and> node_count l \<noteq> 0 \<and> id_key l < nid) \<and> distinct (map id_key ls)"

definition merkle_inv :: "blake3 \<Rightarrow> merkle_tree \<Rightarrow> bool" where
  "merkle_inv B t \<longleftrightarrow> clusters_ok (next_cluster_id t) (mt_leaves t) \<and> sorted (map id_key (mt_leaves t)) \<and>
     (\<forall>l\<in>set (mt_leaves t). unat (node_count l) \<le> max_cluster_size t) \<and>
     (\<forall>r. mt_root t = Some r \<longrightarrow> node_ok B r)"

lemma id_key_Leaf [simp]: "id_key (Leaf c i n h) = i"
  by (simp add: id_key_def)

lemma is_leafE: "is_leaf l \<Longrightarrow> (\<And>c i n h. l = Leaf c i n h \<Longrightarrow> P) \<Longrightarrow> P"
  by (cases l) auto

lemma recompute_hash_leaf [simp]:
  "is_leaf (recompute_hash B l) = is_leaf l" "node_count (recompute_hash B l) = node_count l"
  "id_key (recompute_hash B l) = id_key l"
  by (cases l; simp add: id_key_def)+

lemma recompute_hash_ok: "is_leaf l \<Longrightarrow> node_ok B (recompute_hash B l)"
  by (cases l) auto

lemma vector_total_simps [simp]:
  "vector_total [] = 0" "vector_total (l # ls) = unat (node_count l) + vector_total ls"
  "vector_total (xs @ ys) = vector_total xs + vector_total ys"
  by (simp_all add: vector_total_def)

lemma vector_total_map [simp]: "(\<And>l. node_count (f l) = node_count l) \<Longrightarrow> vector_total (map f ls) = vector_total ls"
  by (induction ls) auto

lemma vector_total_mset: "mset xs = mset ys \<Longrightarrow> vector_total xs = vector_total ys"
  unfolding vector_total_def by (metis mset_map sum_mset_sum_list)

lemma length_le_vector_total: "\<forall>l\<in>set ls. node_count l \<noteq> 0 \<Longrightarrow> length ls \<le> vector_total ls"
proof (induction ls)
  case (Cons l ls)
  then have "0 < unat (node_count l)" by (simp add: unat_gt_0)
  with Cons show ?case by simp
qed simp

section \<open>Building the tree\<close>

lemma join_nodes_ok [simp]: "node_ok B l \<Longrightarrow> node_ok B r \<Longrightarrow> node_ok B (join_nodes B l r)"
  "collect_leaves (join_nodes B l r) = collect_leaves l @ collect_leaves r"
  by (simp_all add: join_nodes_def)

lemma build_level_ok:
  "\<forall>n\<in>set ns. node_ok B n \<Longrightarrow> \<forall>n\<in>set (build_level B ns). node_ok B n"
  "concat (map collect_leaves (build_level B ns)) = concat (map collect_leaves ns)"
  by (induction B ns rule: build_level.induct) auto

lemma build_loop_ok:
  "ns \<noteq> [] \<Longrightarrow> \<forall>n\<in>set ns. node_ok B n \<Longrightarrow>
     \<exists>r. build_loop B ns = [r] \<and> node_ok B r \<and> collect_leaves r = concat (map collect_leaves ns)"
proof (induction B ns rule: build_loop.induct)
  case (1 B ns)
  show ?case
  proof (cases "1 < length ns")
    case True
    then have "build_level B ns \<noteq> []" using length_build_level [of B ns] by auto
    then show ?thesis using 1 True build_level_ok [where B = B and ns = ns] by (simp add: build_loop.simps [of B ns])
  next
    case False
    with 1 obtain n where "ns = [n]" by (cases ns) auto
    then show ?thesis using 1(3) by (simp add: build_loop.simps [of B "[n]"])
  qed
qed

lemma collect_leaves_of_leaves: "\<forall>l\<in>set ls. is_leaf l \<Longrightarrow> concat (map collect_leaves ls) = ls"
  by (induction ls) (auto elim: is_leafE)

interpretation by_cluster: ranking "\<lambda>a b. id_key a \<le> id_key b" "\<lambda>_. True"
  by unfold_locales auto

lemma build_tree_ok:
  assumes "\<forall>l\<in>set ls. is_leaf l \<and> node_ok B l"
  shows "(case build_tree B ls of None \<Rightarrow> [] | Some r \<Rightarrow> collect_leaves r) = sort_by (\<lambda>a b. id_key a \<le> id_key b) ls"
    and "build_tree B ls = Some r \<Longrightarrow> node_ok B r"
proof -
  let ?s = "sort_by (\<lambda>a b. id_key a \<le> id_key b) ls"
  have "\<exists>r. build_loop B ?s = [r] \<and> node_ok B r \<and> collect_leaves r = ?s" if "ls \<noteq> []"
    using build_loop_ok [of ?s B] collect_leaves_of_leaves [of ?s] assms that by auto
  then show "(case build_tree B ls of None \<Rightarrow> [] | Some r \<Rightarrow> collect_leaves r) = ?s"
    and "build_tree B ls = Some r \<Longrightarrow> node_ok B r" by (auto simp: build_tree_def split: if_splits)
qed

section \<open>Splitting\<close>

lemma halves: "unat (n div 2) + unat (n - n div 2) = unat (n :: u64)"
  "2 \<le> unat n \<Longrightarrow> n div 2 \<noteq> 0 \<and> n - n div 2 \<noteq> 0"
proof -
  have u: "unat (n div 2) = unat n div 2" by (simp add: unat_div)
  then have le: "n div 2 \<le> n" by (simp add: word_le_nat_alt)
  then have s: "unat (n - n div 2) = unat n - unat n div 2" using u by (simp add: unat_sub)
  show "unat (n div 2) + unat (n - n div 2) = unat n" using u s by simp
  show "n div 2 \<noteq> 0 \<and> n - n div 2 \<noteq> 0" if "2 \<le> unat n"
  proof -
    have "0 < unat (n div 2)" "0 < unat (n - n div 2)" using u s that by linarith+
    then show ?thesis by (simp add: unat_gt_0)
  qed
qed

text \<open>What one pass does: it keeps the total, every new cluster gets a fresh id, and no leaf becomes empty.\<close>

lemma split_pass_total: 
  "split_pass B mx ls nid = (again, out, nid') \<Longrightarrow> vector_total out = vector_total ls"
  by (induction B mx ls nid arbitrary: again out nid' rule: split_pass.induct)
    (auto simp: halves(1) split: if_splits prod.splits)

lemma split_pass_no_split:
  "split_pass B mx ls nid = (False, out, nid') \<Longrightarrow> \<forall>l\<in>set ls. is_leaf l \<Longrightarrow> out = ls \<and> nid' = nid \<and> (\<forall>l\<in>set ls. unat (node_count l) \<le> mx)"
  by (induction B mx ls nid arbitrary: out nid' rule: split_pass.induct)
    (auto split: if_splits prod.splits)

abbreviation kept :: "nat \<Rightarrow> merkle_node list \<Rightarrow> merkle_node list" where
  "kept mx ls \<equiv> filter (\<lambda>l. unat (node_count l) \<le> mx) ls"

lemma split_pass_kept: "split_pass B mx ls nid = (again, out, nid') \<Longrightarrow> set (kept mx ls) \<subseteq> set out"
proof (induction ls arbitrary: nid again out nid')
  case (Cons l ls)
  show ?case
  proof (cases l)
    case (Leaf c i n h)
    obtain c1 c2 where c: "split_centroid c = (c1, c2)" by fastforce
    obtain a1 o1 n1 a2 o2 n2 where p: "split_pass B mx ls nid = (a1, o1, n1)" "split_pass B mx ls (nid + 2) = (a2, o2, n2)" by (metis prod_cases3)
    show ?thesis using Cons.IH [OF p(1)] Cons.IH [OF p(2)] Cons.prems p Leaf c by (auto split: if_splits)
  next
    case (Internal h a b c n)
    obtain a1 o1 n1 where p: "split_pass B mx ls nid = (a1, o1, n1)" by (metis prod_cases3)
    show ?thesis using Cons.IH [OF p] Cons.prems p Internal by auto
  qed
qed simp

lemma split_pass_small: "\<forall>l\<in>set ls. is_leaf l \<and> unat (node_count l) \<le> mx \<Longrightarrow> split_pass B mx ls nid = (False, ls, nid)"
  by (induction B mx ls nid rule: split_pass.induct) auto

lemma split_pass_step:
  assumes "split_pass B mx ls nid = (again, out, nid')" and "1 \<le> mx"
    and "\<forall>l\<in>set ls. is_leaf l \<and> node_count l \<noteq> 0 \<and> node_ok B l"
    and "unat nid + 2 * (vector_total ls - length ls) < 2 ^ 64"
    and "distinct (map id_key ls)" and "\<forall>l\<in>set ls. id_key l < lo" and "lo \<le> nid"
  shows "length ls \<le> length out \<and> (again \<longrightarrow> length ls < length out) \<and>
    unat nid' = unat nid + 2 * (length out - length ls) \<and>
    (\<forall>l\<in>set out. is_leaf l \<and> node_count l \<noteq> 0 \<and> node_ok B l) \<and>
    id_key ` set out \<subseteq> id_key ` set (kept mx ls) \<union> {nid..<nid'} \<and> distinct (map id_key out)"
  using assms
proof (induction ls arbitrary: nid again out nid')
  case (Cons l ls)
  obtain c i n h where l: "l = Leaf c i n h" using Cons.prems(3) by (auto elim: is_leafE)
  have len: "length ls \<le> vector_total ls" using Cons.prems(3) by (intro length_le_vector_total) auto
  have n0: "1 \<le> unat n" using Cons.prems(3) l by (simp add: Suc_le_eq unat_gt_0)
  show ?case
  proof (cases "mx < unat n")
    case False
    obtain ag out1 where p: "split_pass B mx ls nid = (ag, out1, nid')" "again = ag" "out = l # out1"
      using Cons.prems(1) False l by (auto split: prod.splits)
    have b: "unat nid + 2 * (vector_total ls - length ls) < 2 ^ 64" using Cons.prems(4) n0 l len by simp
    note IH = Cons.IH [OF p(1) Cons.prems(2) _ b _ _ Cons.prems(7)]
    have r: "length ls \<le> length out1 \<and> (ag \<longrightarrow> length ls < length out1) \<and>
        unat nid' = unat nid + 2 * (length out1 - length ls) \<and>
        (\<forall>l\<in>set out1. is_leaf l \<and> node_count l \<noteq> 0 \<and> node_ok B l) \<and>
        id_key ` set out1 \<subseteq> id_key ` set (kept mx ls) \<union> {nid..<nid'} \<and> distinct (map id_key out1)"
      by (rule IH) (use Cons.prems in auto)
    have "id_key l \<notin> id_key ` set ls" "id_key l \<notin> {nid..<nid'}" using Cons.prems(5-7) by auto
    then have "id_key l \<notin> id_key ` set out1" using r by (auto dest!: subsetD)
    with r show ?thesis using p Cons.prems(3) False l by auto
  next
    case True
    obtain c1 c2 where sc: "split_centroid c = (c1, c2)" by fastforce
    obtain ag out1 where p: "split_pass B mx ls (nid + 2) = (ag, out1, nid')" "again"
      "out = recompute_hash B (Leaf c1 nid (n div 2) (replicate 32 0)) #
             recompute_hash B (Leaf c2 (nid + 1) (n - n div 2) (replicate 32 0)) # out1"
      using Cons.prems(1) True l sc by (auto split: prod.splits)
    have n2: "2 \<le> unat n" using True Cons.prems(2) by simp
    have w: "unat nid + 2 + 2 * (vector_total ls - length ls) < 2 ^ 64" using Cons.prems(4) n2 l len by simp
    then have u1: "unat (nid + 1) = unat nid + 1" and u2: "unat (nid + 2) = unat nid + 2"
      by (simp_all add: unat_word_ariths)
    then have b: "unat (nid + 2) + 2 * (vector_total ls - length ls) < 2 ^ 64" and lo: "lo \<le> nid + 2"
      using w Cons.prems(7) by (simp_all add: word_le_nat_alt)
    have r: "length ls \<le> length out1 \<and> (ag \<longrightarrow> length ls < length out1) \<and>
        unat nid' = unat (nid + 2) + 2 * (length out1 - length ls) \<and>
        (\<forall>l\<in>set out1. is_leaf l \<and> node_count l \<noteq> 0 \<and> node_ok B l) \<and>
        id_key ` set out1 \<subseteq> id_key ` set (kept mx ls) \<union> {nid + 2..<nid'} \<and> distinct (map id_key out1)"
      by (rule Cons.IH [OF p(1) Cons.prems(2) _ b _ _ lo]) (use Cons.prems in auto)
    have f1: "nid \<notin> id_key ` set ls" "nid + 1 \<notin> id_key ` set ls"
      using Cons.prems(6,7) u1 by (auto simp: word_less_nat_alt word_le_nat_alt)
    have f2: "nid \<notin> {nid + 2..<nid'}" "nid + 1 \<notin> {nid + 2..<nid'}" "nid \<noteq> nid + 1"
      using u1 u2 by (auto simp: word_less_nat_alt word_le_nat_alt)
    have f3: "{nid + 2..<nid'} \<subseteq> {nid..<nid'}" "nid \<in> {nid..<nid'}" "nid + 1 \<in> {nid..<nid'}"
      using u1 u2 r by (auto simp: word_less_nat_alt word_le_nat_alt)
    have sub: "id_key ` set out1 \<subseteq> id_key ` set (kept mx ls) \<union> {nid + 2..<nid'}" using r by blast
    have "id_key ` set (kept mx ls) \<subseteq> id_key ` set (kept mx (l # ls))" by auto
    then have "id_key ` set out1 \<subseteq> id_key ` set (kept mx (l # ls)) \<union> {nid..<nid'}"
      by (rule order_trans [OF sub Un_mono [OF _ f3(1)]])
    moreover have "id_key ` set out = insert nid (insert (nid + 1) (id_key ` set out1))" using p(3) by simp
    ultimately have "id_key ` set out \<subseteq> id_key ` set (kept mx (l # ls)) \<union> {nid..<nid'}"
      using f3(2,3) by (simp only: insert_subset Un_iff simp_thms)
    moreover have "nid \<notin> id_key ` set out1" "nid + 1 \<notin> id_key ` set out1" using sub f1 f2 by (auto dest!: subsetD)
    then have "distinct (map id_key out)" using r p(3) f2(3) by simp
    moreover have "\<forall>l\<in>set out. is_leaf l \<and> node_count l \<noteq> 0 \<and> node_ok B l"
      using r p(3) halves(2) [OF n2] by simp
    ultimately show ?thesis using r p(2,3) u2 by (simp add: Suc_diff_le)
  qed
qed simp

lemma split_loop_ok:
  assumes "1 \<le> mx" and "clusters_ok nid ls" and "\<forall>l\<in>set ls. node_ok B l"
    and "unat nid + 2 * (vector_total ls - length ls) < 2 ^ 64"
  shows "\<exists>out nid'. split_loop B mx ls nid = Some (out, nid') \<and> clusters_ok nid' out \<and> (\<forall>l\<in>set out. node_ok B l) \<and>
    vector_total out = vector_total ls \<and> (\<forall>l\<in>set out. unat (node_count l) \<le> mx) \<and>
    set (kept mx ls) \<subseteq> set out \<and> id_key ` set out \<subseteq> id_key ` set (kept mx ls) \<union> {nid..}"
  using assms
proof (induction "vector_total ls - length ls" arbitrary: ls nid rule: less_induct)
  case less
  obtain again out nid1 where p: "split_pass B mx ls nid = (again, out, nid1)" using prod_cases3 by blast
  note tot = split_pass_total [OF p]
  have ok: "\<forall>l\<in>set ls. is_leaf l \<and> node_count l \<noteq> 0 \<and> node_ok B l" "distinct (map id_key ls)" "\<forall>l\<in>set ls. id_key l < nid"
    using less.prems(2,3) by (auto simp: clusters_ok_def)
  note st = split_pass_step [OF p less.prems(1) ok(1) less.prems(4) ok(2,3) order_refl]
  show ?case
  proof (cases again)
    case False
    with p have "split_pass B mx ls nid = (False, out, nid1)" by simp
    then have "out = ls \<and> nid1 = nid \<and> (\<forall>l\<in>set ls. unat (node_count l) \<le> mx)"
      by (rule split_pass_no_split) (use ok(1) in blast)
    then show ?thesis using False p less.prems(2,3) by (subst split_loop.simps) auto
  next
    case True
    have le: "length out \<le> vector_total out" using st by (intro length_le_vector_total) auto
    have lt: "vector_total out - length out < vector_total ls - length ls" using st True tot le by linarith
    have n1: "nid \<le> nid1" using st by (simp add: word_le_nat_alt)
    then have "id_key ` set (kept mx ls) \<union> {nid..<nid1} \<subseteq> {..<nid1}" using ok(3) by auto
    then have "id_key ` set out \<subseteq> {..<nid1}" using st by blast
    then have cl: "clusters_ok nid1 out" using st by (auto simp: clusters_ok_def)
    have nk: "\<forall>l\<in>set out. node_ok B l" using st by blast
    have bd: "unat nid1 + 2 * (vector_total out - length out) < 2 ^ 64" using st less.prems(4) tot le by linarith
    from less.hyps [OF lt less.prems(1) cl nk bd] obtain out' nid' where o: "split_loop B mx out nid1 = Some (out', nid')" "clusters_ok nid' out'" "\<forall>l\<in>set out'. node_ok B l"
        "vector_total out' = vector_total out" "\<forall>l\<in>set out'. unat (node_count l) \<le> mx"
        "set (kept mx out) \<subseteq> set out'" "id_key ` set out' \<subseteq> id_key ` set (kept mx out) \<union> {nid1..}"
      by (elim exE conjE) (rule that)
    have "set (kept mx ls) \<subseteq> set out'" using split_pass_kept [OF p] o(6) by auto
    moreover have "id_key ` set (kept mx out) \<union> {nid1..} \<subseteq> id_key ` set (kept mx ls) \<union> {nid..}"
    proof -
      have "id_key ` set out \<subseteq> id_key ` set (kept mx ls) \<union> {nid..<nid1}" using st by blast
      then have "id_key ` set out \<subseteq> id_key ` set (kept mx ls) \<union> {nid..}" by (rule order_trans) auto
      then have "id_key ` set (kept mx out) \<subseteq> id_key ` set (kept mx ls) \<union> {nid..}" by (rule order_trans [rotated]) (rule image_mono, simp)
      moreover have "{nid1..} \<subseteq> id_key ` set (kept mx ls) \<union> {nid..}" using n1 by (auto dest: order_trans)
      ultimately show ?thesis by (rule Un_least)
    qed
    ultimately have "set (kept mx ls) \<subseteq> set out' \<and> id_key ` set out' \<subseteq> id_key ` set (kept mx ls) \<union> {nid..}"
      by (intro conjI order_trans [OF o(7)])
    then show ?thesis using True p tot o(1-5) by (subst split_loop.simps) simp
  qed
qed


section \<open>Assigning a batch\<close>

lemma min_by_dist_mem: "min_by_dist xs = Some x \<Longrightarrow> x \<in> set xs"
proof -
  have "foldl (\<lambda>a b. if fle_total (snd a) (snd b) then a else b) a ys \<in> insert a (set ys)" for a :: "'a \<times> f32" and ys
    by (induction ys arbitrary: a) auto
  then show "min_by_dist xs = Some x \<Longrightarrow> x \<in> set xs" by (cases xs) fastforce+
qed

lemma min_by_dist_None [simp]: "min_by_dist xs = None \<longleftrightarrow> xs = []"
  by (cases xs) auto

lemma leaf_distances_leaves:
  "\<forall>l\<in>set ls. is_leaf l \<Longrightarrow> leaf_distances ls v = map (\<lambda>l. (id_key l, centroid_distance l v)) ls"
  by (induction ls) (auto simp: leaf_distances_def List.map_filter_simps elim!: is_leafE)

lemma find_nearest_mem:
  "find_nearest_in_leaves ls v = Some (i, x) \<Longrightarrow> \<forall>l\<in>set ls. is_leaf l \<Longrightarrow> i \<in> id_key ` set ls"
  using min_by_dist_mem [of "leaf_distances ls v" "(i, x)"]
  by (auto simp: find_nearest_in_leaves_def leaf_distances_leaves)

abbreviation added :: "(u64 \<times> u64) list \<Rightarrow> u64 \<Rightarrow> nat" where
  "added adds i \<equiv> unat (case map_of adds i of None \<Rightarrow> 0 | Some n \<Rightarrow> n)"

definition batch_inv :: "merkle_node list \<Rightarrow> u64 \<Rightarrow> nat \<Rightarrow> batch_state \<Rightarrow> bool" where
  "batch_inv leaves nid0 k = (\<lambda>(new, csums, adds, nid).
     (\<forall>i. map_of adds i = None \<longleftrightarrow> map_of csums i = None) \<and> (\<Sum>i\<in>id_key ` set leaves. added adds i) + length new = k \<and>
     (\<forall>l\<in>set new. is_leaf l \<and> node_count l = 1) \<and> unat nid = unat nid0 + length new \<and>
     map (unat \<circ> id_key) new = [unat nid0..<unat nid])"

lemma sum_increment:
  fixes f g :: "'a \<Rightarrow> nat"
  assumes "finite A" and "x \<in> A" and "g x = Suc (f x)" and "\<forall>y. y \<noteq> x \<longrightarrow> g y = f y"
  shows "sum g A = Suc (sum f A)"
proof -
  have "sum g (A - {x}) = sum f (A - {x})" using assms(4) by (intro sum.cong) auto
  then show ?thesis using assms(1-3) by (simp add: sum.remove)
qed

lemma assign_vector_inv:
  assumes "batch_inv leaves nid0 k st" and "\<forall>l\<in>set leaves. is_leaf l" and "unat nid0 + k + 1 < 2 ^ 64"
  shows "batch_inv leaves nid0 (if length (bv_vector bv) = d then k + 1 else k) (assign_vector d leaves bv st)"
proof -
  obtain new csums adds nid where st: "st = (new, csums, adds, nid)" by (cases st) auto
  note b = assms(1) [unfolded st batch_inv_def split_conv]
  show ?thesis
  proof (cases "length (bv_vector bv) = d")
    case False
    then show ?thesis using assms(1) st by (simp add: assign_vector_def)
  next
    case True
    show ?thesis
    proof (cases "find_nearest_in_leaves leaves (bv_vector bv)")
      case None
      have "unat nid + 1 < 2 ^ 64" using b assms(3) by linarith
      then have u: "unat (nid + 1) = unat nid + 1" by (simp add: unat_word_ariths)
      then show ?thesis using b True None st by (simp add: batch_inv_def assign_vector_def)
    next
      case (Some p)
      obtain i x where p: "p = (i, x)" by fastforce
      then have i: "i \<in> id_key ` set leaves" using find_nearest_mem Some assms(2) by blast
      have fin: "finite (id_key ` set leaves)" by simp
      have "added adds i \<le> (\<Sum>j\<in>id_key ` set leaves. added adds j)" by (rule member_le_sum [OF i _ fin]) simp
      then have "added adds i \<le> k" using b by linarith
      then have a: "added adds i + 1 < 2 ^ 64" using assms(3) by linarith
      define n where "n = (case map_of adds i of None \<Rightarrow> 0 | Some n \<Rightarrow> n)"
      have "(\<Sum>j\<in>id_key ` set leaves. added (AList.update i (n + 1) adds) j) = Suc (\<Sum>j\<in>id_key ` set leaves. added adds j)"
        by (rule sum_increment [OF fin i]) (use a in \<open>simp_all add: n_def [symmetric] unat_plus_one\<close>)
      then show ?thesis using b True Some p st
        by (simp add: batch_inv_def assign_vector_def Let_def n_def [symmetric])
    qed
  qed
qed


lemma assign_batch_inv:
  assumes "batch_inv leaves nid0 k st" and "\<forall>l\<in>set leaves. is_leaf l" and "unat nid0 + k + length vs < 2 ^ 64"
  shows "batch_inv leaves nid0 (k + length (filter (\<lambda>bv. length (bv_vector bv) = d) vs)) (fold (assign_vector d leaves) vs st)"
  using assms
proof (induction vs arbitrary: k st)
  case (Cons bv vs)
  let ?k = "if length (bv_vector bv) = d then k + 1 else k"
  have "batch_inv leaves nid0 ?k (assign_vector d leaves bv st)"
    by (rule assign_vector_inv) (use Cons.prems in auto)
  moreover have "unat nid0 + ?k + length vs < 2 ^ 64" using Cons.prems(3) by simp
  ultimately have "batch_inv leaves nid0 (?k + length (filter (\<lambda>bv. length (bv_vector bv) = d) vs))
      (fold (assign_vector d leaves) vs (assign_vector d leaves bv st))"
    using Cons.IH Cons.prems(2) by blast
  then show ?case by (simp split: if_splits)
qed simp

lemma update_leaves_ok:
  assumes "\<forall>l\<in>set ls. is_leaf l \<and> node_count l \<noteq> 0" and "distinct (map id_key ls)"
    and "\<forall>l\<in>set ls. map_of csums (id_key l) = None \<longrightarrow> map_of adds (id_key l) = None"
    and "\<forall>l\<in>set ls. unat (node_count l) + added adds (id_key l) < 2 ^ 64"
  shows "\<exists>out. update_leaves adds csums ls = Inr out \<and> map id_key out = map id_key ls \<and>
    (\<forall>l\<in>set out. is_leaf l \<and> node_count l \<noteq> 0) \<and> vector_total out = vector_total ls + (\<Sum>i\<leftarrow>map id_key ls. added adds i)"
  using assms
proof (induction ls arbitrary: csums)
  case (Cons l ls)
  obtain c i n h where l: "l = Leaf c i n h" using Cons.prems(1) by (auto elim: is_leafE)
  have n0: "n \<noteq> 0" using Cons.prems(1) l by simp
  define cs where "cs = (if map_of adds i = None then csums else AList.delete i csums)"
  have "i \<notin> id_key ` set ls" using Cons.prems(2) l by simp
  then have "\<forall>l\<in>set ls. map_of cs (id_key l) = None \<longrightarrow> map_of adds (id_key l) = None"
    using Cons.prems(3) by (auto simp: cs_def image_iff)
  then obtain out where out: "update_leaves adds cs ls = Inr out" "map id_key out = map id_key ls"
      "\<forall>l\<in>set out. is_leaf l \<and> node_count l \<noteq> 0" "vector_total out = vector_total ls + (\<Sum>i\<leftarrow>map id_key ls. added adds i)"
    using Cons.IH [of cs] Cons.prems(1,2,4) by auto
  show ?case
  proof (cases "map_of adds i")
    case None
    then show ?thesis using out l n0 by (simp add: cs_def)
  next
    case (Some a)
    then obtain s where s: "map_of csums i = Some s" using Cons.prems(3) l by fastforce
    have na: "unat (n + a) = unat n + unat a" using Cons.prems(4) Some l by (simp add: unat_word_ariths)
    moreover have "0 < unat n" using n0 by (simp add: unat_gt_0)
    ultimately have "n + a \<noteq> 0" by (metis add_is_0 less_numeral_extra(3) unat_0)
    then show ?thesis using out l s Some na by (simp add: cs_def Let_def)
  qed
qed simp

lemma vector_total_ones: "\<forall>l\<in>set ls. node_count l = 1 \<Longrightarrow> vector_total ls = length ls"
  by (induction ls) auto

text \<open>The leaves that go into the splitting loop.\<close>

lemma batch_leaves_ok:
  assumes "clusters_ok nid0 leaves" and "batch_inv leaves nid0 k (new, csums, adds, nid)" and "unat nid0 + vector_total leaves + k < 2 ^ 64"
  shows "\<exists>upd. update_leaves adds csums leaves = Inr upd \<and> clusters_ok nid (upd @ new) \<and>
    vector_total (upd @ new) = vector_total leaves + k \<and> unat nid \<le> unat nid0 + k"
proof -
  note b = assms(2) [unfolded batch_inv_def split_conv]
  have ok: "\<forall>l\<in>set leaves. is_leaf l \<and> node_count l \<noteq> 0" "distinct (map id_key leaves)" "\<forall>l\<in>set leaves. id_key l < nid0"
    using assms(1) by (auto simp: clusters_ok_def)
  have sum: "(\<Sum>i\<leftarrow>map id_key leaves. added adds i) = (\<Sum>i\<in>id_key ` set leaves. added adds i)"
    using sum_list_distinct_conv_sum_set [OF ok(2)] by simp
  have bound: "unat (node_count l) + added adds (id_key l) < 2 ^ 64" if "l \<in> set leaves" for l
  proof -
    have "added adds (id_key l) \<le> (\<Sum>i\<in>id_key ` set leaves. added adds i)" by (rule member_le_sum) (use that in auto)
    moreover have "unat (node_count l) \<le> vector_total leaves"
      unfolding vector_total_def by (rule member_le_sum_list) (use that in auto)
    ultimately show ?thesis using b assms(3) by linarith
  qed
  obtain upd where upd: "update_leaves adds csums leaves = Inr upd" "map id_key upd = map id_key leaves"
      "\<forall>l\<in>set upd. is_leaf l \<and> node_count l \<noteq> 0" "vector_total upd = vector_total leaves + (\<Sum>i\<leftarrow>map id_key leaves. added adds i)"
    using update_leaves_ok [OF ok(1,2), of csums adds] b bound by blast
  have ids: "id_key ` set upd = id_key ` set leaves" using upd(2) by (metis list.set_map)
  have new: "unat ` id_key ` set new = {unat nid0..<unat nid}" "distinct (map unat (map id_key new))"
    using b by (metis image_comp list.set_map set_upt) (metis b distinct_upt list.map_comp)
  have lt: "id_key l < nid \<and> nid0 \<le> id_key l" if "l \<in> set new" for l
  proof -
    have "unat (id_key l) \<in> {unat nid0..<unat nid}" using new(1) that by blast
    then show ?thesis by (simp add: word_less_nat_alt word_le_nat_alt)
  qed
  have lt': "id_key l < nid0" if "l \<in> set upd" for l using ok(3) ids that by (metis imageE imageI)
  have le: "nid0 \<le> nid" using b by (simp add: word_le_nat_alt)
  have "clusters_ok nid (upd @ new)" unfolding clusters_ok_def
  proof (intro conjI ballI)
    show "is_leaf l" "node_count l \<noteq> 0" "id_key l < nid" if "l \<in> set (upd @ new)" for l
      using that upd(3) b lt lt' le by (auto dest: order.strict_trans2)
    have "id_key ` set upd \<inter> id_key ` set new = {}" using lt lt' by (fastforce simp: not_le [symmetric])
    moreover have "distinct (map id_key new)" using new(2) unfolding distinct_map [of unat] by blast
    ultimately show "distinct (map id_key (upd @ new))"
      using ok(2) by (simp only: map_append distinct_append upd(2) [symmetric] list.set_map simp_thms)
  qed
  moreover have "vector_total (upd @ new) = vector_total leaves + k"
    using upd(4) sum b vector_total_ones [of new] by simp
  moreover have "unat nid \<le> unat nid0 + k" using b by linarith
  ultimately show ?thesis using upd(1) by blast
qed

text \<open>
  The vectors of a batch that go to the cluster \<open>i\<close>: those of the batch's dimension for which it is the nearest. Their sum in the order of the batch, and the
  centroid of a cluster of \<open>n\<close> vectors after it has absorbed them.
\<close>

definition assigned_vectors :: "merkle_tree \<Rightarrow> buffered_vector list \<Rightarrow> u64 \<Rightarrow> f32 list list" where
  "assigned_vectors t vs i = filter (\<lambda>v. length v = length (bv_vector (hd vs)) \<and> find_nearest_cluster t v = Some i) (map bv_vector vs)"

definition vector_sum :: "nat \<Rightarrow> f32 list list \<Rightarrow> f32 list" where
  "vector_sum d xs = foldl (zip_into (fadd F32)) (replicate d (Num 0)) xs"

definition absorb :: "f32 list list \<Rightarrow> f32 list \<Rightarrow> u64 \<Rightarrow> f32 list" where
  "absorb xs c n = (if xs = [] then c
     else zip_into (\<lambda>x y. fdiv F32 (fadd F32 (fmul F32 x (fof_int F32 (uint n))) y) (fof_int F32 (uint (n + of_nat (length xs)))))
       c (vector_sum (length (hd xs)) xs))"

abbreviation goes_to :: "nat \<Rightarrow> merkle_node list \<Rightarrow> u64 \<Rightarrow> f32 list \<Rightarrow> bool" where
  "goes_to d leaves i v \<equiv> length v = d \<and> map_option fst (find_nearest_in_leaves leaves v) = Some i"

lemma assign_accumulates:
  "fold (assign_vector d leaves) vs (new, csums, adds, nid) = (new', csums', adds', nid') \<Longrightarrow> xs = filter (goes_to d leaves i) (map bv_vector vs) \<Longrightarrow>
   map_of adds' i = (if xs = [] then map_of adds i else Some ((case map_of adds i of None \<Rightarrow> 0 | Some n \<Rightarrow> n) + of_nat (length xs))) \<and>
   map_of csums' i = (if xs = [] then map_of csums i else
     Some (foldl (zip_into (fadd F32)) (case map_of csums i of None \<Rightarrow> replicate d (Num 0) | Some s \<Rightarrow> s) xs))"
proof (induction vs arbitrary: new csums adds nid xs)
  case (Cons bv vs)
  let ?v = "bv_vector bv"
  show ?case
  proof (cases "length ?v = d")
    case False
    then show ?thesis using Cons.IH [of new csums adds nid] Cons.prems by (simp add: assign_vector_def)
  next
    case True
    show ?thesis
    proof (cases "find_nearest_in_leaves leaves ?v")
      case None
      then show ?thesis using Cons.IH [OF _ refl] Cons.prems True by (auto simp: assign_vector_def)
    next
      case (Some p)
      obtain j x where p: "p = (j, x)" by fastforce
      define ys where "ys = filter (goes_to d leaves i) (map bv_vector vs)"
      have xs: "xs = (if j = i then ?v # ys else ys)" using Cons.prems(2) True Some p by (simp add: ys_def)
      show ?thesis using Cons.IH [OF _ ys_def] Cons.prems(1) True Some p
        by (cases "j = i") (auto simp: assign_vector_def Let_def xs map_of_update algebra_simps split: option.split)
    qed
  qed
qed simp

lemma find_nearest_None: "\<forall>l\<in>set ls. is_leaf l \<Longrightarrow> find_nearest_in_leaves ls v = None \<longleftrightarrow> ls = []"
  by (simp add: find_nearest_in_leaves_def leaf_distances_leaves)

lemma assign_new:
  "fold (assign_vector d leaves) vs (new, csums, adds, nid) = (new', csums', adds', nid') \<Longrightarrow> \<forall>l\<in>set leaves. is_leaf l \<Longrightarrow>
   map (\<lambda>l. (node_centroid l, node_count l)) new' = map (\<lambda>l. (node_centroid l, node_count l)) new @
     (if leaves = [] then map (\<lambda>v. (v, 1)) (filter (\<lambda>v. length v = d) (map bv_vector vs)) else [])"
proof (induction vs arbitrary: new csums adds nid)
  case (Cons bv vs)
  let ?v = "bv_vector bv"
  obtain n1 c1 a1 i1 where st: "assign_vector d leaves bv (new, csums, adds, nid) = (n1, c1, a1, i1)" by (metis prod_cases4)
  have "map (\<lambda>l. (node_centroid l, node_count l)) n1 = map (\<lambda>l. (node_centroid l, node_count l)) new @
      (if leaves = [] \<and> length ?v = d then [(?v, 1)] else [])"
    using st find_nearest_None [OF Cons.prems(2), of ?v] by (auto simp: assign_vector_def Let_def split: if_splits option.splits)
  then show ?case using Cons.IH [of n1 c1 a1 i1] Cons.prems st by simp
qed simp

lemma update_absorbs:
  "update_leaves adds csums ls = Inr out \<Longrightarrow> distinct (map id_key ls) \<Longrightarrow> \<forall>l\<in>set ls. is_leaf l \<Longrightarrow> Leaf c i n h \<in> set ls \<Longrightarrow>
   Leaf (case map_of adds i of None \<Rightarrow> c | Some a \<Rightarrow>
       zip_into (\<lambda>x y. fdiv F32 (fadd F32 (fmul F32 x (fof_int F32 (uint n))) y) (fof_int F32 (uint (n + a)))) c (the (map_of csums i)))
     i (n + (case map_of adds i of None \<Rightarrow> 0 | Some a \<Rightarrow> a)) h \<in> set out"
proof (induction ls arbitrary: csums out)
  case (Cons l ls)
  obtain c' j m g where l: "l = Leaf c' j m g" using Cons.prems(3) by (auto elim: is_leafE)
  define cs where "cs = (if map_of adds j = None then csums else AList.delete j csums)"
  obtain out1 where o: "update_leaves adds cs ls = Inr out1" "set out1 \<subseteq> set out"
    using Cons.prems(1) l that by (fastforce simp: cs_def rbind_eq_Inr Let_def split: option.splits)
  show ?case
  proof (cases "Leaf c i n h \<in> set ls")
    case True
    then have "j \<noteq> i" using Cons.prems(2) l by force
    then have cs: "map_of cs i = map_of csums i" by (simp add: cs_def)
    have ok: "distinct (map id_key ls)" "\<forall>l\<in>set ls. is_leaf l" using Cons.prems(2,3) by simp_all
    show ?thesis by (rule subsetD [OF o(2)]) (rule Cons.IH [OF o(1) ok True, unfolded cs])
  next
    case False
    then have "l = Leaf c i n h" using Cons.prems(4) by auto
    then show ?thesis using Cons.prems(1) by (auto simp: rbind_eq_Inr Let_def split: option.splits)
  qed
qed simp

section \<open>The root hash\<close>

fun preimages :: "merkle_node \<Rightarrow> u8 list set" where
  "preimages (Leaf c i n h) = {leaf_bytes c n i}"
| "preimages (Internal h l r c n) = insert (node_hash l @ node_hash r) (preimages l \<union> preimages r)"

fun leaf_content :: "merkle_node \<Rightarrow> u8 list list \<times> u64 \<times> u64" where
  "leaf_content (Leaf c i n h) = (map f32_to_le_bytes c, n, i)"
| "leaf_content (Internal h l r c n) = ([], n, 0)"

lemma length_f32_bytes [simp]: "length (f32_to_le_bytes x) = 4"
  by (simp add: f32_to_le_bytes_def)

lemma length_leaf_bytes: "length (leaf_bytes c n i) = 4 * length c + 16"
  by (simp add: leaf_bytes_def length_concat comp_def sum_list_triv)

lemma concat_blocks:
  "\<forall>x\<in>set xs. length x = m \<Longrightarrow> \<forall>y\<in>set ys. length y = m \<Longrightarrow> 0 < m \<Longrightarrow> concat xs = concat ys \<Longrightarrow> xs = ys"
proof (induction xs arbitrary: ys)
  case Nil
  then show ?case by (cases ys) auto
next
  case (Cons x xs)
  show ?case
  proof (cases ys)
    case Nil
    then show ?thesis using Cons.prems by auto
  next
    case (Cons y ys')
    have "length x = length y" using Cons.prems(1,2) Cons by simp
    then have "x = y \<and> concat xs = concat ys'" using Cons.prems(4) Cons by (simp add: append_eq_append_conv)
    then show ?thesis using Cons.IH [of ys'] Cons.prems(1-3) Cons by simp
  qed
qed

lemma leaf_bytes_inj: "leaf_bytes c n i = leaf_bytes c' n' i' \<Longrightarrow> map f32_to_le_bytes c = map f32_to_le_bytes c' \<and> n = n' \<and> i = i'"
proof -
  assume e: "leaf_bytes c n i = leaf_bytes c' n' i'"
  then have "concat (map f32_to_le_bytes c) = concat (map f32_to_le_bytes c')"
    and w: "u64_to_le_bytes n = u64_to_le_bytes n'" "u64_to_le_bytes i = u64_to_le_bytes i'"
    by (simp_all add: leaf_bytes_def append_eq_append_conv)
  moreover have "n = n'" "i = i'" using w by (metis u64_from_to_le)+
  ultimately show ?thesis using concat_blocks [of "map f32_to_le_bytes c" 4 "map f32_to_le_bytes c'"] by auto
qed

lemma node_hash_preimage: "node_ok B r \<Longrightarrow> \<exists>x\<in>preimages r. node_hash r = B x"
  by (cases r) auto

lemma same_hash_same_leaves:
  assumes "node_ok B r1" and "node_ok B r2" and "inj_on B (preimages r1 \<union> preimages r2)"
    and "\<forall>x \<in> preimages r1 \<union> preimages r2. length (B x) = 32"
    and "\<forall>l \<in> set (collect_leaves r1 @ collect_leaves r2). length (node_centroid l) \<noteq> 12"
    and "node_hash r1 = node_hash r2"
  shows "map leaf_content (collect_leaves r1) = map leaf_content (collect_leaves r2)"
  using assms
proof (induction r1 arbitrary: r2)
  case (Leaf c i n h)
  show ?case
  proof (cases r2)
    case (Leaf c' i' n' h')
    have "leaf_bytes c n i = leaf_bytes c' n' i'"
      by (rule inj_onD [OF Leaf.prems(3)]) (use Leaf Leaf.prems in simp_all)
    from leaf_bytes_inj [OF this] show ?thesis using Leaf by simp
  next
    case (Internal h' l r c' n')
    then have "B (leaf_bytes c n i) = B (node_hash l @ node_hash r)" using Leaf.prems(1,2,6) by simp
    then have "leaf_bytes c n i = node_hash l @ node_hash r"
      by (rule inj_onD [OF Leaf.prems(3)]) (use Internal in simp_all)
    moreover have "length (node_hash l) = 32" "length (node_hash r) = 32"
      using node_hash_preimage [of B l] node_hash_preimage [of B r] Leaf.prems(2,4) Internal by auto
    ultimately have "length c = 12" using length_leaf_bytes [of c n i] by simp
    then show ?thesis using Leaf.prems(5) by simp
  qed
next
  case (Internal h l r c n)
  have lr: "length (node_hash l) = 32" "length (node_hash r) = 32"
    using node_hash_preimage [of B l] node_hash_preimage [of B r] Internal.prems(1,4) by auto
  show ?case
  proof (cases r2)
    case (Leaf c' i' n' h')
    then have "B (node_hash l @ node_hash r) = B (leaf_bytes c' n' i')" using Internal.prems(1,2,6) by simp
    then have "node_hash l @ node_hash r = leaf_bytes c' n' i'"
      by (rule inj_onD [OF Internal.prems(3)]) (use Leaf in simp_all)
    then have "length (node_hash l @ node_hash r) = 4 * length c' + 16" by (simp only: length_leaf_bytes)
    then have "length c' = 12" using lr by simp
    then show ?thesis using Internal.prems(5) Leaf by simp
  next
    case (Internal h' l' r' c' n')
    have "length (node_hash l') = 32" "length (node_hash r') = 32"
      using node_hash_preimage [of B l'] node_hash_preimage [of B r'] Internal.prems(2,4) Internal by auto
    moreover have "B (node_hash l @ node_hash r) = B (node_hash l' @ node_hash r')" using Internal.prems(1,2,6) Internal by simp
    then have "node_hash l @ node_hash r = node_hash l' @ node_hash r'"
      by (rule inj_onD [OF Internal.prems(3)]) (use Internal in simp_all)
    ultimately have h: "node_hash l = node_hash l'" "node_hash r = node_hash r'" using lr by simp_all
    have "map leaf_content (collect_leaves l) = map leaf_content (collect_leaves l')"
      by (rule Internal.IH(1)) (use Internal.prems Internal h in \<open>auto intro: inj_on_subset\<close>)
    moreover have "map leaf_content (collect_leaves r) = map leaf_content (collect_leaves r')"
      by (rule Internal.IH(2)) (use Internal.prems Internal h in \<open>auto intro: inj_on_subset\<close>)
    ultimately show ?thesis using Internal by simp
  qed
qed


section \<open>Properties\<close>

lemma batch_room:
  fixes k :: nat
  assumes "k \<le> l" and "a + l + 2 * (v + l) < x"
  shows "a + v + k < x" and "n \<le> a + k \<Longrightarrow> u = v + k \<Longrightarrow> n + 2 * (u - m) < x"
  using assms unfolding distrib_left by linarith+

lemma insert_batch_run:
  assumes "merkle_inv B t" and "1 \<le> max_cluster_size t" and "vs \<noteq> []"
    and "unat (next_cluster_id t) + length vs + 2 * (vector_total (mt_leaves t) + length vs) < 2 ^ 64"
  defines "d \<equiv> length (bv_vector (hd vs))"
  obtains new csums adds nid upd out nid' where
    "fold (assign_vector d (mt_leaves t)) vs ([], [], [], next_cluster_id t) = (new, csums, adds, nid)"
    "update_leaves adds csums (mt_leaves t) = Inr upd" "next_cluster_id t \<le> nid"
    "split_loop B (max_cluster_size t) (map (recompute_hash B) (upd @ new)) nid = Some (out, nid')" "clusters_ok nid' out" "\<forall>l\<in>set out. node_ok B l"
    "clusters_ok nid (upd @ new)" "vector_total out = vector_total (mt_leaves t) + length (filter (\<lambda>bv. length (bv_vector bv) = d) vs)"
    "\<forall>l\<in>set out. unat (node_count l) \<le> max_cluster_size t"
    "set (kept (max_cluster_size t) (map (recompute_hash B) (upd @ new))) \<subseteq> set out"
    "id_key ` set out \<subseteq> id_key ` set (kept (max_cluster_size t) (upd @ new)) \<union> {nid..}"
proof -
  let ?n = "next_cluster_id t" and ?mx = "max_cluster_size t"
  let ?k = "length (filter (\<lambda>bv. length (bv_vector bv) = d) vs)"
  have k: "?k \<le> length vs" by simp
  have cl: "clusters_ok ?n (mt_leaves t)" using assms(1) by (simp add: merkle_inv_def)
  obtain new csums adds nid where st: "fold (assign_vector d (mt_leaves t)) vs ([], [], [], ?n) = (new, csums, adds, nid)"
    by (metis prod_cases4)
  have "batch_inv (mt_leaves t) ?n 0 ([], [], [], ?n)" by (simp add: batch_inv_def)
  then have b: "batch_inv (mt_leaves t) ?n (0 + ?k) (new, csums, adds, nid)"
    unfolding st [symmetric] by (rule assign_batch_inv) (use cl assms(4) in \<open>auto simp: clusters_ok_def\<close>)
  moreover have "unat ?n + vector_total (mt_leaves t) + ?k < 2 ^ 64"
    by (rule batch_room(1) [OF k assms(4)])
  ultimately obtain upd where upd: "update_leaves adds csums (mt_leaves t) = Inr upd" "clusters_ok nid (upd @ new)"
      "vector_total (upd @ new) = vector_total (mt_leaves t) + ?k" "unat nid \<le> unat ?n + ?k"
    using batch_leaves_ok [OF cl, of ?k new csums adds nid] by auto
  let ?ls = "map (recompute_hash B) (upd @ new)"
  have ok: "clusters_ok nid ?ls" "\<forall>l\<in>set ?ls. node_ok B l"
    using upd(2) by (auto simp: clusters_ok_def recompute_hash_ok comp_def)
  have tot: "vector_total ?ls = vector_total (mt_leaves t) + ?k" using upd(3) by simp
  have "unat nid + 2 * (vector_total ?ls - length ?ls) < 2 ^ 64" by (rule batch_room(2) [OF k assms(4) upd(4) tot])
  from split_loop_ok [OF assms(2) ok this] obtain out nid' where out: "split_loop B ?mx ?ls nid = Some (out, nid')" "clusters_ok nid' out"
      "\<forall>l\<in>set out. node_ok B l" "vector_total out = vector_total ?ls" "\<forall>l\<in>set out. unat (node_count l) \<le> ?mx"
      "set (kept ?mx ?ls) \<subseteq> set out" "id_key ` set out \<subseteq> id_key ` set (kept ?mx ?ls) \<union> {nid..}"
    by (elim exE conjE) (rule that)
  have "id_key ` set (kept ?mx ?ls) = id_key ` set (kept ?mx (upd @ new))" by (auto simp: filter_map image_Un image_image comp_def)
  moreover have "?n \<le> nid" using b by (simp add: batch_inv_def word_le_nat_alt)
  ultimately show thesis using that [OF st upd(1) _ out(1-3) upd(2) _ out(5,6)] out(4,7) tot by simp
qed

text \<open>What a batch insertion does to the clusters: the reference for \<open>insert_batch\<close>.\<close>

definition batch_effect :: "buffered_vector list \<Rightarrow> merkle_tree \<Rightarrow> merkle_tree \<Rightarrow> bool" where
  "batch_effect vs t t' \<longleftrightarrow>
     (\<forall>c i n h. Leaf c i n h \<in> set (mt_leaves t) \<longrightarrow> (let xs = assigned_vectors t vs i in
        if unat n + length xs \<le> max_cluster_size t then \<exists>h'. Leaf (absorb xs c n) i (n + of_nat (length xs)) h' \<in> set (mt_leaves t')
        else i \<notin> id_key ` set (mt_leaves t'))) \<and>
     (mt_leaves t = [] \<longrightarrow> mset (map (\<lambda>l. (node_centroid l, node_count l)) (mt_leaves t')) =
        mset (map (\<lambda>v. (v, 1)) (filter (\<lambda>v. length v = length (bv_vector (hd vs))) (map bv_vector vs))))"

lemma cluster_absorbs:
  assumes st: "fold (assign_vector d (mt_leaves t)) vs ([], [], [], nid0) = (new, csums, adds, nid)" "d = length (bv_vector (hd vs))"
    and upd: "update_leaves adds csums (mt_leaves t) = Inr upd" and cl: "clusters_ok nid0 (mt_leaves t)" and l: "Leaf c i n h \<in> set (mt_leaves t)"
  defines "xs \<equiv> assigned_vectors t vs i"
  shows "Leaf (absorb xs c n) i (n + of_nat (length xs)) h \<in> set upd"
proof -
  have n: "map_option fst (find_nearest_in_leaves (mt_leaves t) v) = find_nearest_cluster t v" for v
    by (simp add: find_nearest_in_leaves_def find_nearest_cluster_def)
  have xs: "xs = filter (goes_to d (mt_leaves t) i) (map bv_vector vs)" by (simp add: xs_def assigned_vectors_def n st(2))
  note acc = assign_accumulates [OF st(1) xs]
  have d: "length (hd xs) = d" if "xs \<noteq> []" using hd_in_set [OF that] unfolding xs by simp
  have "distinct (map id_key (mt_leaves t))" "\<forall>l\<in>set (mt_leaves t). is_leaf l" using cl by (auto simp: clusters_ok_def)
  from update_absorbs [OF upd this l] show ?thesis using acc d by (cases "xs = []") (simp_all add: absorb_def vector_sum_def)
qed

lemma batch_effect_old:
  assumes "fold (assign_vector (length (bv_vector (hd vs))) (mt_leaves t)) vs ([], [], [], next_cluster_id t) = (new, csums, adds, nid)"
    and "update_leaves adds csums (mt_leaves t) = Inr upd" and "clusters_ok (next_cluster_id t) (mt_leaves t)" and "next_cluster_id t \<le> nid"
    and "clusters_ok nid (upd @ new)" and "vector_total (mt_leaves t) + length vs < 2 ^ 64"
    and "set (kept mx (map (recompute_hash B) (upd @ new))) \<subseteq> L" and "id_key ` L \<subseteq> id_key ` set (kept mx (upd @ new)) \<union> {nid..}"
    and l: "Leaf c i n h \<in> set (mt_leaves t)" and xs: "xs = assigned_vectors t vs i"
  shows "if unat n + length xs \<le> mx then \<exists>h'. Leaf (absorb xs c n) i (n + of_nat (length xs)) h' \<in> L else i \<notin> id_key ` L"
proof -
  let ?n = "n + of_nat (length xs)" and ?l = "Leaf (absorb xs c n) i (n + of_nat (length xs)) h"
  have m: "?l \<in> set upd" using cluster_absorbs [OF assms(1) refl assms(2,3) l] by (simp add: xs)
  have "unat (node_count (Leaf c i n h)) \<le> vector_total (mt_leaves t)"
    unfolding vector_total_def by (rule member_le_sum_list) (unfold set_map, rule imageI [OF l], simp)
  moreover have "length xs \<le> length vs" unfolding xs assigned_vectors_def by (rule order_trans [OF length_filter_le]) simp
  ultimately have u: "unat ?n = unat n + length xs" using assms(6) by (simp add: unat_word_ariths unat_of_nat)
  show ?thesis
  proof (cases "unat n + length xs \<le> mx")
    case True
    then have "recompute_hash B ?l \<in> set (kept mx (map (recompute_hash B) (upd @ new)))" using imageI [OF m, of "recompute_hash B"] u by simp
    then have "recompute_hash B ?l \<in> L" using assms(7) by blast
    then show ?thesis using True by auto
  next
    case False
    have "i \<noteq> id_key x" if x: "x \<in> set (kept mx (upd @ new))" for x
    proof
      assume "i = id_key x"
      moreover have "inj_on id_key (set (upd @ new))" using assms(5) unfolding clusters_ok_def distinct_map by blast
      ultimately have "x = ?l" using x m by (intro inj_onD [where f = id_key and A = "set (upd @ new)"]) auto
      then show False using x u False by simp
    qed
    moreover have "i < next_cluster_id t" using assms(3) l by (auto simp: clusters_ok_def)
    then have "i \<notin> {nid..}" using assms(4) by auto
    ultimately have "i \<notin> id_key ` L" using assms(8) by blast
    then show ?thesis using False by simp
  qed
qed

lemma batch_effect_first:
  assumes "fold (assign_vector d []) vs ([], [], [], nid0) = (new, csums, adds, nid)" and "1 \<le> mx" and "\<forall>l\<in>set new. is_leaf l"
    and "split_loop B mx (map (recompute_hash B) new) nid = Some (out, nid')"
  shows "map (\<lambda>l. (node_centroid l, node_count l)) out = map (\<lambda>v. (v, 1)) (filter (\<lambda>v. length v = d) (map bv_vector vs))"
proof -
  have n: "map (\<lambda>l. (node_centroid l, node_count l)) new = map (\<lambda>v. (v, 1)) (filter (\<lambda>v. length v = d) (map bv_vector vs))"
    using assign_new [OF assms(1)] by simp
  have "node_count l = 1" if "l \<in> set new" for l
  proof -
    have "(node_centroid l, node_count l) \<in> set (map (\<lambda>l. (node_centroid l, node_count l)) new)" using that by simp
    then show ?thesis unfolding n by auto
  qed
  then have "\<forall>l\<in>set (map (recompute_hash B) new). is_leaf l \<and> unat (node_count l) \<le> mx" using assms(2,3) by auto
  then have "out = map (recompute_hash B) new" using split_pass_small assms(4) by (subst (asm) split_loop.simps) simp
  moreover have "node_centroid (recompute_hash B l) = node_centroid l" for l by (cases l) simp_all
  ultimately show ?thesis using n by (simp add: comp_def)
qed

lemma insert_batch_ok:
  assumes "merkle_inv B t" and "1 \<le> max_cluster_size t"
    and "unat (next_cluster_id t) + length vs + 2 * (vector_total (mt_leaves t) + length vs) < 2 ^ 64"
  shows "\<exists>t'. insert_batch B vs t = Some (Inr t') \<and> merkle_inv B t' \<and> max_cluster_size t' = max_cluster_size t \<and>
    vector_total (mt_leaves t') = vector_total (mt_leaves t) +
      length (filter (\<lambda>bv. length (bv_vector bv) = length (bv_vector (hd vs))) vs) \<and> batch_effect vs t t'"
proof (cases "vs = []")
  case True
  then show ?thesis using assms(1) by (auto simp: insert_batch_def batch_effect_def assigned_vectors_def absorb_def merkle_inv_def)
next
  case False
  let ?d = "length (bv_vector (hd vs))" and ?n = "next_cluster_id t" and ?mx = "max_cluster_size t"
  have cl: "clusters_ok ?n (mt_leaves t)" using assms(1) by (simp add: merkle_inv_def)
  obtain new csums adds nid upd out nid' where st: "fold (assign_vector ?d (mt_leaves t)) vs ([], [], [], ?n) = (new, csums, adds, nid)"
    and upd: "update_leaves adds csums (mt_leaves t) = Inr upd" "?n \<le> nid"
    and out: "split_loop B ?mx (map (recompute_hash B) (upd @ new)) nid = Some (out, nid')" "clusters_ok nid' out" "\<forall>l\<in>set out. node_ok B l"
      "clusters_ok nid (upd @ new)" "vector_total out = vector_total (mt_leaves t) + length (filter (\<lambda>bv. length (bv_vector bv) = ?d) vs)"
      "\<forall>l\<in>set out. unat (node_count l) \<le> ?mx"
    and kp: "set (kept ?mx (map (recompute_hash B) (upd @ new))) \<subseteq> set out" "id_key ` set out \<subseteq> id_key ` set (kept ?mx (upd @ new)) \<union> {nid..}"
    by (rule insert_batch_run [OF assms(1,2) False assms(3)])
  let ?t = "t\<lparr>mt_root := build_tree B out, next_cluster_id := nid'\<rparr>"
  let ?s = "sort_by (\<lambda>a b. id_key a \<le> id_key b) out"
  have lv: "\<forall>l\<in>set out. is_leaf l \<and> node_ok B l" using out(2,3) by (auto simp: clusters_ok_def)
  have leaves: "mt_leaves ?t = ?s" using build_tree_ok(1) [OF lv] by (simp add: mt_leaves_def)
  have "clusters_ok nid' ?s" using out(2) by (auto simp: clusters_ok_def distinct_map)
  moreover have "sorted (map id_key ?s)"
    using by_cluster.sorted_sort_by [of out] by (simp add: sorted_wrt_map)
  ultimately have inv: "merkle_inv B ?t"
    using leaves out(6) build_tree_ok(2) [OF lv] by (simp add: merkle_inv_def)
  have ib: "insert_batch B vs t = Some (Inr ?t)" using False st upd(1) out(1) by (simp add: insert_batch_def)
  have tot: "vector_total ?s = vector_total out" using vector_total_mset [of ?s out] by simp
  have room: "vector_total (mt_leaves t) + length vs < 2 ^ 64" by (rule order.strict_trans1 [OF _ assms(3)]) simp
  have "batch_effect vs t ?t" unfolding batch_effect_def leaves Let_def
  proof (intro conjI allI impI)
    show "if unat n + length (assigned_vectors t vs i) \<le> ?mx
        then \<exists>h'. Leaf (absorb (assigned_vectors t vs i) c n) i (n + of_nat (length (assigned_vectors t vs i))) h' \<in> set ?s
        else i \<notin> id_key ` set ?s" if "Leaf c i n h \<in> set (mt_leaves t)" for c i n h
      using batch_effect_old [OF st upd(1) cl upd(2) out(4) room kp that refl] by simp
    show "mset (map (\<lambda>l. (node_centroid l, node_count l)) ?s) = mset (map (\<lambda>v. (v, 1)) (filter (\<lambda>v. length v = ?d) (map bv_vector vs)))"
      if e: "mt_leaves t = []"
    proof -
      have "upd = []" using upd(1) e by simp
      then have f: "map (\<lambda>l. (node_centroid l, node_count l)) out = map (\<lambda>v. (v, 1)) (filter (\<lambda>v. length v = ?d) (map bv_vector vs))"
        using batch_effect_first [OF st [unfolded e] assms(2)] out(1,4) by (simp add: clusters_ok_def)
      have "mset (map (\<lambda>l. (node_centroid l, node_count l)) ?s) = mset (map (\<lambda>l. (node_centroid l, node_count l)) out)" by simp
      then show ?thesis unfolding f .
    qed
  qed
  then show ?thesis using leaves inv ib tot out(5) by auto
qed

text \<open>
  C19. A batch insertion, for a maximum cluster size of at least 1 and ids and counts that do not overflow, returns and keeps the tree well-formed: the splitting loop ends, the
  removal of the sums does not panic, every hash is the hash of the node's content, every internal node aggregates its children, the clusters are sorted by
  distinct ids, none is empty or above the maximum. Every old cluster absorbs exactly the vectors of the batch (of the first one's dimension) that it is the nearest
  cluster of, in count and centroid, and is kept unless this makes it larger than the maximum, when it is replaced; in an empty tree every such vector becomes a cluster. The total
  count grows by the number of these vectors.
\<close>

theorem insert_batch_spec:
  assumes "merkle_inv B t" and "1 \<le> max_cluster_size t"
    and "unat (next_cluster_id t) + length vs + 2 * (vector_total (mt_leaves t) + length vs) < 2 ^ 64"
  shows "\<exists>t'. insert_batch B vs t = Some (Inr t') \<and> merkle_inv B t' \<and> max_cluster_size t' = max_cluster_size t \<and>
    vector_total (mt_leaves t') = vector_total (mt_leaves t) +
      length (filter (\<lambda>bv. length (bv_vector bv) = length (bv_vector (hd vs))) vs) \<and> batch_effect vs t t'"
  by (rule insert_batch_ok [OF assms])

definition demo_batch :: "buffered_vector list" where
  "demo_batch = map (\<lambda>i. \<lparr>bv_id = i, bv_vector = [Num 1], bv_metadata = JNull\<rparr>) [1, 2, 3]"

theorem insert_batch_spec_witness:
  "\<exists>t'. insert_batch (\<lambda>_. replicate 32 0) demo_batch (mt_new 2) = Some (Inr t') \<and> vector_total (mt_leaves t') = 3 \<and>
     mset (map node_centroid (mt_leaves t')) = {#[Num 1], [Num 1], [Num 1]#}"
proof -
  have "merkle_inv (\<lambda>_. replicate 32 0) (mt_new 2)" by (simp add: merkle_inv_def mt_new_def mt_leaves_def clusters_ok_def)
  from insert_batch_spec [OF this, of demo_batch] obtain t' where t: "insert_batch (\<lambda>_. replicate 32 0) demo_batch (mt_new 2) = Some (Inr t')"
      "vector_total (mt_leaves t') = 3" "batch_effect demo_batch (mt_new 2) t'"
    by (auto simp: mt_new_def mt_leaves_def demo_batch_def)
  have "mset (map (\<lambda>l. (node_centroid l, node_count l)) (mt_leaves t')) = mset (map (\<lambda>v. (v, 1)) [[Num 1], [Num 1], [Num 1]])"
    using t(3) by (simp add: batch_effect_def mt_new_def mt_leaves_def demo_batch_def)
  then have "image_mset fst (mset (map (\<lambda>l. (node_centroid l, node_count l)) (mt_leaves t'))) = {#[Num 1], [Num 1], [Num 1]#}" by simp
  then show ?thesis using t(1,2) by (auto simp: image_mset.compositionality comp_def)
qed

text \<open>
  C20. The root hash binds the clusters. Take two well-formed trees with equal root hashes. If Blake3 gives 32 bytes and has no
  collision among the inputs that these trees hash, and no centroid has 12 components (the preimage of a leaf would have
  the length of the preimage of an internal node), the two trees hold the same clusters in the same order: ids, counts and
  the bits of the centroids.
\<close>

theorem root_hash_binds_leaves:
  assumes "merkle_inv B t1" and "merkle_inv B t2" and "mt_root t1 = Some r1" and "mt_root t2 = Some r2"
    and "inj_on B (preimages r1 \<union> preimages r2)" and "\<forall>x \<in> preimages r1 \<union> preimages r2. length (B x) = 32"
    and "\<forall>l \<in> set (mt_leaves t1 @ mt_leaves t2). length (node_centroid l) \<noteq> 12"
    and "node_hash r1 = node_hash r2"
  shows "map leaf_content (mt_leaves t1) = map leaf_content (mt_leaves t2)"
  using same_hash_same_leaves [of B r1 r2] assms by (simp add: merkle_inv_def mt_leaves_def)

text \<open>A tree with one cluster, as the insertion of one vector builds it.\<close>

definition one_cluster :: "blake3 \<Rightarrow> merkle_tree" where
  "one_cluster B = (mt_new 2)\<lparr>mt_root := Some (recompute_hash B (Leaf [Num 1] 1 1 [])), next_cluster_id := 2\<rparr>"

theorem root_hash_binds_leaves_witness:
  "map leaf_content (mt_leaves (one_cluster (\<lambda>_. replicate 32 0))) =
   map leaf_content (mt_leaves ((one_cluster (\<lambda>_. replicate 32 0))\<lparr>max_cluster_size := 9\<rparr>))"
proof -
  let ?B = "\<lambda>_. replicate 32 0" and ?r = "Leaf [Num 1] 1 1 (replicate 32 0)"
  note defs = one_cluster_def merkle_inv_def mt_new_def mt_leaves_def clusters_ok_def
  have inv: "merkle_inv ?B (one_cluster ?B)" "merkle_inv ?B ((one_cluster ?B)\<lparr>max_cluster_size := 9\<rparr>)" by (simp_all add: defs)
  have r: "mt_root (one_cluster ?B) = Some ?r" "mt_root ((one_cluster ?B)\<lparr>max_cluster_size := 9\<rparr>) = Some ?r" by (simp_all add: defs)
  show ?thesis by (rule root_hash_binds_leaves [OF inv r]) (simp_all add: defs)
qed

text \<open>
  C21. Searching the clusters. When no distance is NaN, a search returns the \<open>k\<close> nearest clusters (all of them if there are
  fewer) in ascending order of distance with their distances, no cluster that is left out is nearer than one that is
  returned, and the nearest cluster that the assignment of vectors uses is the first result.
\<close>

theorem merkle_search_spec:
  assumes "merkle_inv B t" and "\<forall>l\<in>set (mt_leaves t). centroid_distance l q \<noteq> NaN" and "0 < k"
  shows "length (mt_search t q k) = min k (num_centroids t) \<and>
    sorted_wrt (\<lambda>a b. \<not> flt (snd b) (snd a)) (mt_search t q k) \<and>
    (\<forall>(i, x)\<in>set (mt_search t q k). \<exists>l\<in>set (mt_leaves t). i = id_key l \<and> x = centroid_distance l q) \<and>
    (\<forall>l\<in>set (mt_leaves t). id_key l \<notin> fst ` set (mt_search t q k) \<longrightarrow>
       (\<forall>r\<in>set (mt_search t q k). \<not> flt (centroid_distance l q) (snd r))) \<and>
    find_nearest_cluster t q = (case mt_search t q k of [] \<Rightarrow> None | r # _ \<Rightarrow> Some (fst r))"
proof -
  let ?le = "\<lambda>a b. fle_total (snd a) (snd b)" and ?ds = "leaf_distances (mt_leaves t) q"
  have ds: "?ds = map (\<lambda>l. (id_key l, centroid_distance l q)) (mt_leaves t)"
    using assms(1) by (intro leaf_distances_leaves) (auto simp: merkle_inv_def clusters_ok_def)
  have ok: "\<forall>y\<in>set ?ds. snd y \<noteq> NaN" using assms(2) by (auto simp: ds)
  have s: "mt_search t q k = take k (sort_by ?le ?ds)" using assms(3) by (simp add: mt_search_def nearest_first_def)
  have mem: "set (mt_search t q k) \<subseteq> set ?ds" unfolding s using set_take_subset by (metis set_sort_by)
  have srt: "sorted_wrt ?le (mt_search t q k)" unfolding s using asc_snd.sorted_sort_by [OF ok] by (rule sorted_wrt_take)
  have nn: "snd x \<noteq> NaN" if "x \<in> set (mt_search t q k)" for x using that mem ok by blast
  have "sorted_wrt (\<lambda>a b. \<not> flt (snd b) (snd a)) (mt_search t q k)"
    by (rule sorted_wrt_mono_rel [OF _ srt]) (simp add: fle_total_NaN nn)
  moreover have "\<not> flt (centroid_distance l q) (snd r)"
    if l: "l \<in> set (mt_leaves t)" "id_key l \<notin> fst ` set (mt_search t q k)" and r: "r \<in> set (mt_search t q k)" for l r
  proof -
    let ?p = "(id_key l, centroid_distance l q)"
    have "?p \<in> set (take k (sort_by ?le ?ds) @ drop k (sort_by ?le ?ds))" using l(1) by (simp add: ds)
    moreover have "?p \<notin> set (take k (sort_by ?le ?ds))" using l(2) unfolding s by force
    ultimately have "?p \<in> set (drop k (sort_by ?le ?ds))" unfolding set_append by blast
    then have "?le r ?p" using asc_snd.take_best [OF ok] r unfolding s by blast
    moreover have "snd r \<noteq> NaN" using r mem ok by blast
    ultimately show ?thesis using l(1) assms(2) by (simp add: fle_total_NaN)
  qed
  moreover have "find_nearest_cluster t q = (case mt_search t q k of [] \<Rightarrow> None | r # _ \<Rightarrow> Some (fst r))"
  proof (cases ?ds)
    case Nil
    then show ?thesis by (simp add: find_nearest_cluster_def s)
  next
    case (Cons d dr)
    have "find_nearest_cluster t q = Some (fst (hd (sort_by ?le ?ds)))"
      using asc_snd.min_by_hd_sort [of d dr] ok by (simp add: find_nearest_cluster_def Cons del: sort_by.simps)
    moreover have "sort_by ?le ?ds \<noteq> []" using Cons by (simp only: sort_by_Nil_iff list.distinct simp_thms)
    ultimately show ?thesis using assms(3) unfolding s by (cases "sort_by ?le ?ds"; cases k) auto
  qed
  moreover have "length (mt_search t q k) = min k (num_centroids t)" by (simp add: s ds num_centroids_def)
  moreover have "\<forall>(i, x)\<in>set (mt_search t q k). \<exists>l\<in>set (mt_leaves t). i = id_key l \<and> x = centroid_distance l q"
    using mem by (auto simp: ds)
  ultimately show ?thesis by blast
qed

theorem merkle_search_spec_witness:
  "length (mt_search (one_cluster (\<lambda>_. replicate 32 0)) [Num 0] 3) = 1"
proof -
  have "merkle_inv (\<lambda>_. replicate 32 0) (one_cluster (\<lambda>_. replicate 32 0))"
    by (simp add: one_cluster_def merkle_inv_def mt_new_def mt_leaves_def clusters_ok_def)
  moreover have "\<forall>l\<in>set (mt_leaves (one_cluster (\<lambda>_. replicate 32 0))). centroid_distance l [Num 0] \<noteq> NaN"
    by (simp add: one_cluster_def mt_leaves_def centroid_distance_def norm32_def fsum_def fmul_def feq_def fzero_def round_mag_def)
  ultimately show ?thesis
    using merkle_search_spec [of "\<lambda>_. replicate 32 0" "one_cluster (\<lambda>_. replicate 32 0)" "[Num 0]" 3]
    by (auto simp: num_centroids_def one_cluster_def mt_leaves_def)
qed

end
