(* ===== verification/Sharding.thy ===== *)
theory Sharding
  imports Core_Types
begin

text \<open>
  Sharding of \<open>tesseract-cluster\<close>: the jump consistent hash of \<open>jump_hash.rs\<close> with its floating-point steps, and the shard
  manager of \<open>shard_manager.rs\<close>.

  The loop of the hash ends when the step grows, which the rounding of \<open>f64\<close> can spoil for bucket counts of \<open>2 ^ 53\<close> and
  more, so it is an option-valued function: \<open>None\<close> is \<open>does not return\<close>. The map of assignments is an association list;
  \<open>serde_json\<close> is a parameter.
\<close>

section \<open>Jump consistent hash\<close>

text \<open>Two's complement: the value of a 64-bit pattern as \<open>i64\<close>.\<close>

definition as_i64 :: "int \<Rightarrow> int" where
  "as_i64 i = (i + 2 ^ 63) mod 2 ^ 64 - 2 ^ 63"

definition next_key :: "u64 \<Rightarrow> u64" where
  "next_key key = key * 2862933555777941757 + 1"

definition next_jump :: "u64 \<Rightarrow> int \<Rightarrow> int" where
  "next_jump key b = fto_int (- (2 ^ 63)) (2 ^ 63 - 1)
     (fdiv F64 (fmul F64 (fof_int F64 (as_i64 (b + 1))) (fof_int F64 (2 ^ 31))) (fof_int F64 (uint (drop_bit 33 key + 1))))"

partial_function (option) jump_loop :: "u64 \<Rightarrow> int \<Rightarrow> int \<Rightarrow> int \<Rightarrow> int option" where
  "jump_loop key b j n =
     (if j < n then jump_loop (next_key key) j (next_jump (next_key key) j) n else Some b)"

definition jump_hash :: "u64 \<Rightarrow> u64 \<Rightarrow> u64 option" where
  "jump_hash key num_buckets =
     (if num_buckets = 0 then Some 0
      else map_option word_of_int (jump_loop key (- 1) 0 (as_i64 (uint num_buckets))))"

section \<open>Shard manager\<close>

definition NUM_SHARDS :: u64 where
  "NUM_SHARDS = 64"

record shard_assignment =
  sa_shard_id :: u64
  sa_leader :: string
  sa_replicas :: "string list"

record shard_manager =
  assignments :: "(u64 \<times> shard_assignment) list"
  sm_node_id :: string

definition sm_new :: "string \<Rightarrow> shard_manager" where
  "sm_new node = \<lparr>assignments = [], sm_node_id = node\<rparr>"

definition shard_for :: "vector_id \<Rightarrow> u64 option" where
  "shard_for vid = jump_hash vid NUM_SHARDS"

definition get_leader :: "shard_manager \<Rightarrow> u64 \<Rightarrow> string option" where
  "get_leader s shard = map_option sa_leader (map_of (assignments s) shard)"

definition assign_shard :: "u64 \<Rightarrow> string \<Rightarrow> shard_manager \<Rightarrow> shard_manager" where
  "assign_shard shard leader s =
     (let replicas = (case map_of (assignments s) shard of None \<Rightarrow> [] | Some a \<Rightarrow> sa_replicas a)
      in s\<lparr>assignments := AList.update shard \<lparr>sa_shard_id = shard, sa_leader = leader, sa_replicas = replicas\<rparr> (assignments s)\<rparr>)"

definition sm_add_replica :: "u64 \<Rightarrow> string \<Rightarrow> shard_manager \<Rightarrow> shard_manager result" where
  "sm_add_replica shard replica s = (case map_of (assignments s) shard of
     None \<Rightarrow> Inl (ShardNotAssigned shard)
   | Some a \<Rightarrow> Inr (if replica \<in> set (sa_replicas a) then s
       else s\<lparr>assignments := AList.update shard (a\<lparr>sa_replicas := sa_replicas a @ [replica]\<rparr>) (assignments s)\<rparr>))"

definition drop_replica :: "string \<Rightarrow> u64 \<Rightarrow> u64 list \<times> shard_manager \<Rightarrow> u64 list \<times> shard_manager" where
  "drop_replica node shard = (\<lambda>(affected, s). case map_of (assignments s) shard of
     None \<Rightarrow> (affected, s)
   | Some a \<Rightarrow> ((if shard \<in> set affected then affected else affected @ [shard]),
       s\<lparr>assignments := AList.update shard (a\<lparr>sa_replicas := filter (\<lambda>r. r \<noteq> node) (sa_replicas a)\<rparr>) (assignments s)\<rparr>))"

definition sm_remove_node :: "string \<Rightarrow> shard_manager \<Rightarrow> u64 list \<times> shard_manager" where
  "sm_remove_node node s =
     (let leader_shards = map fst (filter (\<lambda>(_, a). sa_leader a = node) (assignments s));
          replica_shards = map fst (filter (\<lambda>(_, a). node \<in> set (sa_replicas a)) (assignments s))
      in fold (drop_replica node) replica_shards (leader_shards, s\<lparr>assignments := fold AList.delete leader_shards (assignments s)\<rparr>))"

definition my_shards :: "shard_manager \<Rightarrow> shard_assignment list" where
  "my_shards s = filter (\<lambda>a. sa_leader a = sm_node_id s \<or> sm_node_id s \<in> set (sa_replicas a)) (map snd (assignments s))"

record assignment_codec =
  ac_to_string :: "(u64 \<times> shard_assignment) list \<Rightarrow> string option"
  ac_from_str :: "string \<Rightarrow> string + (u64 \<times> shard_assignment) list"

definition sm_to_json :: "assignment_codec \<Rightarrow> shard_manager \<Rightarrow> string" where
  "sm_to_json K s = (case ac_to_string K (assignments s) of Some t \<Rightarrow> t | None \<Rightarrow> ''{}'')"

definition sm_from_json :: "assignment_codec \<Rightarrow> string \<Rightarrow> string \<Rightarrow> shard_manager result" where
  "sm_from_json K json node = (case ac_from_str K json of
     Inl e \<Rightarrow> Inl (ServiceError (''failed to parse shard assignments: '' @ e))
   | Inr m \<Rightarrow> Inr \<lparr>assignments = m, sm_node_id = node\<rparr>)"

definition assigned_leaders :: "shard_manager \<Rightarrow> (u64 \<times> string) list" where
  "assigned_leaders s = map (\<lambda>(shard, a). (shard, sa_leader a)) (assignments s)"

definition sm_len :: "shard_manager \<Rightarrow> nat" where
  "sm_len s = length (assignments s)"

section \<open>The jumps grow\<close>

lemma fof_int_exact: "\<bar>i\<bar> < 2 ^ 53 \<Longrightarrow> fof_int F64 i = Num (of_int i)"
  using fround_of_int [of i F64] by (simp add: fof_int_def)

lemma next_jump_grows:
  assumes "0 \<le> b" and "b + 1 < 2 ^ 53"
  shows "b < next_jump key b"
proof -
  define d where "d = uint (drop_bit 33 key + 1)"
  let ?p = "of_int (b + 1) * 2 ^ 31 :: rat"
  have b: "as_i64 (b + 1) = b + 1" using assms by (simp add: as_i64_def)
  have "uint (drop_bit 33 key) < 2 ^ 31"
  proof -
    have "uint (drop_bit 33 key) = uint key div 2 ^ 33" by (simp add: drop_bit_eq_div uint_div)
    moreover have "uint key < 2 ^ 64" using uint_lt2p [of key] by simp
    ultimately show ?thesis by simp
  qed
  then have d: "0 < d" "d \<le> 2 ^ 31" by (simp_all add: d_def uint_word_ariths)
  have m: "fmul F64 (fof_int F64 (b + 1)) (fof_int F64 (2 ^ 31)) = Num ?p"
  proof -
    have "0 < ?p" using assms(1) by simp
    have "round_mag F64 False ?p = Num (if False then - ?p else ?p)"
    proof (rule round_mag_exact [where m = "b + 1" and e = 31])
      show "?p = of_int (b + 1) * pow2 31" by (simp add: pow2_def)
      have l: "rat_of_int (b + 1) < of_int (2 ^ 53)" using assms(2) by (subst of_int_less_iff)
      then have "?p < pow2 53 * pow2 31" by (simp add: pow2_def)
      then show "?p < pow2 (31 + prec F64)" by (simp flip: pow2_add)
      also have "\<dots> < pow2 (emax F64)" by simp
      finally show "?p < pow2 (emax F64)" .
    qed (use \<open>0 < ?p\<close> in simp_all)
    moreover have "fof_int F64 (b + 1) = Num (of_int (b + 1))" "fof_int F64 (2 ^ 31) = Num (2 ^ 31)"
      using fof_int_exact [of "b + 1"] fof_int_exact [of "2 ^ 31"] assms by simp_all
    ultimately show ?thesis using assms(1) \<open>0 < ?p\<close> by (simp add: fmul_def abs_mult)
  qed
  have dd: "fof_int F64 d = Num (of_int d)" using d by (intro fof_int_exact) simp
  have "rat_of_int d \<le> of_int (2 ^ 31)" using d(2) by (subst of_int_le_iff)
  then have "of_int (b + 1) * rat_of_int d \<le> ?p" using assms(1) by (intro mult_left_mono) auto
  then have q: "of_int (b + 1) \<le> ?p / of_int d" using d(1) by (simp add: pos_le_divide_eq)
  have f: "fdiv F64 (Num ?p) (Num (of_int d)) = round_mag F64 False (?p / of_int d)"
    using d(1) assms(1) by (simp add: fdiv_def not_less)
  consider v where "round_mag F64 False (?p / of_int d) = Num v" "of_int (b + 1) \<le> v"
    | "round_mag F64 False (?p / of_int d) = Infty False"
    using round_mag_ge_int [of "b + 1" F64 "?p / of_int d"] q assms by force
  then show ?thesis
  proof cases
    case 1
    then have "b + 1 \<le> \<lfloor>v\<rfloor>" by (simp add: le_floor_iff)
    moreover have "0 \<le> v" using 1(2) assms(1) by (meson dual_order.trans of_int_0_le_iff zle_add1_eq_le add_nonneg_nonneg zero_le_one)
    ultimately show ?thesis using assms 1 f m dd b by (simp add: next_jump_def trunc_rat_def d_def)
  next
    case 2
    then show ?thesis using assms f m dd b by (simp add: next_jump_def d_def)
  qed
qed


text \<open>
  The loop ends, at a jump below the bucket count; and one bucket more moves the key to the new bucket or
  leaves it where it is.
\<close>

lemma jump_loop_step: "j < n \<Longrightarrow> jump_loop key b j n = jump_loop (next_key key) j (next_jump (next_key key) j) n"
  by (subst jump_loop.simps) simp

lemma jump_loop_done: "n \<le> j \<Longrightarrow> jump_loop key b j n = Some b"
  by (subst jump_loop.simps) simp

lemma jump_loop_total:
  assumes "n < 2 ^ 53" and "b < j" and "0 \<le> j"
  shows "\<exists>r. jump_loop key b j n = Some r \<and> (r = b \<and> n \<le> j \<or> j \<le> r \<and> r < n)"
  using assms(2,3)
proof (induction "nat (n - j)" arbitrary: key b j rule: less_induct)
  case less
  show ?case
  proof (cases "j < n")
    case False
    then show ?thesis by (simp add: jump_loop_done)
  next
    case True
    let ?k = "next_key key"
    have g: "j < next_jump ?k j" using True less.prems(2) assms(1) by (intro next_jump_grows) auto
    then have "nat (n - next_jump ?k j) < nat (n - j)" using True by simp
    from less.hyps [OF this g] less.prems(2) g
    obtain r where "jump_loop ?k j (next_jump ?k j) n = Some r" "r = j \<or> next_jump ?k j \<le> r \<and> r < n" by force
    then show ?thesis using True g by (auto simp: jump_loop_step)
  qed
qed

lemma jump_loop_next:
  assumes "n + 1 < 2 ^ 53" and "b < j" and "0 \<le> j" and "b < n"
  shows "jump_loop key b j (n + 1) = jump_loop key b j n \<or> jump_loop key b j (n + 1) = Some n"
  using assms(2-4)
proof (induction "nat (n - j)" arbitrary: key b j rule: less_induct)
  case less
  let ?k = "next_key key"
  have g: "j < next_jump ?k j" if "j \<le> n" using that less.prems(2) assms(1) by (intro next_jump_grows) auto
  consider "j < n" | "j = n" | "n < j" by linarith
  then show ?case
  proof cases
    case 1
    with g have "nat (n - next_jump ?k j) < nat (n - j)" by simp
    from less.hyps [OF this, of j ?k] 1 less.prems(2) g show ?thesis by (simp add: jump_loop_step)
  next
    case 2
    with g show ?thesis by (simp add: jump_loop_step [of n "n + 1"] jump_loop_done)
  next
    case 3
    then show ?thesis by (simp add: jump_loop_done)
  qed
qed

lemma as_i64_small: "0 \<le> i \<Longrightarrow> i < 2 ^ 53 \<Longrightarrow> as_i64 i = i"
  by (simp add: as_i64_def)

lemma jump_hash_loop:
  assumes "0 < n" and "unat n < 2 ^ 53"
  shows "\<exists>r. jump_loop key (- 1) 0 (uint n) = Some r \<and> 0 \<le> r \<and> r < uint n \<and> jump_hash key n = Some (word_of_int r)"
proof -
  have n: "uint n < 2 ^ 53" using assms by (simp flip: of_nat_less_iff [where 'a = int])
  have n0: "0 < uint n" using assms(1) by (simp add: word_less_def)
  obtain r where "jump_loop key (- 1) 0 (uint n) = Some r" "0 \<le> r" "r < uint n"
    using jump_loop_total [OF n, of "- 1" 0 key] n0 by auto
  then show ?thesis using n assms(1) as_i64_small [of "uint n"] by (simp add: jump_hash_def word_gt_0)
qed

section \<open>Removing a node\<close>

definition sm_inv :: "shard_manager \<Rightarrow> bool" where
  "sm_inv s \<longleftrightarrow> wf_map (assignments s) \<and> (\<forall>(k, a)\<in>set (assignments s). sa_shard_id a = k)"

lemma map_of_fold_delete: "map_of (fold AList.delete ks m) k = (if k \<in> set ks then None else map_of m k)"
  by (induction ks arbitrary: m) auto

definition without :: "string \<Rightarrow> shard_assignment \<Rightarrow> shard_assignment" where
  "without node a = a\<lparr>sa_replicas := filter (\<lambda>r. r \<noteq> node) (sa_replicas a)\<rparr>"

lemma drop_replicas_spec:
  assumes "fold (drop_replica node) ks (aff, s) = (aff', s')"
  shows "set aff' = set aff \<union> {k \<in> set ks. map_of (assignments s) k \<noteq> None} \<and>
    (distinct aff \<longrightarrow> distinct aff') \<and> (wf_map (assignments s) \<longrightarrow> wf_map (assignments s')) \<and> sm_node_id s' = sm_node_id s \<and>
    (\<forall>k. map_of (assignments s') k = (if k \<in> set ks then map_option (without node) (map_of (assignments s) k) else map_of (assignments s) k))"
  using assms
proof (induction ks arbitrary: aff s)
  case (Cons k ks)
  obtain aff1 s1 where st: "drop_replica node k (aff, s) = (aff1, s1)" by fastforce
  note IH = Cons.IH [of aff1 s1] 
  have one: "set aff1 = set aff \<union> (if map_of (assignments s) k = None then {} else {k})" "distinct aff \<longrightarrow> distinct aff1"
      "wf_map (assignments s) \<longrightarrow> wf_map (assignments s1)" "sm_node_id s1 = sm_node_id s"
      "map_of (assignments s1) j = (if j = k then map_option (without node) (map_of (assignments s) k) else map_of (assignments s) j)" for j
    using st by (auto simp: drop_replica_def without_def split: option.splits if_splits)
  have idem: "without node (without node a) = without node a" for a by (simp add: without_def)
  show ?case using IH Cons.prems st one idem by (auto simp: option.map_comp comp_def)
qed simp


section \<open>Properties\<close>

text \<open>
  C22. The jump hash is a consistent hash, for bucket counts below \<open>2 ^ 53 - 1\<close>: it returns, its value is a bucket, and with one
  bucket more a key either keeps its bucket or moves to the new one.
\<close>

theorem jump_hash_consistent:
  assumes "0 < n" and "unat n + 1 < 2 ^ 53"
  shows "\<exists>b. jump_hash key n = Some b \<and> b < n \<and> (jump_hash key (n + 1) = Some b \<or> jump_hash key (n + 1) = Some n)"
proof -
  obtain r where r: "jump_loop key (- 1) 0 (uint n) = Some r" "0 \<le> r" "r < uint n" "jump_hash key n = Some (word_of_int r)"
    using jump_hash_loop [OF assms(1), of key] assms(2) by auto
  have u: "unat (n + 1) = unat n + 1" using assms(2) by (intro unat_plus_one) simp
  then have n1: "0 < n + 1" "unat (n + 1) < 2 ^ 53" using assms(2) by (simp_all add: word_less_nat_alt)
  have ui: "uint (n + 1) = uint n + 1" using u by (metis of_nat_1 of_nat_add uint_nat)
  obtain r' where r': "jump_loop key (- 1) 0 (uint n + 1) = Some r'" "jump_hash key (n + 1) = Some (word_of_int r')"
    using jump_hash_loop [OF n1, of key] ui by auto
  have "uint n + 1 < 2 ^ 53" using assms(2) by (simp flip: of_nat_less_iff [where 'a = int])
  then have "r' = r \<or> r' = uint n" using jump_loop_next [of "uint n" "- 1" 0 key] r r' by auto
  moreover have "(word_of_int r :: u64) < n"
    using r(2,3) uint_lt2p [of n] by (simp add: word_less_def uint_word_of_int)
  ultimately show ?thesis using r(4) r'(2) by auto
qed

theorem jump_hash_consistent_witness:
  "\<exists>b. shard_for 42 = Some b \<and> b < 64"
  using jump_hash_consistent [of 64 42] by (auto simp: shard_for_def NUM_SHARDS_def)

lemma wf_fold_delete: "wf_map m \<Longrightarrow> wf_map (fold AList.delete ks m)"
  by (induction ks arbitrary: m) auto

lemma selected_keys: "wf_map m \<Longrightarrow> k \<in> set (map fst (filter (\<lambda>(_, a). P a) m)) \<longleftrightarrow> (\<exists>a. map_of m k = Some a \<and> P a)"
  using wf_map_lookup [of m] by force

lemma without_same: "without node a = a \<longleftrightarrow> node \<notin> set (sa_replicas a)"
  by (cases a) (auto simp: without_def filter_id_conv filter_empty_conv)

lemma remove_node_lookup:
  assumes wf: "wf_map (assignments s)" and f: "sm_remove_node node s = (affected, s')"
  shows "wf_map (assignments s')" "distinct affected"
    "map_of (assignments s') k = (case map_of (assignments s) k of None \<Rightarrow> None
       | Some a \<Rightarrow> if sa_leader a = node then None else Some (without node a))"
    "k \<in> set affected \<longleftrightarrow> map_of (assignments s') k \<noteq> map_of (assignments s) k"
proof -
  let ?m = "assignments s"
  define L where "L = map fst (filter (\<lambda>(_, a). sa_leader a = node) ?m)"
  define R where "R = map fst (filter (\<lambda>(_, a). node \<in> set (sa_replicas a)) ?m)"
  let ?s1 = "s\<lparr>assignments := fold AList.delete L ?m\<rparr>"
  have "fold (drop_replica node) R (L, ?s1) = (affected, s')" using f by (simp add: sm_remove_node_def Let_def L_def R_def)
  note d = drop_replicas_spec [OF this]
  have LR: "k \<in> set L \<longleftrightarrow> (\<exists>a. map_of ?m k = Some a \<and> sa_leader a = node)" "k \<in> set R \<longleftrightarrow> (\<exists>a. map_of ?m k = Some a \<and> node \<in> set (sa_replicas a))"
    unfolding L_def R_def by (rule selected_keys [OF wf])+
  have m': "map_of (assignments s') k = (if k \<in> set R then map_option (without node) (map_of (assignments ?s1) k) else map_of (assignments ?s1) k)"
    using d by blast
  show look: "map_of (assignments s') k = (case map_of ?m k of None \<Rightarrow> None | Some a \<Rightarrow> if sa_leader a = node then None else Some (without node a))"
    unfolding m' using without_same [of node, THEN iffD2] by (cases "map_of ?m k") (simp_all add: map_of_fold_delete LR)
  have "distinct L" using wf by (auto simp: L_def wf_map_def distinct_map_filter)
  then show "wf_map (assignments s')" "distinct affected" using d wf_fold_delete [OF wf, of L] by auto
  have "k \<in> set affected \<longleftrightarrow> k \<in> set L \<or> k \<in> set R \<and> map_of (assignments ?s1) k \<noteq> None" using d by blast
  then show "k \<in> set affected \<longleftrightarrow> map_of (assignments s') k \<noteq> map_of ?m k"
    using without_same [of node] by (cases "map_of ?m k") (simp_all add: map_of_fold_delete LR look)
qed

text \<open>
  C23. Removing a node leaves no trace of it: assignments it led are dropped, it is no longer a replica anywhere, every other
  part of the assignments is kept, and the returned list names exactly the shards whose assignment changed, each once.
\<close>

theorem remove_node_spec:
  assumes "sm_inv s" and "sm_remove_node node s = (affected, s')"
  shows "sm_inv s' \<and> distinct affected \<and>
    set affected = {k. map_of (assignments s') k \<noteq> map_of (assignments s) k} \<and>
    (\<forall>k. map_of (assignments s') k = (case map_of (assignments s) k of None \<Rightarrow> None
       | Some a \<Rightarrow> if sa_leader a = node then None else Some (without node a)))"
proof -
  note r = remove_node_lookup [OF _ assms(2)]
  have wf: "wf_map (assignments s)" using assms(1) by (simp add: sm_inv_def)
  have "sm_inv s'" unfolding sm_inv_def
  proof (intro conjI ballI r(1) [OF wf], clarify)
    fix k a
    assume "(k, a) \<in> set (assignments s')"
    then have "map_of (assignments s') k = Some a" using r(1) [OF wf] by (simp add: wf_map_lookup)
    then obtain a0 where "map_of (assignments s) k = Some a0" "a = without node a0" using r(3) [OF wf, of k] by (auto split: option.splits if_splits)
    then show "sa_shard_id a = k" using assms(1) wf by (force simp: sm_inv_def without_def wf_map_lookup)
  qed
  moreover have "set affected = {k. map_of (assignments s') k \<noteq> map_of (assignments s) k}" using r(4) [OF wf] by blast
  ultimately show ?thesis using r(2,3) [OF wf] by blast
qed

theorem remove_node_spec_witness:
  "\<exists>affected s'. sm_remove_node ''a'' (assign_shard 1 ''a'' (sm_new ''a'')) = (affected, s') \<and> set affected = {1}"
proof -
  let ?s = "assign_shard 1 ''a'' (sm_new ''a'')"
  have "sm_inv ?s" by (simp add: sm_inv_def assign_shard_def sm_new_def wf_map_def)
  moreover obtain aff s' where e: "sm_remove_node ''a'' ?s = (aff, s')" by fastforce
  ultimately have "set aff = {k. map_of (assignments s') k \<noteq> map_of (assignments ?s) k} \<and> (\<forall>k. map_of (assignments s') k =
      (case map_of (assignments ?s) k of None \<Rightarrow> None | Some a \<Rightarrow> if sa_leader a = ''a'' then None else Some (without ''a'' a)))"
    using remove_node_spec by blast
  then have "set aff = {1}" by (auto simp: assign_shard_def sm_new_def)
  then show ?thesis using e by blast
qed

end
