(* ===== verification/Cluster.thy ===== *)
theory Cluster
  imports Sharding
begin

text \<open>
  Membership, elections, replication and failover of \<open>tesseract-cluster\<close>: the node registry of \<open>discovery.rs\<close>, the
  per-shard election state of \<open>leader_election.rs\<close>, the replication engine of \<open>replication.rs\<close>, the failover manager of
  \<open>failover.rs\<close> and the cluster state of \<open>cluster.rs\<close>.

  Clock readings are arguments: wall-clock milliseconds for the registry, monotonic nanoseconds for instants. Every
  method runs under its lock, so it is one step; a poisoned lock does not occur in the model.
\<close>

section \<open>Node registry\<close>

datatype node_status = Active | Suspect | Dead

record node_info =
  ni_node_id :: string
  ni_addr :: string
  ni_status :: node_status
  ni_last_heartbeat :: string
  ni_shards :: "u64 list"

definition node_info_new :: "nat \<Rightarrow> string \<Rightarrow> string \<Rightarrow> u64 list \<Rightarrow> node_info" where
  "node_info_new now node addr shards =
     \<lparr>ni_node_id = node, ni_addr = addr, ni_status = Active, ni_last_heartbeat = show_nat now, ni_shards = shards\<rparr>"

text \<open>\<open>str::parse::<u128>\<close>: an optional plus sign, then at least one digit, below \<open>2 ^ 128\<close>.\<close>

definition parse_epoch_millis :: "string \<Rightarrow> nat option" where
  "parse_epoch_millis s =
     (let ds = (if s \<noteq> [] \<and> hd s = CHR ''+'' then tl s else s)
      in if ds \<noteq> [] \<and> list_all is_digit ds \<and> digits_val ds < 2 ^ 128 then Some (digits_val ds) else None)"

record node_registry =
  reg_nodes :: "(string \<times> node_info) list"
  reg_timeout_secs :: u64

definition registry_new :: "u64 \<Rightarrow> node_registry" where
  "registry_new secs = \<lparr>reg_nodes = [], reg_timeout_secs = secs\<rparr>"

definition register_node :: "node_info \<Rightarrow> node_registry \<Rightarrow> node_registry result" where
  "register_node info r = (case map_of (reg_nodes r) (ni_node_id info) of
     Some existing \<Rightarrow> (if ni_addr existing \<noteq> ni_addr info
       then Inl (NodeConflict (''node '' @ ni_node_id info @ '' already registered at '' @ ni_addr existing))
       else Inr (r\<lparr>reg_nodes := AList.update (ni_node_id info) info (reg_nodes r)\<rparr>))
   | None \<Rightarrow> Inr (r\<lparr>reg_nodes := AList.update (ni_node_id info) info (reg_nodes r)\<rparr>))"

definition reg_heartbeat :: "nat \<Rightarrow> string \<Rightarrow> node_registry \<Rightarrow> node_registry result" where
  "reg_heartbeat now node r = (case map_of (reg_nodes r) node of
     None \<Rightarrow> Inl (NotFound (''node '' @ node))
   | Some info \<Rightarrow> Inr (r\<lparr>reg_nodes :=
       AList.update node (info\<lparr>ni_last_heartbeat := show_nat now, ni_status := Active\<rparr>) (reg_nodes r)\<rparr>))"

definition mark_dead :: "string \<Rightarrow> node_registry \<Rightarrow> node_registry result" where
  "mark_dead node r = (case map_of (reg_nodes r) node of
     None \<Rightarrow> Inl (NotFound (''node '' @ node))
   | Some info \<Rightarrow> Inr (r\<lparr>reg_nodes := AList.update node (info\<lparr>ni_status := Dead\<rparr>) (reg_nodes r)\<rparr>))"

definition active_nodes :: "node_registry \<Rightarrow> node_info list" where
  "active_nodes r = filter (\<lambda>n. ni_status n = Active) (map snd (reg_nodes r))"

definition get_node :: "node_registry \<Rightarrow> string \<Rightarrow> node_info option" where
  "get_node r node = map_of (reg_nodes r) node"

definition reg_remove_node :: "string \<Rightarrow> node_registry \<Rightarrow> node_registry" where
  "reg_remove_node node r = r\<lparr>reg_nodes := AList.delete node (reg_nodes r)\<rparr>"

text \<open>The cast of the elapsed milliseconds to \<open>u64\<close> keeps the low 64 bits.\<close>

definition heartbeat_expired :: "nat \<Rightarrow> u64 \<Rightarrow> node_info \<Rightarrow> bool" where
  "heartbeat_expired now timeout info =
     (let beat = (case parse_epoch_millis (ni_last_heartbeat info) of Some m \<Rightarrow> m | None \<Rightarrow> 0)
      in ni_status info = Active \<and> unat timeout * 1000 < (now - beat) mod 2 ^ 64)"

definition check_heartbeats :: "nat \<Rightarrow> node_registry \<Rightarrow> string list \<times> node_registry" where
  "check_heartbeats now r =
     (let expired = heartbeat_expired now (reg_timeout_secs r)
      in (map ni_node_id (filter expired (map snd (reg_nodes r))),
          r\<lparr>reg_nodes := map (\<lambda>(k, info). (k, if expired info then info\<lparr>ni_status := Suspect\<rparr> else info)) (reg_nodes r)\<rparr>))"

definition reg_len :: "node_registry \<Rightarrow> nat" where
  "reg_len r = length (reg_nodes r)"

definition all_nodes :: "node_registry \<Rightarrow> node_info list" where
  "all_nodes r = map snd (reg_nodes r)"

section \<open>Leader election\<close>

datatype election_state = Leader | Candidate | Follower string | NoLeader

record leader_election =
  shard_states :: "(u64 \<times> election_state) list"
  le_node_id :: string
  le_timeout_ms :: u64
  last_leader_heartbeat :: "(u64 \<times> nat) list"

definition election_new :: "string \<Rightarrow> u64 \<Rightarrow> leader_election" where
  "election_new node timeout = \<lparr>shard_states = [], le_node_id = node, le_timeout_ms = timeout, last_leader_heartbeat = []\<rparr>"

definition election_state_of :: "leader_election \<Rightarrow> u64 \<Rightarrow> election_state" where
  "election_state_of e shard = (case map_of (shard_states e) shard of Some s \<Rightarrow> s | None \<Rightarrow> NoLeader)"

definition set_leader :: "u64 \<Rightarrow> string \<Rightarrow> leader_election \<Rightarrow> leader_election" where
  "set_leader shard leader e = e\<lparr>shard_states := AList.update shard (Follower leader) (shard_states e)\<rparr>"

definition become_candidate :: "u64 \<Rightarrow> leader_election \<Rightarrow> leader_election" where
  "become_candidate shard e = e\<lparr>shard_states := AList.update shard Candidate (shard_states e)\<rparr>"

text \<open>The \<open>Debug\<close> text of a string, with the named escapes (other control characters print as themselves here).\<close>

definition debug_char :: "char \<Rightarrow> string" where
  "debug_char c = (if c = CHR 0x22 then [CHR 0x5C, CHR 0x22] else if c = CHR 0x5C then [CHR 0x5C, CHR 0x5C]
     else if c = CHR 0x0A then [CHR 0x5C, CHR ''n''] else if c = CHR 0x0D then [CHR 0x5C, CHR ''r'']
     else if c = CHR 0x09 then [CHR 0x5C, CHR ''t''] else if c = CHR 0x00 then [CHR 0x5C, CHR ''0''] else [c])"

definition debug_string :: "string \<Rightarrow> string" where
  "debug_string s = CHR 0x22 # concat (map debug_char s) @ [CHR 0x22]"

fun show_state :: "election_state \<Rightarrow> string" where
  "show_state Leader = ''Leader''"
| "show_state Candidate = ''Candidate''"
| "show_state (Follower l) = ''Follower { leader_id: '' @ debug_string l @ '' }''"
| "show_state NoLeader = ''NoLeader''"

definition win_election :: "nat \<Rightarrow> u64 \<Rightarrow> leader_election \<Rightarrow> leader_election result" where
  "win_election now shard e = (case map_of (shard_states e) shard of
     Some Candidate \<Rightarrow> Inr (e\<lparr>shard_states := AList.update shard Leader (shard_states e),
       last_leader_heartbeat := AList.update shard now (last_leader_heartbeat e)\<rparr>)
   | Some Leader \<Rightarrow> Inr e
   | Some s \<Rightarrow> Inl (ServiceError (''Cannot win election for shard '' @ show_nat (unat shard) @ '': current state is '' @
       show_state s @ '', expected Candidate''))
   | None \<Rightarrow> Inl (ServiceError (''Cannot win election for shard '' @ show_nat (unat shard) @ '': no election state exists'')))"

definition record_leader_heartbeat :: "nat \<Rightarrow> u64 \<Rightarrow> leader_election \<Rightarrow> leader_election" where
  "record_leader_heartbeat now shard e = e\<lparr>last_leader_heartbeat := AList.update shard now (last_leader_heartbeat e)\<rparr>"

definition has_leader_timed_out :: "leader_election \<Rightarrow> u64 \<Rightarrow> nat \<Rightarrow> bool" where
  "has_leader_timed_out e shard now = (case map_of (last_leader_heartbeat e) shard of
     Some beat \<Rightarrow> unat (le_timeout_ms e) * 1000000 < now - beat
   | None \<Rightarrow> True)"

definition my_leaderships :: "leader_election \<Rightarrow> u64 list" where
  "my_leaderships e = map fst (filter (\<lambda>(_, s). s = Leader) (shard_states e))"

definition my_followerships :: "leader_election \<Rightarrow> (u64 \<times> string) list" where
  "my_followerships e = List.map_filter (\<lambda>(i, s). case s of Follower l \<Rightarrow> Some (i, l) | _ \<Rightarrow> None) (shard_states e)"

definition elected_count :: "leader_election \<Rightarrow> nat" where
  "elected_count e = length (filter (\<lambda>(_, s). case s of Leader \<Rightarrow> True | Follower _ \<Rightarrow> True | _ \<Rightarrow> False) (shard_states e))"

section \<open>Replication\<close>

datatype replica_state = Synced | Lagging u64 | Disconnected

record replication_entry =
  re_txn_id :: u64
  re_shard_id :: u64
  re_op_code :: u8
  re_payload :: "u8 list"

record replica_info =
  ri_node_id :: string
  ri_addr :: string
  ri_state :: replica_state
  ri_last_acked :: u64
  ri_last_heartbeat :: nat

record replication_config =
  rc_batch_size :: nat
  rc_interval_ms :: u64
  rc_ack_timeout_ms :: u64
  rc_max_lag :: u64

definition default_replication_config :: replication_config where
  "default_replication_config = \<lparr>rc_batch_size = 100, rc_interval_ms = 50, rc_ack_timeout_ms = 1000, rc_max_lag = 10000\<rparr>"

record replication_engine =
  rep_shard_id :: u64
  rep_replicas :: "(string \<times> replica_info) list"
  rep_pending :: "replication_entry list"
  rep_config :: replication_config

definition replication_new :: "u64 \<Rightarrow> replication_config \<Rightarrow> replication_engine" where
  "replication_new shard config = \<lparr>rep_shard_id = shard, rep_replicas = [], rep_pending = [], rep_config = config\<rparr>"

definition rep_add_replica :: "nat \<Rightarrow> string \<Rightarrow> string \<Rightarrow> replication_engine \<Rightarrow> replication_engine" where
  "rep_add_replica now node addr e = e\<lparr>rep_replicas := AList.update node
     \<lparr>ri_node_id = node, ri_addr = addr, ri_state = Synced, ri_last_acked = 0, ri_last_heartbeat = now\<rparr> (rep_replicas e)\<rparr>"

definition rep_remove_replica :: "string \<Rightarrow> replication_engine \<Rightarrow> replication_engine" where
  "rep_remove_replica node e = e\<lparr>rep_replicas := AList.delete node (rep_replicas e)\<rparr>"

definition has_replica :: "replication_engine \<Rightarrow> string \<Rightarrow> bool" where
  "has_replica e node \<longleftrightarrow> map_of (rep_replicas e) node \<noteq> None"

definition replica_count :: "replication_engine \<Rightarrow> nat" where
  "replica_count e = length (rep_replicas e)"

definition replica_info_of :: "replication_engine \<Rightarrow> string \<Rightarrow> replica_info option" where
  "replica_info_of e node = map_of (rep_replicas e) node"

definition last_txn :: "u64 \<Rightarrow> replication_entry list \<Rightarrow> u64" where
  "last_txn d es = (if es = [] then d else re_txn_id (last es))"

definition lag_state :: "u64 \<Rightarrow> u64 \<Rightarrow> replica_info \<Rightarrow> replica_info" where
  "lag_state mx max_txn r =
     (let lag = saturating_sub max_txn (ri_last_acked r)
      in r\<lparr>ri_state := (if mx < lag then Disconnected else if 0 < lag then Lagging lag
             else if ri_state r = Disconnected then Synced else ri_state r)\<rparr>)"

definition record_entry :: "replication_entry \<Rightarrow> replication_engine \<Rightarrow> replication_engine" where
  "record_entry en e =
     (let pending = rep_pending e @ [en]; max_txn = last_txn (re_txn_id en) pending
      in e\<lparr>rep_pending := pending,
           rep_replicas := map (\<lambda>(k, r). (k, lag_state (rc_max_lag (rep_config e)) max_txn r)) (rep_replicas e)\<rparr>)"

definition pending_for_replica :: "replication_engine \<Rightarrow> string \<Rightarrow> replication_entry list" where
  "pending_for_replica e node = (case map_of (rep_replicas e) node of
     None \<Rightarrow> []
   | Some info \<Rightarrow> filter (\<lambda>en. ri_last_acked info < re_txn_id en) (rep_pending e))"

definition pending_count :: "replication_engine \<Rightarrow> nat" where
  "pending_count e = length (rep_pending e)"

definition ack :: "nat \<Rightarrow> string \<Rightarrow> u64 \<Rightarrow> replication_engine \<Rightarrow> replication_engine" where
  "ack now node txn e = (case map_of (rep_replicas e) node of
     None \<Rightarrow> e
   | Some r \<Rightarrow>
       let acked = (if ri_last_acked r < txn then txn else ri_last_acked r);
           lag = saturating_sub (last_txn 0 (rep_pending e)) acked;
           state = (if lag = 0 then Synced else if rc_max_lag (rep_config e) < lag then Disconnected else Lagging lag)
       in e\<lparr>rep_replicas := AList.update node
            (r\<lparr>ri_last_acked := acked, ri_last_heartbeat := now, ri_state := state\<rparr>) (rep_replicas e)\<rparr>)"

definition replication_lag :: "replication_engine \<Rightarrow> string \<Rightarrow> u64 option" where
  "replication_lag e node = map_option (\<lambda>info. saturating_sub (last_txn 0 (rep_pending e)) (ri_last_acked info))
     (map_of (rep_replicas e) node)"

definition replica_states :: "replication_engine \<Rightarrow> (string \<times> replica_state) list" where
  "replica_states e = map (\<lambda>(_, r). (ri_node_id r, ri_state r)) (rep_replicas e)"

definition min_acked :: "replication_engine \<Rightarrow> u64" where
  "min_acked e = (if rep_replicas e = [] then 0 else Min (set (map (ri_last_acked \<circ> snd) (rep_replicas e))))"

definition trim_acked :: "replication_engine \<Rightarrow> replication_engine" where
  "trim_acked e = e\<lparr>rep_pending := filter (\<lambda>en. min_acked e < re_txn_id en) (rep_pending e)\<rparr>"

section \<open>Failover\<close>

record failover_config =
  fc_election_timeout_ms :: u64
  fc_check_interval_ms :: u64
  fc_max_promotion_lag :: u64

definition default_failover_config :: failover_config where
  "default_failover_config = \<lparr>fc_election_timeout_ms = 3000, fc_check_interval_ms = 500, fc_max_promotion_lag = 100\<rparr>"

text \<open>The shard manager is shared with the cluster state; here it is the manager's view of it.\<close>

record failover_manager =
  fm_election :: leader_election
  fm_config :: failover_config
  fm_node_id :: string
  fm_shards :: shard_manager
  fm_replications :: "(u64 \<times> replication_engine) list"

definition failover_new :: "string \<Rightarrow> failover_config \<Rightarrow> shard_manager \<Rightarrow> failover_manager" where
  "failover_new node config shards = \<lparr>fm_election = election_new node (fc_election_timeout_ms config), fm_config = config,
     fm_node_id = node, fm_shards = shards, fm_replications = []\<rparr>"

definition set_replication_engine :: "u64 \<Rightarrow> replication_engine \<Rightarrow> failover_manager \<Rightarrow> failover_manager" where
  "set_replication_engine shard rep f = f\<lparr>fm_replications := AList.update shard rep (fm_replications f)\<rparr>"

definition remove_replication_engine :: "u64 \<Rightarrow> failover_manager \<Rightarrow> failover_manager" where
  "remove_replication_engine shard f = f\<lparr>fm_replications := AList.delete shard (fm_replications f)\<rparr>"

definition is_eligible_for_promotion :: "failover_manager \<Rightarrow> replication_engine \<Rightarrow> bool" where
  "is_eligible_for_promotion f rep =
     ((case replication_lag rep (fm_node_id f) of Some lag \<Rightarrow> lag | None \<Rightarrow> - 1) \<le> fc_max_promotion_lag (fm_config f))"

definition shard_eligible :: "failover_manager \<Rightarrow> u64 \<Rightarrow> bool" where
  "shard_eligible f shard = (case map_of (fm_replications f) shard of
     Some rep \<Rightarrow> is_eligible_for_promotion f rep | None \<Rightarrow> False)"

text \<open>Become a candidate, win, and take the shard in the shard manager; \<open>t\<close> is the clock at the win.\<close>

definition take_over :: "nat \<Rightarrow> u64 \<Rightarrow> failover_manager \<Rightarrow> failover_manager result" where
  "take_over t shard f = rbind (win_election t shard (become_candidate shard (fm_election f)))
     (\<lambda>e. Inr (f\<lparr>fm_election := e, fm_shards := assign_shard shard (fm_node_id f) (fm_shards f)\<rparr>))"

text \<open>\<open>clk shard\<close> is the reading of the clock when the election of the shard is won.\<close>

fun failover_loop :: "(u64 \<Rightarrow> nat) \<Rightarrow> nat \<Rightarrow> (u64 \<times> string) list \<Rightarrow> failover_manager \<Rightarrow> (u64 list \<times> failover_manager) result" where
  "failover_loop clk now [] f = Inr ([], f)"
| "failover_loop clk now ((shard, _) # rest) f =
     (if \<not> has_leader_timed_out (fm_election f) shard now \<or> \<not> shard_eligible f shard then failover_loop clk now rest f
      else rbind (take_over (clk shard) shard f)
        (\<lambda>f'. rbind (failover_loop clk now rest f') (\<lambda>(promoted, f''). Inr (shard # promoted, f''))))"

definition check_and_failover :: "(u64 \<Rightarrow> nat) \<Rightarrow> nat \<Rightarrow> failover_manager \<Rightarrow> (u64 list \<times> failover_manager) result" where
  "check_and_failover clk now f = failover_loop clk now (my_followerships (fm_election f)) f"

text \<open>One tick of the background task: like the check, but a lost election is skipped.\<close>

fun monitor_loop :: "(u64 \<Rightarrow> nat) \<Rightarrow> nat \<Rightarrow> (u64 \<times> string) list \<Rightarrow> failover_manager \<Rightarrow> failover_manager" where
  "monitor_loop clk now [] f = f"
| "monitor_loop clk now ((shard, _) # rest) f =
     monitor_loop clk now rest
       (if \<not> has_leader_timed_out (fm_election f) shard now \<or> \<not> shard_eligible f shard then f
        else case take_over (clk shard) shard f of Inr f' \<Rightarrow> f'
          | Inl _ \<Rightarrow> f\<lparr>fm_election := become_candidate shard (fm_election f)\<rparr>)"

definition monitor_tick :: "(u64 \<Rightarrow> nat) \<Rightarrow> nat \<Rightarrow> failover_manager \<Rightarrow> failover_manager" where
  "monitor_tick clk now f = monitor_loop clk now (my_followerships (fm_election f)) f"

definition promote_to_leader :: "nat \<Rightarrow> u64 \<Rightarrow> failover_manager \<Rightarrow> (bool \<times> failover_manager) result" where
  "promote_to_leader t shard f =
     (if \<not> shard_eligible f shard then Inr (False, f) else rbind (take_over t shard f) (\<lambda>f'. Inr (True, f')))"

definition promotion_candidates :: "failover_manager \<Rightarrow> (u64 \<times> bool) list" where
  "promotion_candidates f = map (\<lambda>(shard, _). (shard, shard_eligible f shard)) (my_followerships (fm_election f))"

section \<open>Cluster state\<close>

record node_identity =
  id_node_id :: string
  id_addr :: string

text \<open>The shard manager of the state is the one that the failover manager holds.\<close>

record cluster_state =
  cl_identity :: node_identity
  cl_registry :: node_registry
  cl_leader_election :: leader_election
  cl_failover :: failover_manager

definition cluster_new :: "node_identity \<Rightarrow> node_registry \<Rightarrow> shard_manager \<Rightarrow> cluster_state" where
  "cluster_new identity registry shards = \<lparr>cl_identity = identity, cl_registry = registry,
     cl_leader_election = election_new (id_node_id identity) 3000,
     cl_failover = failover_new (id_node_id identity) default_failover_config shards\<rparr>"

definition cl_shards :: "cluster_state \<Rightarrow> shard_manager" where
  "cl_shards c = fm_shards (cl_failover c)"

definition cluster_join :: "nat \<Rightarrow> cluster_state \<Rightarrow> cluster_state result" where
  "cluster_join now c =
     (let owned = sort (map sa_shard_id (my_shards (cl_shards c)))
      in rbind (register_node (node_info_new now (id_node_id (cl_identity c)) (id_addr (cl_identity c)) owned) (cl_registry c))
           (\<lambda>r. Inr (c\<lparr>cl_registry := r\<rparr>)))"

definition cluster_leave :: "cluster_state \<Rightarrow> cluster_state result" where
  "cluster_leave c = Inr (c\<lparr>cl_registry := reg_remove_node (id_node_id (cl_identity c)) (cl_registry c)\<rparr>)"

section \<open>Decimal text and heartbeats\<close>

lemma parse_show: "n < 2 ^ 128 \<Longrightarrow> parse_epoch_millis (show_nat n) = Some n"
proof -
  assume n: "n < 2 ^ 128"
  have "hd (show_nat n) \<noteq> CHR ''+''"
  proof
    assume e: "hd (show_nat n) = CHR ''+''"
    have "is_digit (hd (show_nat n))" using show_nat_digits [of n] show_nat_nonempty [of n] by (cases "show_nat n") auto
    then show False unfolding e by (simp add: is_digit_def)
  qed
  then show ?thesis using n show_nat_digits [of n] by (simp add: parse_epoch_millis_def Let_def digits_val_show_nat)
qed

definition reg_inv :: "node_registry \<Rightarrow> bool" where
  "reg_inv r \<longleftrightarrow> wf_map (reg_nodes r) \<and> (\<forall>(k, info)\<in>set (reg_nodes r). ni_node_id info = k)"

lemma reg_inv_update: "reg_inv r \<Longrightarrow> ni_node_id info = k \<Longrightarrow> reg_inv (r\<lparr>reg_nodes := AList.update k info (reg_nodes r)\<rparr>)"
proof -
  assume r: "reg_inv r" and i: "ni_node_id info = k"
  have wf: "wf_map (reg_nodes r)" "wf_map (AList.update k info (reg_nodes r))" using r by (auto simp: reg_inv_def)
  have "ni_node_id x = j" if "(j, x) \<in> set (AList.update k info (reg_nodes r))" for j x
    using that r i unfolding wf_map_lookup [OF wf(2), symmetric] by (auto simp: reg_inv_def wf_map_lookup [OF wf(1)] split: if_splits)
  then show ?thesis using wf by (auto simp: reg_inv_def)
qed

section \<open>Taking shards over\<close>

text \<open>
  What elections and assignments have in common: taking a shard changes the entry of that shard and no other. A failover run
  takes several shards one after the other.
\<close>

locale shard_map =
  fixes look :: "'s \<Rightarrow> u64 \<Rightarrow> 'v"
    and take_shard :: "u64 \<Rightarrow> 's \<Rightarrow> 's"
    and given :: "u64 \<Rightarrow> 'v \<Rightarrow> 'v"
  assumes look_taken: "look (take_shard k s) k = given k (look s k)"
    and look_other: "j \<noteq> k \<Longrightarrow> look (take_shard k s) j = look s j"
begin

lemma look_taken_all: "distinct ks \<Longrightarrow> look (fold take_shard ks s) j = (if j \<in> set ks then given j (look s j) else look s j)"
proof (induction ks arbitrary: s)
  case (Cons k ks)
  then show ?case by (cases "j = k") (auto simp: look_taken look_other)
qed simp

end

definition win_candidate :: "(u64 \<Rightarrow> nat) \<Rightarrow> u64 \<Rightarrow> leader_election \<Rightarrow> leader_election" where
  "win_candidate clk shard e = or_keep (win_election (clk shard)) shard (become_candidate shard e)"

interpretation elect: shard_map "\<lambda>e k. map_of (shard_states e) k" "win_candidate clk" "\<lambda>_ _. Some Leader" for clk
  by unfold_locales (auto simp: win_candidate_def or_keep_def win_election_def become_candidate_def)

interpretation owner: shard_map "\<lambda>s k. map_of (assignments s) k" "\<lambda>k. assign_shard k node"
  "\<lambda>k a. Some \<lparr>sa_shard_id = k, sa_leader = node, sa_replicas = (case a of None \<Rightarrow> [] | Some a \<Rightarrow> sa_replicas a)\<rparr>" for node
  by unfold_locales (auto simp: assign_shard_def Let_def)

lemma take_over_wins:
  "take_over (clk shard) shard f =
     Inr (f\<lparr>fm_election := win_candidate clk shard (fm_election f), fm_shards := assign_shard shard (fm_node_id f) (fm_shards f)\<rparr>)"
  by (simp add: take_over_def win_candidate_def or_keep_def win_election_def become_candidate_def)

lemma win_candidate_other: "j \<noteq> k \<Longrightarrow> has_leader_timed_out (win_candidate clk k e) j now = has_leader_timed_out e j now"
  by (simp add: win_candidate_def or_keep_def win_election_def become_candidate_def has_leader_timed_out_def split: option.split)

text \<open>The shards that a failover run takes: followed, timed out, and with a small enough lag.\<close>

definition promotable :: "nat \<Rightarrow> failover_manager \<Rightarrow> (u64 \<times> string) list \<Rightarrow> u64 list" where
  "promotable now f fs = map fst (filter (\<lambda>(s, _). has_leader_timed_out (fm_election f) s now \<and> shard_eligible f s) fs)"

lemma failover_loop_spec:
  "distinct (map fst fs) \<Longrightarrow> failover_loop clk now fs f = Inr (promotable now f fs,
     f\<lparr>fm_election := fold (win_candidate clk) (promotable now f fs) (fm_election f),
       fm_shards := fold (\<lambda>k. assign_shard k (fm_node_id f)) (promotable now f fs) (fm_shards f)\<rparr>)"
  unfolding promotable_def
proof (induction fs arbitrary: f)
  case (Cons p fs)
  obtain k l where p: "p = (k, l)" by fastforce
  have el: "shard_eligible (f\<lparr>fm_election := e, fm_shards := s\<rparr>) j = shard_eligible f j" for e s j
    by (simp add: shard_eligible_def is_eligible_for_promotion_def split: option.split)
  have "filter (\<lambda>(s, _). has_leader_timed_out (win_candidate clk k (fm_election f)) s now \<and> shard_eligible f s) fs =
      filter (\<lambda>(s, _). has_leader_timed_out (fm_election f) s now \<and> shard_eligible f s) fs"
    using Cons.prems p by (intro filter_cong) (auto simp: win_candidate_other image_iff)
  then show ?case using Cons p by (simp add: take_over_wins el)
qed simp

lemma followerships: "wf_map (shard_states e) \<Longrightarrow> distinct (map fst (my_followerships e)) \<and>
    set (my_followerships e) = {(k, l). map_of (shard_states e) k = Some (Follower l)}"
proof -
  assume wf: "wf_map (shard_states e)"
  let ?g = "\<lambda>(i :: u64, s). case s of Follower l \<Rightarrow> Some (i, l) | _ \<Rightarrow> None"
  have "map fst (List.map_filter ?g m) = map fst (filter (\<lambda>(i, s). \<exists>l. s = Follower l) m)" for m
    by (induction m) (auto simp: List.map_filter_simps split: election_state.split)
  then have "distinct (map fst (my_followerships e))"
    using wf by (simp add: my_followerships_def wf_map_def distinct_map_filter)
  moreover have "set (List.map_filter ?g m) = {(k, l). (k, Follower l) \<in> set m}" for m
    by (induction m) (auto simp: List.map_filter_simps split: election_state.splits)
  ultimately show ?thesis using wf by (simp add: my_followerships_def wf_map_lookup)
qed

lemma set_promotable:
  "set (promotable now f fs) = {k. (\<exists>l. (k, l) \<in> set fs) \<and> has_leader_timed_out (fm_election f) k now \<and> shard_eligible f k}"
  unfolding promotable_def by force

lemma follower_iff: "election_state_of e k = Follower l \<longleftrightarrow> map_of (shard_states e) k = Some (Follower l)"
  by (simp add: election_state_of_def split: option.split)

section \<open>Runs of the replication engine\<close>

datatype rep_event =
    RecordEv replication_entry
  | AckEv nat string u64
  | TrimEv
  | AddEv nat string string
  | RemoveEv string

fun rep_step :: "rep_event \<Rightarrow> replication_engine \<Rightarrow> replication_engine" where
  "rep_step (RecordEv en) e = record_entry en e"
| "rep_step (AckEv now node txn) e = ack now node txn e"
| "rep_step TrimEv e = trim_acked e"
| "rep_step (AddEv now node addr) e = rep_add_replica now node addr e"
| "rep_step (RemoveEv node) e = rep_remove_replica node e"

fun recorded :: "rep_event list \<Rightarrow> replication_entry list" where
  "recorded [] = []"
| "recorded (RecordEv en # evs) = en # recorded evs"
| "recorded (_ # evs) = recorded evs"

fun concerns :: "string \<Rightarrow> rep_event \<Rightarrow> bool" where
  "concerns node (AddEv _ n _) \<longleftrightarrow> n = node"
| "concerns node (RemoveEv n) \<longleftrightarrow> n = node"
| "concerns node _ \<longleftrightarrow> False"

abbreviation unacked :: "u64 \<Rightarrow> replication_entry list \<Rightarrow> replication_entry list" where
  "unacked a \<equiv> filter (\<lambda>en. a < re_txn_id en)"

lemma unacked_twice: "a \<le> b \<Longrightarrow> unacked b (unacked a xs @ ys) = unacked b (xs @ ys)"
  by (auto intro: filter_cong)

lemma min_acked_le: "map_of (rep_replicas e) node = Some info \<Longrightarrow> min_acked e \<le> ri_last_acked info"
proof -
  assume "map_of (rep_replicas e) node = Some info"
  then have m: "(node, info) \<in> set (rep_replicas e)" by (rule map_of_SomeD)
  then have "ri_last_acked info \<in> set (map (ri_last_acked \<circ> snd) (rep_replicas e))" by force
  moreover have "rep_replicas e \<noteq> []" using m by auto
  ultimately show ?thesis by (simp add: min_acked_def)
qed

text \<open>One step: a registered replica keeps everything it has not acknowledged.\<close>

lemma rep_step_pending:
  assumes "map_of (rep_replicas e) node = Some info" and "\<not> concerns node ev"
  shows "\<exists>info'. map_of (rep_replicas (rep_step ev e)) node = Some info' \<and> ri_last_acked info \<le> ri_last_acked info' \<and>
    pending_for_replica (rep_step ev e) node = unacked (ri_last_acked info') (pending_for_replica e node @ recorded [ev])"
proof (cases ev)
  case (RecordEv en)
  then show ?thesis using assms
    by (simp add: record_entry_def Let_def pending_for_replica_def map_of_vals lag_state_def)
next
  case (AckEv now n txn)
  show ?thesis
  proof (cases "n = node")
    case True
    let ?a = "if ri_last_acked info < txn then txn else ri_last_acked info"
    have "unacked ?a (rep_pending e) = unacked ?a (unacked (ri_last_acked info) (rep_pending e))" by (auto intro: filter_cong)
    then show ?thesis using AckEv True assms by (simp add: ack_def Let_def pending_for_replica_def less_imp_le)
  next
    case False
    then show ?thesis using AckEv assms by (simp add: ack_def Let_def pending_for_replica_def split: option.split)
  qed
next
  case TrimEv
  have "unacked (ri_last_acked info) (unacked (min_acked e) (rep_pending e)) = unacked (ri_last_acked info) (rep_pending e)"
    using min_acked_le [OF assms(1)] by (auto intro: filter_cong)
  then show ?thesis using TrimEv assms by (simp add: trim_acked_def pending_for_replica_def)
next
  case (AddEv now n addr)
  then show ?thesis using assms by (simp add: rep_add_replica_def pending_for_replica_def)
next
  case (RemoveEv n)
  then show ?thesis using assms by (simp add: rep_remove_replica_def pending_for_replica_def)
qed

lemma recorded_Cons: "recorded (ev # evs) = recorded [ev] @ recorded evs"
  by (cases ev) simp_all

lemma rep_run_pending:
  assumes "map_of (rep_replicas e) node = Some info" and "\<forall>ev\<in>set evs. \<not> concerns node ev"
  shows "\<exists>info'. map_of (rep_replicas (fold rep_step evs e)) node = Some info' \<and> ri_last_acked info \<le> ri_last_acked info' \<and>
    pending_for_replica (fold rep_step evs e) node = unacked (ri_last_acked info') (pending_for_replica e node @ recorded evs)"
  using assms
proof (induction evs arbitrary: e info)
  case Nil
  then show ?case by (simp add: pending_for_replica_def)
next
  case (Cons ev evs)
  obtain i1 where i1: "map_of (rep_replicas (rep_step ev e)) node = Some i1" "ri_last_acked info \<le> ri_last_acked i1"
      "pending_for_replica (rep_step ev e) node = unacked (ri_last_acked i1) (pending_for_replica e node @ recorded [ev])"
    using rep_step_pending [OF Cons.prems(1), of ev] Cons.prems(2) by auto
  obtain i2 where i2: "map_of (rep_replicas (fold rep_step evs (rep_step ev e))) node = Some i2" "ri_last_acked i1 \<le> ri_last_acked i2"
      "pending_for_replica (fold rep_step evs (rep_step ev e)) node =
         unacked (ri_last_acked i2) (pending_for_replica (rep_step ev e) node @ recorded evs)"
    using Cons.IH [OF i1(1)] Cons.prems(2) by auto
  have "unacked (ri_last_acked i2) (pending_for_replica (rep_step ev e) node @ recorded evs) =
      unacked (ri_last_acked i2) (pending_for_replica e node @ recorded (ev # evs))"
    unfolding i1(3) unacked_twice [OF i2(2)] by (simp add: recorded_Cons [of ev evs])
  then show ?case using i1(2) i2 by auto
qed

section \<open>Runs of an election\<close>

inductive election_step :: "leader_election \<Rightarrow> leader_election \<Rightarrow> bool" where
  learn: "election_step e (set_leader shard leader e)"
| stand: "election_step e (become_candidate shard e)"
| win: "win_election now shard e = Inr e' \<Longrightarrow> election_step e e'"
| beat: "election_step e (record_leader_heartbeat now shard e)"

inductive election_reach :: "leader_election \<Rightarrow> bool" where
  start: "election_reach (election_new node timeout)"
| step: "election_reach e \<Longrightarrow> election_step e e' \<Longrightarrow> election_reach e'"

inductive_cases election_stepE: "election_step e e'"

lemmas election_ops = set_leader_def become_candidate_def record_leader_heartbeat_def election_new_def

definition election_inv :: "leader_election \<Rightarrow> bool" where
  "election_inv e \<longleftrightarrow> wf_map (shard_states e) \<and> wf_map (last_leader_heartbeat e) \<and>
     (\<forall>k. map_of (shard_states e) k = Some Leader \<longrightarrow> map_of (last_leader_heartbeat e) k \<noteq> None)"

lemma win_election_cases:
  assumes "win_election now shard e = Inr e'"
  shows "map_of (shard_states e) shard = Some Leader \<and> e' = e \<or>
    map_of (shard_states e) shard = Some Candidate \<and>
    e' = e\<lparr>shard_states := AList.update shard Leader (shard_states e), last_leader_heartbeat := AList.update shard now (last_leader_heartbeat e)\<rparr>"
  using assms by (auto simp: win_election_def split: option.splits election_state.splits)

lemma election_step_inv: "election_step e e' \<Longrightarrow> election_inv e \<Longrightarrow> election_inv e'"
  by (erule election_stepE) (auto simp: election_inv_def election_ops dest!: win_election_cases)

lemma election_reach_inv: "election_reach e \<Longrightarrow> election_inv e"
proof (induction rule: election_reach.induct)
  case (start node timeout)
  then show ?case by (simp add: election_inv_def election_ops)
next
  case (step e e')
  then show ?case by (blast intro: election_step_inv)
qed

lemma election_step_leader:
  assumes "election_step e e'" and "map_of (shard_states e') k = Some Leader" and "map_of (shard_states e) k \<noteq> Some Leader"
  shows "map_of (shard_states e) k = Some Candidate"
  using assms by (cases rule: election_stepE) (auto simp: election_ops split: if_splits dest!: win_election_cases)

section \<open>Properties\<close>

text \<open>
  C25. Replication loses nothing that a registered replica still needs. However records, acknowledgements (also stale or repeated
  ones), trims and changes of other replicas are interleaved, the entries pending for a replica are exactly the ones
  that were pending at the start or recorded since and have a transaction id above its last acknowledgement, in
  order; and that acknowledgement never goes back.
\<close>

theorem replica_pending_complete:
  assumes "map_of (rep_replicas e) node = Some info" and "\<forall>ev\<in>set evs. \<not> concerns node ev"
  shows "\<exists>info'. replica_info_of (fold rep_step evs e) node = Some info' \<and> ri_last_acked info \<le> ri_last_acked info' \<and>
    pending_for_replica (fold rep_step evs e) node =
      filter (\<lambda>en. ri_last_acked info' < re_txn_id en) (pending_for_replica e node @ recorded evs)"
  using rep_run_pending [OF assms] by (simp add: replica_info_of_def)

theorem replica_pending_complete_witness:
  "\<exists>info'. replica_info_of (fold rep_step [RecordEv \<lparr>re_txn_id = 1, re_shard_id = 0, re_op_code = 1, re_payload = []\<rparr>, AckEv 0 ''b'' 1, TrimEv]
      (rep_add_replica 0 ''b'' ''addr'' (replication_new 0 default_replication_config))) ''b'' = Some info'"
  using replica_pending_complete [of "rep_add_replica 0 ''b'' ''addr'' (replication_new 0 default_replication_config)" "''b''" _
      "[RecordEv \<lparr>re_txn_id = 1, re_shard_id = 0, re_op_code = 1, re_payload = []\<rparr>, AckEv 0 ''b'' 1, TrimEv]"]
  by (force simp: rep_add_replica_def replication_new_def)

text \<open>
  A replica that joins after a trim is reported as synced although it has none of the trimmed entries: when
  every pending entry was acknowledged and trimmed, a new replica has lag 0 and nothing pending.
\<close>

lemma late_replica_misses_history:
  assumes "\<forall>en\<in>set (rep_pending e). re_txn_id en \<le> min_acked e"
  shows "let e' = rep_add_replica now node addr (trim_acked e)
    in replication_lag e' node = Some 0 \<and> pending_for_replica e' node = [] \<and> map_option ri_state (replica_info_of e' node) = Some Synced"
proof -
  have "filter (\<lambda>en. min_acked e < re_txn_id en) (rep_pending e) = []" using assms by (auto simp: filter_empty_conv not_less)
  then show ?thesis
    by (simp add: Let_def rep_add_replica_def trim_acked_def replication_lag_def pending_for_replica_def replica_info_of_def
        last_txn_def saturating_sub_def)
qed

text \<open>
  C26. A failover check promotes exactly the shards that the node follows, whose leader has timed out, and for which the node's
  lag is within the limit. It never fails. Each promoted shard ends as led by this node, in the election state and in the shard
  manager (where it keeps its replicas); every other shard is as before.
\<close>

theorem check_and_failover_spec:
  assumes "election_inv (fm_election f)"
  shows "\<exists>promoted f'. check_and_failover clk now f = Inr (promoted, f') \<and> distinct promoted \<and>
    set promoted = {k. (\<exists>l. election_state_of (fm_election f) k = Follower l) \<and> has_leader_timed_out (fm_election f) k now \<and> shard_eligible f k} \<and>
    (\<forall>k. election_state_of (fm_election f') k = (if k \<in> set promoted then Leader else election_state_of (fm_election f) k)) \<and>
    (\<forall>k. get_leader (fm_shards f') k = (if k \<in> set promoted then Some (fm_node_id f) else get_leader (fm_shards f) k)) \<and>
    (\<forall>k a. map_of (assignments (fm_shards f)) k = Some a \<longrightarrow> map_option sa_replicas (map_of (assignments (fm_shards f')) k) = Some (sa_replicas a))"
proof -
  have wf: "wf_map (shard_states (fm_election f))" using assms by (simp add: election_inv_def)
  define ps where "ps = promotable now f (my_followerships (fm_election f))"
  let ?f = "f\<lparr>fm_election := fold (win_candidate clk) ps (fm_election f), fm_shards := fold (\<lambda>k. assign_shard k (fm_node_id f)) ps (fm_shards f)\<rparr>"
  have run: "check_and_failover clk now f = Inr (ps, ?f)"
    using failover_loop_spec followerships [OF wf] by (simp add: check_and_failover_def ps_def)
  have dist: "distinct ps" using followerships [OF wf] by (simp add: ps_def promotable_def distinct_map_filter)
  have sps: "set ps = {k. (\<exists>l. election_state_of (fm_election f) k = Follower l) \<and> has_leader_timed_out (fm_election f) k now \<and> shard_eligible f k}"
    using followerships [OF wf] by (simp add: ps_def set_promotable follower_iff)
  have est: "election_state_of (fm_election ?f) k = (if k \<in> set ps then Leader else election_state_of (fm_election f) k)" for k
    using elect.look_taken_all [OF dist, of clk "fm_election f" k] by (simp add: election_state_of_def)
  have own: "map_of (assignments (fm_shards ?f)) k = (if k \<in> set ps then Some \<lparr>sa_shard_id = k, sa_leader = fm_node_id f,
      sa_replicas = (case map_of (assignments (fm_shards f)) k of None \<Rightarrow> [] | Some a \<Rightarrow> sa_replicas a)\<rparr>
      else map_of (assignments (fm_shards f)) k)" for k
    using owner.look_taken_all [OF dist, of "fm_node_id f" "fm_shards f" k] by simp
  then have ld: "get_leader (fm_shards ?f) k = (if k \<in> set ps then Some (fm_node_id f) else get_leader (fm_shards f) k)" for k
    by (simp add: get_leader_def)
  have rp: "map_option sa_replicas (map_of (assignments (fm_shards ?f)) k) = Some (sa_replicas a)"
    if "map_of (assignments (fm_shards f)) k = Some a" for k a using own [of k] that by simp
  show ?thesis by (intro exI conjI allI impI) (rule run, rule dist, rule sps, rule est, rule ld, erule rp)
qed

lemma failover_takes_shard:
  assumes "distinct ps" and "k \<in> set ps"
  shows "election_state_of (fold (win_candidate clk) ps e) k = Leader" and "get_leader (fold (\<lambda>k. assign_shard k node) ps s) k = Some node"
  using elect.look_taken_all [OF assms(1), of clk e k] owner.look_taken_all [OF assms(1), of node s k] assms(2)
  by (simp_all add: election_state_of_def get_leader_def)

lemma failover_takes:
  assumes "election_inv (fm_election h)" and "election_state_of (fm_election h) k = Follower l"
    and "has_leader_timed_out (fm_election h) k now" and "shard_eligible h k"
  shows "\<exists>ps h'. check_and_failover clk now h = Inr (ps, h') \<and> election_state_of (fm_election h') k = Leader \<and>
    get_leader (fm_shards h') k = Some (fm_node_id h)"
proof -
  have wf: "wf_map (shard_states (fm_election h))" using assms(1) by (simp add: election_inv_def)
  let ?ps = "promotable now h (my_followerships (fm_election h))"
  have d: "distinct ?ps" using followerships [OF wf] by (simp add: promotable_def distinct_map_filter)
  have "k \<in> set ?ps" using followerships [OF wf] assms(2-4) by (auto simp: set_promotable follower_iff)
  from failover_takes_shard [OF d this] show ?thesis
    using failover_loop_spec followerships [OF wf] by (simp add: check_and_failover_def)
qed

text \<open>A manager that follows shard 3, has lag 0 for it, and has never seen a heartbeat.\<close>

definition waiting_manager :: "string \<Rightarrow> failover_manager" where
  "waiting_manager node = (set_replication_engine 3 (rep_add_replica 0 node ''addr'' (replication_new 3 default_replication_config))
     (failover_new node default_failover_config (sm_new node)))\<lparr>fm_election := set_leader 3 ''old'' (election_new node 3000)\<rparr>"

lemma waiting_manager:
  "election_inv (fm_election (waiting_manager node))" "election_state_of (fm_election (waiting_manager node)) 3 = Follower ''old''"
  "has_leader_timed_out (fm_election (waiting_manager node)) 3 now" "shard_eligible (waiting_manager node) 3"
  "fm_node_id (waiting_manager node) = node"
  by (simp_all add: waiting_manager_def set_replication_engine_def election_inv_def election_ops election_state_of_def wf_map_def
      has_leader_timed_out_def shard_eligible_def is_eligible_for_promotion_def replication_lag_def rep_add_replica_def failover_new_def
      replication_new_def last_txn_def default_failover_config_def saturating_sub_def)

theorem check_and_failover_spec_witness:
  "\<exists>promoted f'. check_and_failover (\<lambda>_. 9) 9 (waiting_manager ''n'') = Inr (promoted, f') \<and> 3 \<in> set promoted"
  using check_and_failover_spec [OF waiting_manager(1), of "\<lambda>_. 9" 9 "''n''"] waiting_manager [of "''n''"] by blast

text \<open>
  C27. Two nodes can lead one shard. When two nodes follow the same shard, both have lost its leader and both are eligible, the
  checks of both make each of them the leader in its own view, with its own name in its own shard manager.
\<close>

theorem failover_split_brain:
  assumes "election_inv (fm_election f)" and "election_inv (fm_election g)" and "fm_node_id f \<noteq> fm_node_id g"
    and "election_state_of (fm_election f) k = Follower l" and "election_state_of (fm_election g) k = Follower l"
    and "has_leader_timed_out (fm_election f) k now" and "has_leader_timed_out (fm_election g) k now"
    and "shard_eligible f k" and "shard_eligible g k"
  shows "\<exists>ps f' qs g'. check_and_failover clk now f = Inr (ps, f') \<and> check_and_failover clk now g = Inr (qs, g') \<and>
    election_state_of (fm_election f') k = Leader \<and> election_state_of (fm_election g') k = Leader \<and>
    get_leader (fm_shards f') k \<noteq> get_leader (fm_shards g') k"
proof -
  have one: "\<exists>ps h'. check_and_failover clk now h = Inr (ps, h') \<and> election_state_of (fm_election h') k = Leader \<and>
      get_leader (fm_shards h') k = Some (fm_node_id h)"
    if "election_inv (fm_election h)" "election_state_of (fm_election h) k = Follower l"
      "has_leader_timed_out (fm_election h) k now" "shard_eligible h k" for h
    by (rule failover_takes [OF that])
  show ?thesis using one [OF assms(1,4,6,8)] one [OF assms(2,5,7,9)] assms(3) by (metis option.inject)
qed

theorem failover_split_brain_witness:
  "\<exists>ps f' qs g'. check_and_failover (\<lambda>_. 9) 9 (waiting_manager ''a'') = Inr (ps, f') \<and>
    check_and_failover (\<lambda>_. 9) 9 (waiting_manager ''b'') = Inr (qs, g') \<and>
    election_state_of (fm_election f') 3 = Leader \<and> election_state_of (fm_election g') 3 = Leader \<and>
    get_leader (fm_shards f') 3 \<noteq> get_leader (fm_shards g') 3"
  by (rule failover_split_brain [OF waiting_manager(1) waiting_manager(1) _ waiting_manager(2) waiting_manager(2)
        waiting_manager(3) waiting_manager(3) waiting_manager(4) waiting_manager(4)]) (simp add: waiting_manager(5))

text \<open>
  C24. In every reachable election state a shard that this node leads has a recorded heartbeat, and a step makes the node the
  leader of a shard only from the candidate state.
\<close>

theorem election_safety:
  assumes "election_reach e"
  shows "(\<forall>k. election_state_of e k = Leader \<longrightarrow> map_of (last_leader_heartbeat e) k \<noteq> None) \<and>
    (\<forall>e' k. election_step e e' \<and> election_state_of e' k = Leader \<and> election_state_of e k \<noteq> Leader \<longrightarrow> election_state_of e k = Candidate)"
proof -
  have l: "election_state_of x k = Leader \<longleftrightarrow> map_of (shard_states x) k = Some Leader" for x k
    by (simp add: election_state_of_def split: option.split)
  have c: "map_of (shard_states x) k = Some Candidate \<Longrightarrow> election_state_of x k = Candidate" for x k
    by (simp add: election_state_of_def)
  show ?thesis using election_reach_inv [OF assms] election_step_leader [of e] c unfolding l election_inv_def by blast
qed

definition led_election :: leader_election where
  "led_election = (become_candidate 1 (election_new ''n'' 10))\<lparr>shard_states := [(1, Leader)], last_leader_heartbeat := [(1, 7)]\<rparr>"

lemma led_election_won: "win_election 7 1 (become_candidate 1 (election_new ''n'' 10)) = Inr led_election"
  by (simp add: win_election_def become_candidate_def election_new_def led_election_def)

theorem election_safety_witness: "map_of (last_leader_heartbeat led_election) 1 \<noteq> None"
proof -
  have "election_reach led_election"
    by (rule election_reach.step [OF election_reach.step [OF election_reach.start election_step.stand] election_step.win [OF led_election_won]])
  moreover have "election_state_of led_election 1 = Leader" by (simp add: election_state_of_def led_election_def)
  ultimately show ?thesis using election_safety [of led_election] by blast
qed

text \<open>
  Heartbeats and their timeout. After a heartbeat of a registered node at time \<open>t\<close>, a check at time \<open>now\<close> reports the node
  as newly suspect and marks it so exactly when more than the timeout has passed; the check touches no status but active ones.
\<close>

lemma heartbeat_detection:
  assumes "reg_inv r" and "get_node r node \<noteq> None" and "t < 2 ^ 128" and "now - t < 2 ^ 64"
  shows "\<exists>r1. reg_heartbeat t node r = Inr r1 \<and> (case check_heartbeats now r1 of (ids, r2) \<Rightarrow>
    (node \<in> set ids \<longleftrightarrow> unat (reg_timeout_secs r) * 1000 < now - t) \<and>
    map_option ni_status (get_node r2 node) = Some (if unat (reg_timeout_secs r) * 1000 < now - t then Suspect else Active) \<and>
    (\<forall>n info. get_node r1 n = Some info \<and> ni_status info \<noteq> Active \<longrightarrow> n \<notin> set ids \<and> get_node r2 n = Some info))"
proof -
  obtain info where i: "map_of (reg_nodes r) node = Some info" using assms(2) by (auto simp: get_node_def)
  let ?i = "info\<lparr>ni_last_heartbeat := show_nat t, ni_status := Active\<rparr>"
  let ?r1 = "r\<lparr>reg_nodes := AList.update node ?i (reg_nodes r)\<rparr>"
  have h: "reg_heartbeat t node r = Inr ?r1" using i by (simp add: reg_heartbeat_def)
  have id: "ni_node_id info = node" using i assms(1) by (auto simp: reg_inv_def dest: map_of_SomeD)
  then have inv: "reg_inv ?r1" using reg_inv_update [OF assms(1), of ?i node] by simp
  define ex where "ex = heartbeat_expired now (reg_timeout_secs r)"
  let ?ids = "fst (check_heartbeats now ?r1)" and ?r2 = "snd (check_heartbeats now ?r1)"
  have wf: "wf_map (reg_nodes ?r1)" using inv by (simp add: reg_inv_def)
  have ids: "n \<in> set ?ids \<longleftrightarrow> (\<exists>x. map_of (reg_nodes ?r1) n = Some x \<and> ex x)" for n
    using inv unfolding wf_map_lookup [OF wf] by (force simp: check_heartbeats_def Let_def ex_def reg_inv_def)
  have look: "get_node ?r2 n = map_option (\<lambda>x. if ex x then x\<lparr>ni_status := Suspect\<rparr> else x) (map_of (reg_nodes ?r1) n)" for n
    by (simp add: check_heartbeats_def Let_def ex_def get_node_def map_of_vals)
  have x: "ex ?i \<longleftrightarrow> unat (reg_timeout_secs r) * 1000 < now - t"
    using parse_show [OF assms(3)] assms(4) by (simp add: ex_def heartbeat_expired_def)
  have na: "ni_status y \<noteq> Active \<Longrightarrow> \<not> ex y" for y by (simp add: ex_def heartbeat_expired_def Let_def)
  have "node \<in> set ?ids \<longleftrightarrow> unat (reg_timeout_secs r) * 1000 < now - t" unfolding ids x [symmetric] by simp
  moreover have "map_option ni_status (get_node ?r2 node) = Some (if unat (reg_timeout_secs r) * 1000 < now - t then Suspect else Active)"
    unfolding look x [symmetric] by simp
  moreover have "n \<notin> set ?ids \<and> get_node ?r2 n = Some y" if "get_node ?r1 n = Some y" "ni_status y \<noteq> Active" for n y
  proof -
    have e: "map_of (reg_nodes ?r1) n = Some y" using that(1) unfolding get_node_def .
    have n: "\<not> ex y" using that(2) by (rule na)
    then have "get_node ?r2 n = Some y" unfolding look e by simp
    moreover have "n \<notin> set ?ids" unfolding ids e using n by blast
    ultimately show ?thesis by blast
  qed
  ultimately show ?thesis using h by (auto simp: case_prod_beta)
qed

lemma monitor_loop_check: "\<exists>ps. failover_loop clk now fs f = Inr (ps, monitor_loop clk now fs f)"
proof (induction fs arbitrary: f)
  case (Cons p fs)
  obtain k l where p: "p = (k, l)" by fastforce
  show ?case
  proof (cases "has_leader_timed_out (fm_election f) k now \<and> shard_eligible f k")
    case True
    then show ?thesis using Cons [of "f\<lparr>fm_election := win_candidate clk k (fm_election f), fm_shards := assign_shard k (fm_node_id f) (fm_shards f)\<rparr>"]
      by (auto simp: p take_over_wins)
  next
    case False
    then show ?thesis using Cons [of f] by (auto simp: p)
  qed
qed simp

text \<open>
  A tick of the background task does what an explicit check does: the check succeeds and leaves the same state.
\<close>

lemma monitor_tick_is_check: "\<exists>ps. check_and_failover clk now f = Inr (ps, monitor_tick clk now f)"
  unfolding check_and_failover_def monitor_tick_def by (rule monitor_loop_check)

end
