(* ===== verification/Engine.thy ===== *)
theory Engine
  imports Lifecycle Hnsw Merkle Topological
begin

text \<open>
  The storage engine of \<open>tesseract-storage\<close>: its configuration (\<open>types.rs\<close>), the page cache (\<open>page_cache.rs\<close>) and
  the facade \<open>StorageEngine\<close> (\<open>engine.rs\<close>), which puts the log, the tiers, the index, the bias trackers and
  the Merkle tier together.

  Third-party code is in the record \<open>env\<close>: CRC-32, the encoders, Blake3, the elementary functions and the \<open>lru\<close> crate, whose
  cache has the abstract type \<open>'c\<close>. Clocks and random numbers are arguments (functions of the position, where an
  operation reads them several times). An operation returns its result with the new state; \<open>None\<close> is a call that does
  not return (the splitting loop of the Merkle tree). A panic is the error \<open>Panic\<close>, and nothing is said of a run after it, so
  locks are never poisoned. Calls run one after the other.
\<close>

section \<open>Configuration\<close>

record index_config =
  ix_enabled :: bool
  ix_dim :: nat
  ix_hnsw :: hnsw_config
  ix_path :: string

definition default_index_config :: "libm \<Rightarrow> index_config" where
  "default_index_config L = \<lparr>ix_enabled = False, ix_dim = 384, ix_hnsw = default_hnsw_config L, ix_path = ''index.hnsw''\<rparr>"

record topological_config =
  tp_enabled :: bool
  categorical_fields :: "string list"
  numerical_fields :: "string list"
  tp_numerical_buckets :: "(string \<times> f64 list) list"

definition default_topological_config :: topological_config where
  "default_topological_config = \<lparr>tp_enabled = False, categorical_fields = [], numerical_fields = [], tp_numerical_buckets = []\<rparr>"

record merkle_config =
  mk_enabled :: bool
  hot_buffer_capacity :: nat
  mk_max_cluster_size :: nat
  merkle_tree_path :: "string option"

definition default_merkle_config :: merkle_config where
  "default_merkle_config =
     \<lparr>mk_enabled = False, hot_buffer_capacity = 10000, mk_max_cluster_size = 1000, merkle_tree_path = None\<rparr>"

record storage_config =
  sc_wal :: wal_config
  sc_hot_max :: nat
  sc_cold :: cold_store_config
  sc_cache_capacity :: nat
  sc_wake_threshold :: f64
  sc_lifecycle :: lifecycle_config
  sc_index :: index_config
  sc_topological :: topological_config
  sc_merkle :: merkle_config
  sc_shutdown_secs :: nat

definition default_cache_capacity :: nat where
  "default_cache_capacity = 100"

definition default_shutdown_secs :: nat where
  "default_shutdown_secs = 30"

section \<open>The page cache\<close>

record page_key =
  pk_partition_id :: u64
  pk_page_index :: u32

record page =
  pg_data :: "u8 list"
  pg_size :: nat

record 'c lru_ops =
  lru_new :: "nat \<Rightarrow> 'c"
  lru_get :: "page_key \<Rightarrow> 'c \<Rightarrow> page option \<times> 'c"
  lru_put :: "page_key \<Rightarrow> page \<Rightarrow> 'c \<Rightarrow> 'c"
  lru_pop :: "page_key \<Rightarrow> 'c \<Rightarrow> page option \<times> 'c"
  lru_clear :: "'c \<Rightarrow> 'c"
  lru_len :: "'c \<Rightarrow> nat"

definition cache_new :: "'c lru_ops \<Rightarrow> nat \<Rightarrow> 'c result" where
  "cache_new U capacity = (if capacity = 0
     then Inl (InvalidConfig (''PageCache capacity must be > 0, got '' @ show_nat capacity)) else Inr (lru_new U capacity))"

definition cache_get :: "'c lru_ops \<Rightarrow> page_key \<Rightarrow> 'c \<Rightarrow> page option result \<times> 'c" where
  "cache_get U k c = (case lru_get U k c of (p, c') \<Rightarrow> (Inr p, c'))"

definition cache_insert :: "'c lru_ops \<Rightarrow> page_key \<Rightarrow> page \<Rightarrow> 'c \<Rightarrow> unit result \<times> 'c" where
  "cache_insert U k p c = (Inr (), lru_put U k p c)"

definition cache_remove :: "'c lru_ops \<Rightarrow> page_key \<Rightarrow> 'c \<Rightarrow> page option result \<times> 'c" where
  "cache_remove U k c = (case lru_pop U k c of (p, c') \<Rightarrow> (Inr p, c'))"

definition cache_clear :: "'c lru_ops \<Rightarrow> 'c \<Rightarrow> unit result \<times> 'c" where
  "cache_clear U c = (Inr (), lru_clear U c)"

definition cache_len :: "'c lru_ops \<Rightarrow> 'c \<Rightarrow> nat result" where
  "cache_len U c = Inr (lru_len U c)"

definition cache_is_empty :: "'c lru_ops \<Rightarrow> 'c \<Rightarrow> bool result" where
  "cache_is_empty U c = rbind (cache_len U c) (\<lambda>n. Inr (n = 0))"

section \<open>The engine\<close>

record 'c env =
  ev_crc :: crc32
  ev_cp :: cp_codec
  ev_codec :: codec
  ev_snapshot :: snapshot_codec
  ev_tree :: tree_codec
  ev_blake3 :: blake3
  ev_libm :: libm
  ev_to_json :: "vector_id \<times> f64 list \<times> json \<Rightarrow> u8 list result"
  ev_from_json :: "u8 list \<Rightarrow> (vector_id \<times> f64 list \<times> json) result"
  ev_page :: "vector_record \<Rightarrow> u8 list result"
  ev_record_size :: nat
  ev_lru :: "'c lru_ops"

text \<open>
  \<open>en_dir\<close> is the log's directory, \<open>en_tiers\<close> holds the hot and the cold store, the skeleton and the cold store's
  files, and \<open>en_misc\<close> the index and the tree file.
\<close>

record 'c engine =
  en_wal :: wal
  en_dir :: dir
  en_tiers :: tiers
  en_cache :: 'c
  en_config :: storage_config
  en_index :: "any_index option"
  en_centroids :: "centroid_tracker option"
  en_correlations :: "correlation_tracker option"
  en_buckets :: "bucket_tracker option"
  en_buffer :: "hot_buffer option"
  en_merkle :: "merkle_tree option"
  en_misc :: "(string \<times> u8 list) list"

abbreviation en_hot :: "'c engine \<Rightarrow> hot_store" where
  "en_hot en \<equiv> t_hot (en_tiers en)"

definition set_hot :: "hot_store \<Rightarrow> 'c engine \<Rightarrow> 'c engine" where
  "set_hot h en = en\<lparr>en_tiers := (en_tiers en)\<lparr>t_hot := h\<rparr>\<rparr>"

text \<open>\<open>?\<close> on a step that carries the state along.\<close>

definition and_then :: "unit result \<times> 's \<Rightarrow> ('s \<Rightarrow> (unit result \<times> 's) option) \<Rightarrow> (unit result \<times> 's) option" where
  "and_then p f = (case p of (Inl e, s) \<Rightarrow> Some (Inl e, s) | (Inr _, s) \<Rightarrow> f s)"

subsection \<open>Replay\<close>

definition fresh_record :: "nat \<Rightarrow> vector_id \<Rightarrow> f64 list \<Rightarrow> json \<Rightarrow> vector_record" where
  "fresh_record ms vid v meta = \<lparr>vr_id = vid, vr_vector = v, vr_metadata = meta, vr_created_at = word_of_nat ms, vr_access_count = 0\<rparr>"

definition apply_wal_entry :: "'c env \<Rightarrow> nat \<Rightarrow> wal_entry \<Rightarrow> hot_store \<Rightarrow> hot_store result" where
  "apply_wal_entry E ms entry hot =
     (if op_code entry \<noteq> op_code_u8 InsertVector then Inr hot
      else rbind (ev_from_json E (payload entry)) (\<lambda>(vid, v, meta). Inr (or_keep hot_insert (fresh_record ms vid v meta) hot)))"

text \<open>The error of the insert is dropped, a panic is not.\<close>

definition replay_index_entry :: "'c env \<Rightarrow> f64 \<Rightarrow> wal_entry \<Rightarrow> any_index \<Rightarrow> any_index result" where
  "replay_index_entry E r entry ix =
     (if op_code entry \<noteq> op_code_u8 InsertVector then Inr ix
      else rbind (ev_from_json E (payload entry)) (\<lambda>(vid, v, _).
        case any_insert (ev_libm E) r vid v ix of Inr ix' \<Rightarrow> Inr ix' | Inl Panic \<Rightarrow> Inl Panic | Inl _ \<Rightarrow> Inr ix))"

definition apply_replicated_entry :: "'c env \<Rightarrow> nat \<Rightarrow> f64 \<Rightarrow> wal_entry \<Rightarrow> 'c engine \<Rightarrow> unit result \<times> 'c engine" where
  "apply_replicated_entry E ms r entry en = (case apply_wal_entry E ms entry (en_hot en) of
       Inl e \<Rightarrow> (Inl e, en)
     | Inr h \<Rightarrow> (let en1 = set_hot h en in
         case en_index en1 of None \<Rightarrow> (Inr (), en1)
         | Some ix \<Rightarrow> (case replay_index_entry E r entry ix of Inl e \<Rightarrow> (Inl e, en1)
             | Inr ix' \<Rightarrow> (Inr (), en1\<lparr>en_index := Some ix'\<rparr>))))"

text \<open>The loop over the recovered entries, in \<open>open\<close> and in \<open>recover\<close>; it does for each entry what replication does.\<close>

fun replay_entries :: "'c env \<Rightarrow> (nat \<Rightarrow> nat) \<Rightarrow> (nat \<Rightarrow> f64) \<Rightarrow> nat \<Rightarrow> wal_entry list \<Rightarrow> 'c engine \<Rightarrow> unit result \<times> 'c engine" where
  "replay_entries E clk rnd n [] en = (Inr (), en)"
| "replay_entries E clk rnd n (entry # es) en = (case apply_replicated_entry E (clk n) (rnd n) entry en of
     (Inl e, en') \<Rightarrow> (Inl e, en') | (Inr _, en') \<Rightarrow> replay_entries E clk rnd (n + 1) es en')"

definition engine_recover :: "'c env \<Rightarrow> (nat \<Rightarrow> nat) \<Rightarrow> (nat \<Rightarrow> f64) \<Rightarrow> 'c engine \<Rightarrow> nat result \<times> 'c engine" where
  "engine_recover E clk rnd en = (case wal_recover (ev_crc E) (ev_cp E) (en_dir en) of
       Inl e \<Rightarrow> (Inl e, en)
     | Inr entries \<Rightarrow> (case replay_entries E clk rnd 0 entries en of
         (Inl e, en') \<Rightarrow> (Inl e, en') | (Inr _, en') \<Rightarrow> (Inr (length entries), en')))"

subsection \<open>Open\<close>

definition open_index :: "'c env \<Rightarrow> index_config \<Rightarrow> (string \<times> u8 list) list \<Rightarrow> any_index option result" where
  "open_index E ic files =
     (if ix_enabled ic
      then let inner = (case cfg_metric (ix_hnsw ic) of
               Cosine \<Rightarrow> CosineIndex (hnsw_new (ix_dim ic) (ix_hnsw ic))
             | Euclidean \<Rightarrow> EuclideanIndex (hnsw_new (ix_dim ic) (ix_hnsw ic)))
           in case map_of files (ix_path ic) of None \<Rightarrow> Inr (Some inner)
              | Some bytes \<Rightarrow> rbind (any_load (ev_snapshot E) bytes inner) (\<lambda>i. Inr (Some i))
      else Inr None)"

definition open_skeleton :: "codec \<Rightarrow> cold_store \<Rightarrow> disk \<Rightarrow> skeleton \<Rightarrow> skeleton result" where
  "open_skeleton K c d s = rfold (\<lambda>p sk. rbind (read_partition K p d) (\<lambda>rs.
     Inr (if rs = [] then sk else or_keep (add_partition p) (map vr_vector rs) sk))) (partitions c) s"

definition open_buckets :: "topological_config \<Rightarrow> nat \<Rightarrow> bucket_tracker option result" where
  "open_buckets tc n =
     (if tp_enabled tc then rbind (rfold (\<lambda>(field, bounds). register_field field bounds) (tp_numerical_buckets tc) (bt_new n)) (\<lambda>b. Inr (Some b))
      else Inr None)"

definition open_merkle :: "'c env \<Rightarrow> merkle_config \<Rightarrow> (string \<times> u8 list) list \<Rightarrow> merkle_tree option" where
  "open_merkle E mc files =
     (if mk_enabled mc
      then Some (let new = mt_new (mk_max_cluster_size mc) in
        case merkle_tree_path mc of None \<Rightarrow> new
        | Some p \<Rightarrow> if map_of files p = None then new
            else (case mt_load (ev_tree E) p (map_of files p) of Inr t \<Rightarrow> t | Inl _ \<Rightarrow> new))
      else None)"

definition engine_open :: "'c env \<Rightarrow> (nat \<Rightarrow> nat) \<Rightarrow> (nat \<Rightarrow> f64) \<Rightarrow> storage_config \<Rightarrow> dir \<Rightarrow> disk \<Rightarrow> (string \<times> u8 list) list \<Rightarrow>
    'c engine result" where
  "engine_open E clk rnd cfg d dk files =
     rbind (wal_open (ev_cp E) (sc_wal cfg) d) (\<lambda>(w, d1).
     rbind (cold_open (ev_codec E) (sc_cold cfg) dk) (\<lambda>c.
     rbind (cache_new (ev_lru E) (sc_cache_capacity cfg)) (\<lambda>cache.
     rbind (open_index E (sc_index cfg) files) (\<lambda>ix.
     rbind (wal_recover (ev_crc E) (ev_cp E) d1) (\<lambda>entries.
       let en0 = \<lparr>en_wal = w, en_dir = d1,
             en_tiers = \<lparr>t_hot = hot_new (sc_hot_max cfg), t_cold = c, t_disk = dk, t_skeleton = skeleton_new (sc_wake_threshold cfg)\<rparr>,
             en_cache = cache, en_config = cfg, en_index = ix, en_centroids = None, en_correlations = None, en_buckets = None,
             en_buffer = None, en_merkle = None, en_misc = files\<rparr>
       in case replay_entries E clk rnd 0 entries en0 of
            (Inl e, _) \<Rightarrow> Inl e
          | (Inr _, en1) \<Rightarrow>
              rbind (open_skeleton (ev_codec E) c dk (t_skeleton (en_tiers en1))) (\<lambda>sk.
              rbind (open_buckets (sc_topological cfg) (ix_dim (sc_index cfg))) (\<lambda>bt.
                Inr (en1\<lparr>en_tiers := (en_tiers en1)\<lparr>t_skeleton := sk\<rparr>,
                  en_centroids := if tp_enabled (sc_topological cfg) then Some (ct_new (ix_dim (sc_index cfg))) else None,
                  en_correlations := if tp_enabled (sc_topological cfg) then Some (cr_new (ix_dim (sc_index cfg))) else None,
                  en_buckets := bt,
                  en_buffer := if mk_enabled (sc_merkle cfg) then Some (hb_new (hot_buffer_capacity (sc_merkle cfg))) else None,
                  en_merkle := open_merkle E (sc_merkle cfg) files\<rparr>))))))))"

subsection \<open>Insert\<close>

definition wal_stage :: "'c env \<Rightarrow> vector_id \<Rightarrow> f64 list \<Rightarrow> json \<Rightarrow> write_mode \<Rightarrow> 'c engine \<Rightarrow> unit result \<times> 'c engine" where
  "wal_stage E vid v meta mode en = (case ev_to_json E (vid, v, meta) of
       Inl e \<Rightarrow> (Inl e, en)
     | Inr bs \<Rightarrow> (case wal_append (ev_crc E) (en_wal en) \<lparr>txn_id = 0, op_code = op_code_u8 InsertVector, payload = bs\<rparr> mode (en_dir en) of
           Inl e \<Rightarrow> (Inl e, en)
         | Inr (_, w, d) \<Rightarrow> (Inr (), en\<lparr>en_wal := w, en_dir := d\<rparr>)))"

definition with_number :: "json \<Rightarrow> string \<Rightarrow> (f64 \<Rightarrow> 's \<Rightarrow> 's result) \<Rightarrow> 's \<Rightarrow> 's result" where
  "with_number meta field f s = (case json_get meta field of None \<Rightarrow> Inr s
     | Some val \<Rightarrow> (case json_as_f64 val of None \<Rightarrow> Inr s | Some num \<Rightarrow> f num s))"

definition trackers_stage :: "f64 list \<Rightarrow> json \<Rightarrow> 'c engine \<Rightarrow> unit result \<times> 'c engine" where
  "trackers_stage v meta en =
     (let tc = sc_topological (en_config en);
          en1 = (case en_centroids en of None \<Rightarrow> en
            | Some c \<Rightarrow> en\<lparr>en_centroids := Some (ct_update v meta (categorical_fields tc) c)\<rparr>)
      in case (case en_correlations en1 of None \<Rightarrow> Inr en1
            | Some c \<Rightarrow> rbind (rfold (\<lambda>f. with_number meta f (\<lambda>num. cr_update f num v)) (numerical_fields tc) c)
                (\<lambda>c'. Inr (en1\<lparr>en_correlations := Some c'\<rparr>))) of
           Inl e \<Rightarrow> (Inl e, en1)
         | Inr en2 \<Rightarrow> (case en_buckets en2 of None \<Rightarrow> (Inr (), en2)
             | Some b \<Rightarrow> (case rfold (\<lambda>f. with_number meta f (\<lambda>num s. Inr (bt_update f num v s))) (map fst (tp_numerical_buckets tc)) b of
                   Inl e \<Rightarrow> (Inl e, en2)
                 | Inr b' \<Rightarrow> (Inr (), en2\<lparr>en_buckets := Some b'\<rparr>))))"

definition retry_insert :: "vector_record \<Rightarrow> 'c engine \<Rightarrow> unit result \<times> 'c engine" where
  "retry_insert r en = (case hot_insert r (en_hot en) of Inl e \<Rightarrow> (Inl e, en) | Inr h \<Rightarrow> (Inr (), set_hot h en))"

text \<open>The partition of an eviction is the day of the clock, in seconds.\<close>

definition evict_and_retry :: "'c env \<Rightarrow> nat \<Rightarrow> vector_record \<Rightarrow> 'c engine \<Rightarrow> unit result \<times> 'c engine" where
  "evict_and_retry E secs r en = (case drain_least_accessed 100 (en_hot en) of (evicted, h) \<Rightarrow>
     (let en1 = set_hot h en in
      if evicted = [] then retry_insert r en1
      else case write_batch (ev_codec E) (word_of_nat (secs div 86400)) evicted (t_cold (en_tiers en1)) (t_disk (en_tiers en1)) of
        (res, c, dk) \<Rightarrow> (let en2 = en1\<lparr>en_tiers := (en_tiers en1)\<lparr>t_cold := c, t_disk := dk\<rparr>\<rparr> in
          case res of Inl e \<Rightarrow> (Inl e, en2) | Inr _ \<Rightarrow> retry_insert r en2)))"

definition hot_stage :: "'c env \<Rightarrow> nat \<Rightarrow> vector_record \<Rightarrow> 'c engine \<Rightarrow> unit result \<times> 'c engine" where
  "hot_stage E secs r en = (case hot_insert r (en_hot en) of
       Inl (StoreFull _) \<Rightarrow> evict_and_retry E secs r en
     | Inl _ \<Rightarrow> (Inr (), en)
     | Inr h \<Rightarrow> (Inr (), set_hot h en))"

definition index_stage :: "'c env \<Rightarrow> f64 \<Rightarrow> vector_id \<Rightarrow> f64 list \<Rightarrow> 'c engine \<Rightarrow> unit result \<times> 'c engine" where
  "index_stage E r vid v en = (case en_index en of None \<Rightarrow> (Inr (), en)
     | Some ix \<Rightarrow> (case any_insert (ev_libm E) r vid v ix of Inl e \<Rightarrow> (Inl e, en)
         | Inr ix' \<Rightarrow> (Inr (), en\<lparr>en_index := Some ix'\<rparr>)))"

definition persist_tree :: "'c env \<Rightarrow> merkle_tree \<Rightarrow> 'c engine \<Rightarrow> 'c engine" where
  "persist_tree E t en = (case merkle_tree_path (sc_merkle (en_config en)) of None \<Rightarrow> en
     | Some p \<Rightarrow> (case mt_save (ev_tree E) t of Inl _ \<Rightarrow> en | Inr bytes \<Rightarrow> en\<lparr>en_misc := AList.update p bytes (en_misc en)\<rparr>))"

text \<open>The merge of a drained snapshot into the tree, in \<open>insert\<close> and in \<open>shutdown\<close>.\<close>

definition merge_snapshot :: "'c env \<Rightarrow> buffered_vector list \<Rightarrow> 'c engine \<Rightarrow> (unit result \<times> 'c engine) option" where
  "merge_snapshot E snapshot en = (case en_merkle en of None \<Rightarrow> Some (Inr (), en)
     | Some t \<Rightarrow> map_option (\<lambda>res. case res of Inl e \<Rightarrow> (Inl e, en)
         | Inr t' \<Rightarrow> (Inr (), persist_tree E t' (en\<lparr>en_merkle := Some t'\<rparr>))) (insert_batch (ev_blake3 E) snapshot t))"

definition buffer_stage :: "'c env \<Rightarrow> vector_id \<Rightarrow> f64 list \<Rightarrow> json \<Rightarrow> 'c engine \<Rightarrow> (unit result \<times> 'c engine) option" where
  "buffer_stage E vid v meta en = (case en_buffer en of None \<Rightarrow> Some (Inr (), en)
     | Some b \<Rightarrow> (case hb_insert vid (map (fcast F32) v) meta b of (is_full, b1) \<Rightarrow>
         if is_full \<and> \<not> hb_merging b1 then
           (case hb_drain (b1\<lparr>hb_merging := True\<rparr>) of (snapshot, b2) \<Rightarrow>
              map_option (\<lambda>(res, en1). case res of Inl e \<Rightarrow> (Inl e, en1\<lparr>en_buffer := Some b2\<rparr>)
                  | Inr _ \<Rightarrow> (Inr (), en1\<lparr>en_buffer := Some (b2\<lparr>hb_merging := False\<rparr>)\<rparr>))
                (merge_snapshot E snapshot en))
         else Some (Inr (), en\<lparr>en_buffer := Some b1\<rparr>)))"

definition engine_insert :: "'c env \<Rightarrow> nat \<Rightarrow> nat \<Rightarrow> f64 \<Rightarrow> vector_id \<Rightarrow> f64 list \<Rightarrow> json \<Rightarrow> write_mode \<Rightarrow> 'c engine \<Rightarrow>
    (unit result \<times> 'c engine) option" where
  "engine_insert E ms secs r vid v meta mode en =
     and_then (wal_stage E vid v meta mode en) (\<lambda>en1.
     and_then (trackers_stage v meta en1) (\<lambda>en2.
     and_then (hot_stage E secs (fresh_record ms vid v meta) en2) (\<lambda>en3.
     and_then (index_stage E r vid v en3) (buffer_stage E vid v meta))))"

subsection \<open>Queries\<close>

fun find_in_partitions :: "'c env \<Rightarrow> vector_id \<Rightarrow> partition_id list \<Rightarrow> 'c engine \<Rightarrow> vector_record option result \<times> 'c engine" where
  "find_in_partitions E vid [] en = (Inr None, en)"
| "find_in_partitions E vid (p # ps) en = (case read_partition (ev_codec E) p (t_disk (en_tiers en)) of
       Inl e \<Rightarrow> (Inl e, en)
     | Inr rs \<Rightarrow> (case List.find (\<lambda>r. vr_id r = vid) rs of
           None \<Rightarrow> find_in_partitions E vid ps en
         | Some r \<Rightarrow> (Inr (Some r), case ev_page E r of Inl _ \<Rightarrow> en
             | Inr bytes \<Rightarrow> en\<lparr>en_cache := snd (cache_insert (ev_lru E) \<lparr>pk_partition_id = p, pk_page_index = 0\<rparr>
                 \<lparr>pg_data = bytes, pg_size = ev_record_size E\<rparr> (en_cache en))\<rparr>)))"

definition engine_get :: "'c env \<Rightarrow> vector_id \<Rightarrow> 'c engine \<Rightarrow> vector_record option result \<times> 'c engine" where
  "engine_get E vid en = (case hot_get (en_hot en) vid of
       Some r \<Rightarrow> (Inr (Some r), en)
     | None \<Rightarrow> find_in_partitions E vid (partitions (t_cold (en_tiers en))) en)"

definition engine_candidates :: "f64 list \<Rightarrow> nat \<Rightarrow> weight_mask option \<Rightarrow> 'c engine \<Rightarrow> (vector_id \<times> f32) list result" where
  "engine_candidates query k wm en =
     (let q = map (fcast F32) query in
      rbind (case en_index en of None \<Rightarrow> Inr [] | Some ix \<Rightarrow> any_search ix query k wm) (\<lambda>from_index.
        Inr (from_index
          @ (case en_buffer en of None \<Rightarrow> [] | Some b \<Rightarrow> if hb_vectors b = [] then [] else hb_search b q k)
          @ (case en_merkle en of None \<Rightarrow> [] | Some t \<Rightarrow> if 0 < num_centroids t then mt_search t q k else []))))"

definition rank_results :: "nat \<Rightarrow> (vector_id \<times> f32) list \<Rightarrow> (vector_id \<times> f32) list" where
  "rank_results k rs = take k (retain_first fst {} (sort_by (\<lambda>a b. fle_total (snd a) (snd b)) rs))"

definition engine_search :: "f64 list \<Rightarrow> nat \<Rightarrow> weight_mask option \<Rightarrow> 'c engine \<Rightarrow> (vector_id \<times> f32) list result" where
  "engine_search query k wm en = rbind (engine_candidates query k wm en) (\<lambda>all.
     if all = [] \<and> en_index en = None then Inl IndexNotBuilt else Inr (rank_results k all))"

definition batch_get :: "vector_id list \<Rightarrow> 'c engine \<Rightarrow> (vector_id \<times> vector_record) list result" where
  "batch_get ids en = Inr (fold (\<lambda>i m. case hot_get (en_hot en) i of Some r \<Rightarrow> AList.update i r m | None \<Rightarrow> m) ids [])"

definition engine_bias :: "f64 list \<Rightarrow> bias_filter list \<Rightarrow> f64 \<Rightarrow> 'c engine \<Rightarrow> f64 list result" where
  "engine_bias query filters alpha en = Inr (case (en_centroids en, en_correlations en, en_buckets en) of
       (Some c, Some r, Some b) \<Rightarrow> apply_topological_bias query filters c r b alpha
     | _ \<Rightarrow> query)"

definition is_ready :: "'c engine \<Rightarrow> (string \<times> bool) list" where
  "is_ready en = [(''wal'', True), (''index'', en_index en \<noteq> None), (''hot_buffer'', en_buffer en \<noteq> None)]"

subsection \<open>Shutdown\<close>

text \<open>
  The deadline can only strike where the code waits: for the lock of the index or for the lock of the log.
\<close>

datatype deadline = InTime | AtIndexLock | AtLogLock

definition shutdown_timed_out :: error where
  "shutdown_timed_out = ServiceError ''shutdown timed out''"

text \<open>Creating the index file empties it before the index is written.\<close>

definition save_index :: "'c env \<Rightarrow> deadline \<Rightarrow> 'c engine \<Rightarrow> unit result \<times> 'c engine" where
  "save_index E dl en = (case en_index en of None \<Rightarrow> (Inr (), en)
     | Some ix \<Rightarrow> if dl = AtIndexLock then (Inl shutdown_timed_out, en)
         else (let p = ix_path (sc_index (en_config en)) in case any_save (ev_snapshot E) ix of
             Inl e \<Rightarrow> (Inl e, en\<lparr>en_misc := AList.update p [] (en_misc en)\<rparr>)
           | Inr bytes \<Rightarrow> (Inr (), en\<lparr>en_misc := AList.update p bytes (en_misc en)\<rparr>)))"

definition drain_buffer :: "'c env \<Rightarrow> 'c engine \<Rightarrow> (unit result \<times> 'c engine) option" where
  "drain_buffer E en = (case en_buffer en of None \<Rightarrow> Some (Inr (), en)
     | Some b \<Rightarrow> if hb_vectors b = [] then Some (Inr (), en)
         else case hb_drain b of (snapshot, b') \<Rightarrow> merge_snapshot E snapshot (en\<lparr>en_buffer := Some b'\<rparr>))"

definition engine_shutdown :: "'c env \<Rightarrow> deadline \<Rightarrow> 'c engine \<Rightarrow> (unit result \<times> 'c engine) option" where
  "engine_shutdown E dl en = and_then (save_index E dl en) (\<lambda>en1.
     case drain_buffer E en1 of None \<Rightarrow> None
     | Some p \<Rightarrow> and_then p (\<lambda>en2. Some (if dl = AtLogLock then (Inl shutdown_timed_out, en2)
         else case wal_flush (en_wal en2) (en_dir en2) of (w, d) \<Rightarrow> (Inr (), en2\<lparr>en_wal := w, en_dir := d\<rparr>))))"

subsection \<open>The background task\<close>

definition engine_tick :: "'c env \<Rightarrow> tick_event \<Rightarrow> 'c engine \<Rightarrow> 'c engine" where
  "engine_tick E ev en = en\<lparr>en_tiers := tick (ev_codec E) (sc_lifecycle (en_config en)) ev (en_tiers en)\<rparr>"

section \<open>The invariant of the engine\<close>

text \<open>
  \<open>lg\<close> is the content of the log and its first \<open>synced\<close> entries are on disk; the cold tier holds the batches \<open>bs\<close>; all
  records come from \<open>R\<close>.
\<close>

definition engine_inv :: "'c env \<Rightarrow> vector_record set \<Rightarrow> 'c engine \<Rightarrow> (partition_id \<Rightarrow> vector_record list list) \<Rightarrow>
    wal_entry list \<Rightarrow> nat \<Rightarrow> bool" where
  "engine_inv E R en bs lg synced \<longleftrightarrow> wal_inv (ev_crc E) (en_wal en) (en_dir en) lg synced \<and>
     tiers_inv (ev_codec E) R (en_tiers en) bs \<and>
     (\<forall>ix. en_index en = Some ix \<longrightarrow> hnsw_inv (any_inner ix)) \<and>
     (\<forall>c. en_correlations en = Some c \<longrightarrow> cr_inv c) \<and>
     (\<forall>t. en_merkle en = Some t \<longrightarrow> merkle_inv (ev_blake3 E) t \<and> 1 \<le> max_cluster_size t)"

text \<open>What an insert needs: its payload can be encoded, no counter is at its end, the vector has the dimension of the index
  and the trackers, and no distance in the index is NaN.\<close>

definition insert_ready :: "'c env \<Rightarrow> vector_id \<Rightarrow> f64 list \<Rightarrow> json \<Rightarrow> 'c engine \<Rightarrow> bool" where
  "insert_ready E vid v meta en \<longleftrightarrow>
     (\<exists>bs. ev_to_json E (vid, v, meta) = Inr bs \<and> length bs < 2 ^ 32) \<and>
     unat (sw_segment_id (current_segment (en_wal en))) + 1 < 2 ^ 64 \<and>
     (\<forall>ix. en_index en = Some ix \<longrightarrow> length v = hx_dim (any_inner ix) \<and> nan_free (any_inner ix) (map (fcast F32) v)) \<and>
     (\<forall>c. en_correlations en = Some c \<longrightarrow> length v = cr_dim c) \<and>
     (\<forall>t b. en_merkle en = Some t \<and> en_buffer en = Some b \<longrightarrow>
        unat (next_cluster_id t) + (hb_len b + 1) + 2 * (vector_total (mt_leaves t) + (hb_len b + 1)) < 2 ^ 64)"

section \<open>The stages of an insert\<close>

lemma set_hot_sel [simp]:
  "en_wal (set_hot h en) = en_wal en" "en_dir (set_hot h en) = en_dir en" "en_tiers (set_hot h en) = (en_tiers en)\<lparr>t_hot := h\<rparr>"
  "en_index (set_hot h en) = en_index en" "en_correlations (set_hot h en) = en_correlations en" "en_merkle (set_hot h en) = en_merkle en"
  "en_buffer (set_hot h en) = en_buffer en" "en_config (set_hot h en) = en_config en" "en_misc (set_hot h en) = en_misc en"
  "en_cache (set_hot h en) = en_cache en"
  by (simp_all add: set_hot_def)

lemma and_then_simps [simp]: "and_then (Inr (), s) f = f s" "and_then (Inl e, s) f = Some (Inl e, s)"
  by (simp_all add: and_then_def)

lemma wal_stage_ok:
  assumes "ev_to_json E (vid, v, meta) = Inr bs"
  obtains txn w d where "wal_append (ev_crc E) (en_wal en) \<lparr>txn_id = 0, op_code = 1, payload = bs\<rparr> mode (en_dir en) = Inr (txn, w, d)"
    "wal_stage E vid v meta mode en = (Inr (), en\<lparr>en_wal := w, en_dir := d\<rparr>)"
proof -
  obtain txn w d where "wal_append (ev_crc E) (en_wal en) \<lparr>txn_id = 0, op_code = 1, payload = bs\<rparr> mode (en_dir en) = Inr (txn, w, d)"
    using wal_append_total by (metis prod_cases3)
  then show thesis using that assms by (simp add: wal_stage_def)
qed

lemma rfold_numbers_ok:
  assumes "\<And>f num s. P s \<Longrightarrow> \<exists>s'. g f num s = Inr s' \<and> P s'" and "P s"
  shows "\<exists>s'. rfold (\<lambda>f. with_number meta f (g f)) fs s = Inr s' \<and> P s'"
  using assms(2)
proof (induction fs arbitrary: s)
  case (Cons f fs)
  have "\<exists>s'. with_number meta f (g f) s = Inr s' \<and> P s'"
    using Cons.prems assms(1) by (auto simp: with_number_def split: option.splits)
  then show ?case using Cons.IH by auto
qed simp

text \<open>The trackers change nothing but themselves and keep the dimension of the statistics.\<close>

lemma engine_same [simp]:
  "en_centroids en = x \<Longrightarrow> en\<lparr>en_centroids := x\<rparr> = en" "en_correlations en = y \<Longrightarrow> en\<lparr>en_correlations := y\<rparr> = en"
  "en_buckets en = z \<Longrightarrow> en\<lparr>en_buckets := z\<rparr> = en"
  by auto

lemma trackers_stage_ok:
  assumes "\<forall>c. en_correlations en = Some c \<longrightarrow> cr_inv c \<and> length v = cr_dim c"
  obtains c r b where "trackers_stage v meta en = (Inr (), en\<lparr>en_centroids := c, en_correlations := r, en_buckets := b\<rparr>)"
    "\<forall>x. r = Some x \<longrightarrow> cr_inv x \<and> length v = cr_dim x"
proof -
  let ?tc = "sc_topological (en_config en)"
  let ?corr = "rfold (\<lambda>f. with_number meta f (\<lambda>num. cr_update f num v)) (numerical_fields ?tc)"
  let ?buck = "rfold (\<lambda>f. with_number meta f (\<lambda>num s. Inr (bt_update f num v s))) (map fst (tp_numerical_buckets ?tc))"
  define en1 where "en1 = (case en_centroids en of None \<Rightarrow> en
     | Some c \<Rightarrow> en\<lparr>en_centroids := Some (ct_update v meta (categorical_fields ?tc) c)\<rparr>)"
  obtain c where c: "en1 = en\<lparr>en_centroids := c\<rparr>"
    by (cases "en_centroids en") (auto simp: en1_def intro: that [of None] that [of "en_centroids en"])
  have corr: "\<exists>x'. ?corr x = Inr x' \<and> (cr_inv x' \<and> length v = cr_dim x')" if "cr_inv x \<and> length v = cr_dim x" for x
  proof (rule rfold_numbers_ok)
    fix f num s assume "cr_inv s \<and> length v = cr_dim s"
    then show "\<exists>s'. cr_update f num v s = Inr s' \<and> (cr_inv s' \<and> length v = cr_dim s')"
      using correlation_update_total [of s v f num] by auto
  qed (rule that)
  obtain r where r: "(case en_correlations en1 of None \<Rightarrow> Inr en1 | Some x \<Rightarrow> rbind (?corr x) (\<lambda>c'. Inr (en1\<lparr>en_correlations := Some c'\<rparr>)))
      = Inr (en1\<lparr>en_correlations := r\<rparr>)" "\<forall>x. r = Some x \<longrightarrow> cr_inv x \<and> length v = cr_dim x"
  proof (cases "en_correlations en")
    case None
    then show thesis using that [of None] by (simp add: c)
  next
    case (Some x)
    then obtain x' where "?corr x = Inr x'" "cr_inv x' \<and> length v = cr_dim x'" using corr assms by blast
    then show thesis using Some that [of "Some x'"] by (simp add: c)
  qed
  let ?en2 = "en1\<lparr>en_correlations := r\<rparr>"
  have "\<exists>y'. ?buck y = Inr y' \<and> True" for y by (rule rfold_numbers_ok) auto
  then obtain g where g: "?buck y = Inr (g y)" for y by metis
  define b where "b = map_option g (en_buckets en)"
  have "trackers_stage v meta en = (Inr (), ?en2\<lparr>en_buckets := b\<rparr>)"
    unfolding trackers_stage_def Let_def en1_def [symmetric] r(1) by (cases "en_buckets en") (simp_all add: c b_def g)
  then have "trackers_stage v meta en = (Inr (), en\<lparr>en_centroids := c, en_correlations := r, en_buckets := b\<rparr>)" by (simp add: c)
  then show thesis using that r(2) by blast
qed

lemma hot_insert_cases:
  assumes "hot_insert r h = Inl e"
  shows "(\<exists>m. e = StoreFull m \<and> 0 < hot_max_records h \<and> hot_max_records h \<le> hot_len h) \<or>
    (e = AlreadyExists (hot_exists_msg (vr_id r)) \<and> hot_get h (vr_id r) \<noteq> None)"
  using assms by (auto simp: hot_insert_def max_records_def hot_get_def Let_def split: option.splits if_splits)

lemma tiers_insert:
  assumes "tiers_inv K R t bs" "hot_insert r (t_hot t) = Inr h" "r \<in> R"
  shows "tiers_inv K R (t\<lparr>t_hot := h\<rparr>) bs \<and> hot_get h (vr_id r) = Some r \<and> (\<forall>x. stored t bs x \<longrightarrow> stored (t\<lparr>t_hot := h\<rparr>) bs x)"
proof -
  note g = hot_get_insert [OF assms(2)]
  have "hot_inv h" using assms(1,2) by (auto simp: tiers_inv_def intro: hot_insert_inv)
  then show ?thesis using assms(1,3) g by (auto simp: tiers_inv_def stored_def split: if_splits)
qed

text \<open>A record with a new id always finds its place: a full store is drained first.\<close>

lemma hot_stage_ok:
  fixes en :: "'c engine"
  assumes "codec_ok (ev_codec E) {rs. set rs \<subseteq> R}" "tiers_inv (ev_codec E) R (en_tiers en) bs" "r \<in> R"
    and "hot_get (en_hot en) (vr_id r) = None"
  obtains t bs' where "\<And>e :: 'c engine. en_tiers e = en_tiers en \<Longrightarrow> hot_stage E secs r e = (Inr (), e\<lparr>en_tiers := t\<rparr>)"
    "tiers_inv (ev_codec E) R t bs'" "hot_get (t_hot t) (vr_id r) = Some r" "\<forall>x. stored (en_tiers en) bs x \<longrightarrow> stored t bs' x"
proof (cases "hot_insert r (en_hot en)")
  case (Inr h)
  from tiers_insert [OF assms(2) Inr assms(3)] that [of "(en_tiers en)\<lparr>t_hot := h\<rparr>" bs] Inr show thesis
    by (simp add: hot_stage_def set_hot_def)
next
  case (Inl e)
  then obtain m where e: "e = StoreFull m" "0 < hot_max_records (en_hot en)" "hot_max_records (en_hot en) \<le> hot_len (en_hot en)"
    using hot_insert_cases [OF Inl] assms(4) by auto
  obtain rs h where d: "drain_least_accessed 100 (en_hot en) = (rs, h)" by fastforce
  have hot: "hot_inv (en_hot en)" using assms(2) by (simp add: tiers_inv_def)
  note len = drain_length [OF hot d]
  have ne: "rs \<noteq> []" using len(1) e by auto
  let ?p = "word_of_nat (secs div 86400) :: partition_id"
  obtain c dk where w: "write_batch (ev_codec E) ?p rs (t_cold (en_tiers en)) (t_disk (en_tiers en)) = (Inr (), c, dk)"
      "tiers_inv (ev_codec E) R ((en_tiers en)\<lparr>t_hot := h, t_cold := c, t_disk := dk\<rparr>) (bs(?p := bs ?p @ [rs]))"
      "\<forall>x. stored (en_tiers en) bs x \<longrightarrow> stored ((en_tiers en)\<lparr>t_hot := h, t_cold := c, t_disk := dk\<rparr>) (bs(?p := bs ?p @ [rs])) x"
    by (rule evict_inv [OF assms(1,2) d ne])
  have "hot_max_records h = hot_max_records (en_hot en)" by (rule drain_props(4) [OF hot d])
  moreover have "hot_get h (vr_id r) = None" using assms(4) hot_get_drained [OF hot d] by simp
  moreover have "hot_len (en_hot en) \<le> hot_max_records (en_hot en)" using hot e(2) by (simp add: hot_inv_def)
  ultimately obtain h' where h': "hot_insert r h = Inr h'" using e(2,3) len(2) by (auto simp: hot_insert_Inr hot_get_def)
  define t where "t = (en_tiers en)\<lparr>t_hot := h, t_cold := c, t_disk := dk\<rparr>"
  have "hot_stage E secs r e = (Inr (), e\<lparr>en_tiers := t\<lparr>t_hot := h'\<rparr>\<rparr>)" if "en_tiers e = en_tiers en" for e :: "'c engine"
    using Inl d ne w(1) h' that by (simp add: \<open>_ = StoreFull m\<close> hot_stage_def evict_and_retry_def retry_insert_def set_hot_def t_def)
  moreover have "hot_insert r (t_hot t) = Inr h'" using h' by (simp add: t_def)
  note i = tiers_insert [OF w(2) [folded t_def] this assms(3)]
  moreover have "hot_get (t_hot (t\<lparr>t_hot := h'\<rparr>)) (vr_id r) = Some r" using i by simp
  ultimately show thesis using that [of "t\<lparr>t_hot := h'\<rparr>" "bs(?p := bs ?p @ [rs])"] w(3) [folded t_def] by blast
qed

lemma metric_frame: "hnsw_inv (ix\<lparr>hx_config := (hx_config ix)\<lparr>cfg_metric := m\<rparr>\<rparr>) = hnsw_inv ix"
  by (simp add: hnsw_inv_def graph_ok_def deg_ok_def entry_ok_ix_def has_layer_def max_conn_def split: option.split)

lemma any_put_frame [simp]:
  "hnsw_inv (any_inner (any_put a ix)) = hnsw_inv ix" "id_to_node (any_inner (any_put a ix)) = id_to_node ix"
  "hx_vectors (any_inner (any_put a ix)) = hx_vectors ix" "hnsw_len (any_inner (any_put a ix)) = hnsw_len ix"
  by (cases a; simp add: metric_frame hnsw_len_def)+

lemma any_insert_ok:
  assumes "hnsw_inv (any_inner a)" "length v = hx_dim (any_inner a)" "nan_free (any_inner a) (map (fcast F32) v)"
  obtains a' where "any_insert L r vid v a = Inr a'" "hnsw_inv (any_inner a')"
    "set (id_to_node (any_inner a')) = insert vid (set (id_to_node (any_inner a)))"
    "\<forall>i < hnsw_len (any_inner a'). hx_vectors (any_inner a') ! i =
       (if id_to_node (any_inner a') ! i = vid then map (fcast F32) v else hx_vectors (any_inner a) ! i)"
proof -
  obtain ix where ix: "hnsw_insert L r vid v (any_inner a) = Inr ix" "hnsw_inv ix"
      "set (id_to_node ix) = insert vid (set (id_to_node (any_inner a)))"
      "\<forall>i < hnsw_len ix. hx_vectors ix ! i = (if id_to_node ix ! i = vid then map (fcast F32) v else hx_vectors (any_inner a) ! i)"
    using hnsw_insert_ok [OF assms(1,3), of L r vid] assms(2) by auto
  have "any_insert L r vid v a = Inr (any_put a ix)" by (simp add: any_insert_def ix(1))
  then show thesis using that [of "any_put a ix"] ix by simp
qed

lemma merge_snapshot_ok:
  assumes "\<forall>t. en_merkle en = Some t \<longrightarrow> merkle_inv (ev_blake3 E) t \<and> 1 \<le> max_cluster_size t \<and>
      unat (next_cluster_id t) + length vs + 2 * (vector_total (mt_leaves t) + length vs) < 2 ^ 64"
  obtains m f where "merge_snapshot E vs en = Some (Inr (), en\<lparr>en_merkle := m, en_misc := f\<rparr>)"
    "\<forall>t. m = Some t \<longrightarrow> merkle_inv (ev_blake3 E) t \<and> 1 \<le> max_cluster_size t"
proof (cases "en_merkle en")
  case None
  have "en\<lparr>en_merkle := None, en_misc := en_misc en\<rparr> = en" using None by simp
  then show thesis using that [where m = None and f = "en_misc en"] None by (simp add: merge_snapshot_def)
next
  case (Some t)
  then obtain t' where t': "insert_batch (ev_blake3 E) vs t = Some (Inr t')" "merkle_inv (ev_blake3 E) t'" "1 \<le> max_cluster_size t'"
    using assms insert_batch_ok [of "ev_blake3 E" t vs] by auto
  obtain f where "persist_tree E t' (en\<lparr>en_merkle := Some t'\<rparr>) = en\<lparr>en_merkle := Some t', en_misc := f\<rparr>"
  proof (cases "\<exists>p bytes. merkle_tree_path (sc_merkle (en_config en)) = Some p \<and> mt_save (ev_tree E) t' = Inr bytes")
    case True
    then show thesis using that by (auto simp: persist_tree_def)
  next
    case False
    then have "persist_tree E t' (en\<lparr>en_merkle := Some t'\<rparr>) = en\<lparr>en_merkle := Some t', en_misc := en_misc en\<rparr>"
      by (auto simp: persist_tree_def split: option.split sum.split)
    then show thesis by (rule that)
  qed
  then show thesis using that [where m = "Some t'" and f = f] t' Some by (simp add: merge_snapshot_def)
qed

lemma buffer_stage_ok:
  assumes "\<forall>t. en_merkle en = Some t \<longrightarrow> merkle_inv (ev_blake3 E) t \<and> 1 \<le> max_cluster_size t"
    and "\<forall>t b. en_merkle en = Some t \<and> en_buffer en = Some b \<longrightarrow>
        unat (next_cluster_id t) + (hb_len b + 1) + 2 * (vector_total (mt_leaves t) + (hb_len b + 1)) < 2 ^ 64"
  obtains b m f where "buffer_stage E vid v meta en = Some (Inr (), en\<lparr>en_buffer := b, en_merkle := m, en_misc := f\<rparr>)"
    "\<forall>t. m = Some t \<longrightarrow> merkle_inv (ev_blake3 E) t \<and> 1 \<le> max_cluster_size t"
proof (cases "en_buffer en")
  case None
  have "en\<lparr>en_buffer := None, en_merkle := en_merkle en, en_misc := en_misc en\<rparr> = en" using None by simp
  then show thesis using that [where b = None and m = "en_merkle en" and f = "en_misc en"] None assms(1) by (simp add: buffer_stage_def)
next
  case (Some b)
  let ?b1 = "snd (hb_insert vid (map (fcast F32) v) meta b)"
  have same: "en\<lparr>en_buffer := x, en_merkle := en_merkle en, en_misc := en_misc en\<rparr> = en\<lparr>en_buffer := x\<rparr>" for x by simp
  show thesis
  proof (cases "fst (hb_insert vid (map (fcast F32) v) meta b) \<and> \<not> hb_merging ?b1")
    case False
    then have "buffer_stage E vid v meta en = Some (Inr (), en\<lparr>en_buffer := Some ?b1\<rparr>)"
      using Some by (simp only: buffer_stage_def case_prod_beta option.case if_False)
    then show thesis using that [where b = "Some ?b1" and m = "en_merkle en" and f = "en_misc en"] assms(1) unfolding same by blast
  next
    case True
    let ?vs = "hb_vectors ?b1"
    have len: "length ?vs = hb_len b + 1" by (simp add: hb_insert_def Let_def hb_len_def)
    obtain m f where mf: "merge_snapshot E ?vs en = Some (Inr (), en\<lparr>en_merkle := m, en_misc := f\<rparr>)"
        "\<forall>t. m = Some t \<longrightarrow> merkle_inv (ev_blake3 E) t \<and> 1 \<le> max_cluster_size t"
      by (rule merge_snapshot_ok [of en E ?vs]) (use assms Some in \<open>simp_all only: len\<close>, blast)
    let ?b2 = "?b1\<lparr>hb_merging := False, hb_vectors := []\<rparr>"
    have "buffer_stage E vid v meta en = Some (Inr (), en\<lparr>en_buffer := Some ?b2, en_merkle := m, en_misc := f\<rparr>)"
      using Some True mf(1) by (simp add: buffer_stage_def case_prod_beta hb_drain_def)
    then show thesis using that mf(2) by blast
  qed
qed

section \<open>Insert\<close>

text \<open>Given what the hot stage does to the tiers, the other stages do their part.\<close>

lemma insert_stages:
  fixes en :: "'c engine"
  assumes "engine_inv E R en bs lg synced" and "insert_ready E vid v meta en"
    and hs: "\<And>e :: 'c engine. en_tiers e = en_tiers en \<Longrightarrow> hot_stage E secs (fresh_record ms vid v meta) e = (Inr (), e\<lparr>en_tiers := t\<rparr>)"
    and "tiers_inv (ev_codec E) R t bs'"
  obtains en' synced' x where "engine_insert E ms secs r vid v meta mode en = Some (Inr (), en')"
    "engine_inv E R en' bs' (lg @ [x]) synced'" "x = \<lparr>txn_id = next_txn_id (en_wal en), op_code = 1, payload = payload x\<rparr>"
    "ev_to_json E (vid, v, meta) = Inr (payload x)"
    "synced \<le> synced'" "mode = Durable \<longrightarrow> synced' = length lg + 1" "en_tiers en' = t"
    "\<forall>ix. en_index en = Some ix \<longrightarrow> (\<exists>ix'. en_index en' = Some ix' \<and>
       set (id_to_node (any_inner ix')) = insert vid (set (id_to_node (any_inner ix))) \<and>
       (\<forall>i < hnsw_len (any_inner ix'). hx_vectors (any_inner ix') ! i =
         (if id_to_node (any_inner ix') ! i = vid then map (fcast F32) v else hx_vectors (any_inner ix) ! i)))"
proof -
  note inv = assms(1) [unfolded engine_inv_def] and rdy = assms(2) [unfolded insert_ready_def]
  obtain pl where pl: "ev_to_json E (vid, v, meta) = Inr pl" "length pl < 2 ^ 32" using rdy by blast
  obtain txn w d where w: "wal_append (ev_crc E) (en_wal en) \<lparr>txn_id = 0, op_code = 1, payload = pl\<rparr> mode (en_dir en) = Inr (txn, w, d)"
      "wal_stage E vid v meta mode en = (Inr (), en\<lparr>en_wal := w, en_dir := d\<rparr>)"
    by (rule wal_stage_ok [OF pl(1)])
  let ?x = "\<lparr>txn_id = next_txn_id (en_wal en), op_code = 1, payload = pl\<rparr>"
  obtain synced' where sy: "wal_inv (ev_crc E) w d (lg @ [?x]) synced'" "synced \<le> synced'" "mode = Durable \<longrightarrow> synced' = length lg + 1"
    using append_inv [OF conjunct1 [OF inv] _ _ w(1)] pl(2) rdy by auto
  define en1 where "en1 = en\<lparr>en_wal := w, en_dir := d\<rparr>"
  obtain c k b where tr: "trackers_stage v meta en1 = (Inr (), en1\<lparr>en_centroids := c, en_correlations := k, en_buckets := b\<rparr>)"
      "\<forall>x. k = Some x \<longrightarrow> cr_inv x \<and> length v = cr_dim x"
    by (rule trackers_stage_ok [of en1 v meta]) (use inv rdy in \<open>simp add: en1_def\<close>)
  define en2 where "en2 = en1\<lparr>en_centroids := c, en_correlations := k, en_buckets := b\<rparr>"
  have h2: "hot_stage E secs (fresh_record ms vid v meta) en2 = (Inr (), en2\<lparr>en_tiers := t\<rparr>)" by (rule hs) (simp add: en2_def en1_def)
  define en3 where "en3 = en2\<lparr>en_tiers := t\<rparr>"
  have f3: "en_index en3 = en_index en" "en_merkle en3 = en_merkle en" "en_buffer en3 = en_buffer en" by (simp_all add: en3_def en2_def en1_def)
  let ?upd = "\<lambda>ix ix'. set (id_to_node (any_inner ix')) = insert vid (set (id_to_node (any_inner ix))) \<and>
       (\<forall>i < hnsw_len (any_inner ix'). hx_vectors (any_inner ix') ! i =
         (if id_to_node (any_inner ix') ! i = vid then map (fcast F32) v else hx_vectors (any_inner ix) ! i))"
  obtain j where j: "index_stage E r vid v en3 = (Inr (), en3\<lparr>en_index := j\<rparr>)" "\<forall>ix. j = Some ix \<longrightarrow> hnsw_inv (any_inner ix)"
      "\<forall>ix. en_index en = Some ix \<longrightarrow> (\<exists>ix'. j = Some ix' \<and> ?upd ix ix')"
  proof (cases "en_index en")
    case None
    have "en3\<lparr>en_index := None\<rparr> = en3" using None f3(1) by simp
    then show thesis using that [of None] None f3(1) by (simp add: index_stage_def)
  next
    case (Some ix)
    have "hnsw_inv (any_inner ix)" "length v = hx_dim (any_inner ix)" "nan_free (any_inner ix) (map (fcast F32) v)"
      using inv rdy Some by blast+
    then obtain ix' where ix': "any_insert (ev_libm E) r vid v ix = Inr ix'" "hnsw_inv (any_inner ix')" "?upd ix ix'"
      by (rule any_insert_ok [where L = "ev_libm E" and r = r and vid = vid]) blast
    then show thesis using that [of "Some ix'"] Some f3(1) by (simp add: index_stage_def)
  qed
  define en4 where "en4 = en3\<lparr>en_index := j\<rparr>"
  obtain bf m f where bm: "buffer_stage E vid v meta en4 = Some (Inr (), en4\<lparr>en_buffer := bf, en_merkle := m, en_misc := f\<rparr>)"
      "\<forall>t. m = Some t \<longrightarrow> merkle_inv (ev_blake3 E) t \<and> 1 \<le> max_cluster_size t"
    by (rule buffer_stage_ok [of en4 E vid v meta]) (use inv rdy f3 in \<open>simp_all add: en4_def\<close>)
  let ?en = "en4\<lparr>en_buffer := bf, en_merkle := m, en_misc := f\<rparr>"
  have ins: "engine_insert E ms secs r vid v meta mode en = Some (Inr (), ?en)"
    by (simp add: engine_insert_def w(2) flip: en1_def, simp add: tr(1) flip: en2_def, simp add: h2 flip: en3_def,
        simp add: j(1) bm(1) flip: en4_def)
  have sel: "en_wal ?en = w" "en_dir ?en = d" "en_tiers ?en = t" "en_index ?en = j" "en_correlations ?en = k" "en_merkle ?en = m"
    by (simp_all add: en4_def en3_def en2_def en1_def)
  have "engine_inv E R ?en bs' (lg @ [?x]) synced'"
    unfolding engine_inv_def sel using sy(1) assms(4) j(2) tr(2) bm(2) by blast
  then show thesis by (rule that [OF ins _ _ _ sy(2,3) sel(3)]) (use pl(1) j(3) in \<open>simp_all add: sel(4)\<close>)
qed

section \<open>Lookups\<close>

lemma find_in_partitions_ok:
  assumes "cold_rel (ev_codec E) (t_cold (en_tiers en)) (t_disk (en_tiers en)) bs"
  shows "\<exists>res c. find_in_partitions E vid ps en = (Inr res, en\<lparr>en_cache := c\<rparr>) \<and>
    (case res of None \<Rightarrow> \<forall>p\<in>set ps. vid \<notin> vr_id ` set (concat (bs p))
     | Some x \<Rightarrow> vr_id x = vid \<and> (\<exists>p\<in>set ps. x \<in> set (concat (bs p))))"
  using assms
proof (induction ps)
  case Nil
  have "en\<lparr>en_cache := en_cache en\<rparr> = en" by simp
  then show ?case by (intro exI [of _ None] exI [of _ "en_cache en"]) simp
next
  case (Cons p ps)
  have rd: "read_partition (ev_codec E) p (t_disk (en_tiers en)) = Inr (concat (bs p))" by (rule cold_rel_read [OF Cons.prems])
  show ?case
  proof (cases "List.find (\<lambda>r. vr_id r = vid) (concat (bs p))")
    case None
    then have "vid \<notin> vr_id ` set (concat (bs p))" by (auto simp: find_None_iff)
    moreover obtain res c where "find_in_partitions E vid ps en = (Inr res, en\<lparr>en_cache := c\<rparr>)"
        "case res of None \<Rightarrow> \<forall>p\<in>set ps. vid \<notin> vr_id ` set (concat (bs p))
         | Some x \<Rightarrow> vr_id x = vid \<and> (\<exists>p\<in>set ps. x \<in> set (concat (bs p)))"
      using Cons.IH [OF Cons.prems] by blast
    ultimately show ?thesis using rd None
      by (intro exI [of _ res] exI [of _ c]) (cases res; simp)
  next
    case (Some x)
    then have x: "vr_id x = vid" "x \<in> set (concat (bs p))" by (auto simp: find_Some_iff simp del: set_concat)
    have "\<exists>c. find_in_partitions E vid (p # ps) en = (Inr (Some x), en\<lparr>en_cache := c\<rparr>)"
    proof (cases "ev_page E x")
      case (Inl e)
      have "en\<lparr>en_cache := en_cache en\<rparr> = en" by simp
      then show ?thesis using Inl rd Some by (intro exI [of _ "en_cache en"]) simp
    next
      case (Inr b)
      then show ?thesis using rd Some by (simp, blast)
    qed
    then show ?thesis using x by auto
  qed
qed

lemma get_ok:
  assumes "tiers_inv (ev_codec E) R (en_tiers en) bs"
  shows "\<exists>res c. engine_get E vid en = (Inr res, en\<lparr>en_cache := c\<rparr>) \<and>
    (case res of None \<Rightarrow> \<forall>x. stored (en_tiers en) bs x \<longrightarrow> vr_id x \<noteq> vid
     | Some x \<Rightarrow> vr_id x = vid \<and> stored (en_tiers en) bs x \<and> (\<forall>y. hot_get (en_hot en) vid = Some y \<longrightarrow> x = y))"
proof (cases "hot_get (en_hot en) vid")
  case (Some x)
  have "en\<lparr>en_cache := en_cache en\<rparr> = en" by simp
  moreover have "vr_id x = vid" using assms Some by (auto simp: tiers_inv_def dest: hot_get_id)
  ultimately show ?thesis using Some
    by (intro exI [of _ "Some x"] exI [of _ "en_cache en"]) (auto simp: engine_get_def stored_def)
next
  case None
  have rel: "cold_rel (ev_codec E) (t_cold (en_tiers en)) (t_disk (en_tiers en)) bs" using assms by (simp add: tiers_inv_def)
  have parts: "p \<in> set (partitions (t_cold (en_tiers en))) \<longleftrightarrow> bs p \<noteq> []" for p
    using rel unfolding partitions_def cold_rel_def set_map keys_map_of by (auto split: option.splits dest: spec [of _ p])
  obtain res c where r: "find_in_partitions E vid (partitions (t_cold (en_tiers en))) en = (Inr res, en\<lparr>en_cache := c\<rparr>)"
    "case res of None \<Rightarrow> \<forall>p\<in>set (partitions (t_cold (en_tiers en))). vid \<notin> vr_id ` set (concat (bs p))
     | Some x \<Rightarrow> vr_id x = vid \<and> (\<exists>p\<in>set (partitions (t_cold (en_tiers en))). x \<in> set (concat (bs p)))"
    using find_in_partitions_ok [OF rel] by blast
  have "case res of None \<Rightarrow> \<forall>x. stored (en_tiers en) bs x \<longrightarrow> vr_id x \<noteq> vid
     | Some x \<Rightarrow> vr_id x = vid \<and> stored (en_tiers en) bs x \<and> (\<forall>y. hot_get (en_hot en) vid = Some y \<longrightarrow> x = y)"
  proof (cases res)
    case None
    have "vr_id x \<noteq> vid" if st: "stored (en_tiers en) bs x" for x
    proof
      assume x: "vr_id x = vid"
      then obtain p where p: "x \<in> set (concat (bs p))" using st \<open>hot_get (en_hot en) vid = None\<close> by (auto simp: stored_def)
      then have "p \<in> set (partitions (t_cold (en_tiers en)))" unfolding parts by auto
      then show False using r(2) None x p by (auto simp del: set_concat)
    qed
    then show ?thesis using None by simp
  next
    case (Some x)
    then show ?thesis using r(2) \<open>hot_get (en_hot en) vid = None\<close> by (auto simp: stored_def)
  qed
  then show ?thesis using r(1) None by (auto simp: engine_get_def)
qed

section \<open>Search\<close>

lemma rank_results_ok:
  assumes "\<forall>x\<in>set rs. snd x \<noteq> NaN"
  shows "length (rank_results k rs) \<le> k" "distinct (map fst (rank_results k rs))" "set (rank_results k rs) \<subseteq> set rs"
    "sorted_wrt (\<lambda>a b. \<not> flt (snd b) (snd a)) (rank_results k rs)"
    "\<forall>x\<in>set (rank_results k rs). \<forall>y\<in>set rs. fst y = fst x \<longrightarrow> \<not> flt (snd y) (snd x)"
    "\<forall>y\<in>set rs. fst y \<notin> fst ` set (rank_results k rs) \<longrightarrow> (\<forall>x\<in>set (rank_results k rs). \<not> flt (snd y) (snd x)) \<and> length (rank_results k rs) = k"
proof -
  note top = asc_snd.top_unique [OF assms, where key = fst and k = k, folded rank_results_def]
  have lt: "\<not> flt (snd y) (snd x)" if "fle_total (snd x) (snd y)" "x \<in> set rs" "y \<in> set rs" for x y
    using that assms by (simp add: fle_total_NaN)
  note in_rs = subsetD [OF top(3)]
  show "length (rank_results k rs) \<le> k" "distinct (map fst (rank_results k rs))" "set (rank_results k rs) \<subseteq> set rs" by (rule top)+
  show "sorted_wrt (\<lambda>a b. \<not> flt (snd b) (snd a)) (rank_results k rs)"
    by (rule sorted_wrt_mono_rel [OF lt top(4)]) (auto dest: in_rs)
  show "\<forall>x\<in>set (rank_results k rs). \<forall>y\<in>set rs. fst y = fst x \<longrightarrow> \<not> flt (snd y) (snd x)"
    using top(5) lt in_rs by blast
  show "\<forall>y\<in>set rs. fst y \<notin> fst ` set (rank_results k rs) \<longrightarrow> (\<forall>x\<in>set (rank_results k rs). \<not> flt (snd y) (snd x)) \<and> length (rank_results k rs) = k"
    using top(6) lt in_rs by blast
qed

section \<open>Replay\<close>

text \<open>The entries of a log that are the inserts \<open>ops\<close>, and the records a replay makes of them.\<close>

type_synonym insert_data = "vector_id \<times> f64 list \<times> json"

definition logged :: "'c env \<Rightarrow> wal_entry list \<Rightarrow> insert_data list \<Rightarrow> bool" where
  "logged E es ops \<longleftrightarrow> list_all2 (\<lambda>e op. op_code e = 1 \<and> ev_from_json E (payload e) = Inr op) es ops"

definition replayed :: "(nat \<Rightarrow> nat) \<Rightarrow> nat \<Rightarrow> insert_data list \<Rightarrow> vector_record list" where
  "replayed clk n ops = map (\<lambda>(i, vid, v, meta). fresh_record (clk i) vid v meta) (List.enumerate n ops)"

lemma replayed_simps [simp]:
  "replayed clk n [] = []" "replayed clk n ((vid, v, meta) # ops) = fresh_record (clk n) vid v meta # replayed clk (Suc n) ops"
  "length (replayed clk n ops) = length ops"
  by (simp_all add: replayed_def)

lemma replayed_ids [simp]: "map vr_id (replayed clk n ops) = map fst ops"
  by (induction ops arbitrary: n) (auto simp: fresh_record_def)

lemma replayed_nth:
  "i < length ops \<Longrightarrow> ops ! i = (vid, v, meta) \<Longrightarrow> replayed clk n ops ! i = fresh_record (clk (n + i)) vid v meta"
  by (simp add: replayed_def nth_enumerate_eq)

lemma replay_no_index:
  "en_index en = None \<Longrightarrow> logged E es ops \<Longrightarrow>
     replay_entries E clk rnd n es en = (Inr (), set_hot (fold (or_keep hot_insert) (replayed clk n ops) (en_hot en)) en)"
proof (induction es arbitrary: ops n en)
  case Nil
  then show ?case by (simp add: logged_def set_hot_def)
next
  case (Cons e es)
  then obtain vid v meta ops' where o: "ops = (vid, v, meta) # ops'" "op_code e = 1"
      "ev_from_json E (payload e) = Inr (vid, v, meta)" "logged E es ops'"
    by (auto simp: logged_def list_all2_Cons1)
  let ?h = "or_keep hot_insert (fresh_record (clk n) vid v meta) (en_hot en)"
  have "apply_replicated_entry E (clk n) (rnd n) e en = (Inr (), set_hot ?h en)"
    using o Cons.prems(1) by (simp add: apply_replicated_entry_def apply_wal_entry_def)
  moreover have "set_hot h (set_hot ?h en) = set_hot h en" for h by (simp add: set_hot_def)
  ultimately show ?case using Cons.IH [of "set_hot ?h en" ops' "Suc n"] Cons.prems(1) o(1,4) by simp
qed

text \<open>Within the capacity a batch of inserts keeps the first record of every id; with distinct ids it keeps exactly the
  records that fit.\<close>

lemma fold_insert_get:
  assumes "hot_inv s" "hot_max_records s = 0 \<or> hot_len s + length rs \<le> hot_max_records s"
  shows "hot_get (fold (or_keep hot_insert) rs s) k =
    (case hot_get s k of Some x \<Rightarrow> Some x | None \<Rightarrow> List.find (\<lambda>x. vr_id x = k) rs)"
  using assms
proof (induction rs arbitrary: s)
  case Nil
  then show ?case by (simp split: option.split)
next
  case (Cons r rs)
  show ?case
  proof (cases "hot_insert r s")
    case (Inl e)
    then have "hot_get s (vr_id r) \<noteq> None" using hot_insert_cases [OF Inl] Cons.prems(2) by auto
    moreover have "or_keep hot_insert r s = s" using Inl by (simp add: or_keep_def)
    ultimately show ?thesis using Cons.IH [of s] Cons.prems by (auto split: option.split)
  next
    case (Inr s')
    note g = hot_get_insert [OF Inr]
    have "hot_inv s'" using Cons.prems(1) Inr by (rule hot_insert_inv)
    moreover have "hot_max_records s' = hot_max_records s" "hot_len s' = Suc (hot_len s)"
      using Inr by (auto simp: hot_insert_Inr hot_len_def length_update_new)
    ultimately have "hot_get (fold (or_keep hot_insert) rs s') k =
        (case hot_get s' k of Some x \<Rightarrow> Some x | None \<Rightarrow> List.find (\<lambda>x. vr_id x = k) rs)"
      using Cons.prems(2) by (intro Cons.IH) auto
    moreover have "or_keep hot_insert r s = s'" using Inr by (simp add: or_keep_def)
    ultimately show ?thesis using g by (auto split: option.split)
  qed
qed

lemma fold_insert_full:
  assumes "0 < hot_max_records s" "hot_max_records s \<le> hot_len s"
  shows "fold (or_keep hot_insert) rs s = s"
  using assms by (induction rs) (simp_all add: or_keep_def hot_insert_def max_records_def)

lemma fold_insert_distinct:
  assumes "hot_inv s" "distinct (map vr_id rs)" "\<forall>r\<in>set rs. hot_get s (vr_id r) = None"
    and "hot_max_records s = hot_len s + n" "0 < hot_max_records s"
  shows "hot_get (fold (or_keep hot_insert) rs s) k = (case hot_get s k of Some x \<Rightarrow> Some x | None \<Rightarrow> List.find (\<lambda>x. vr_id x = k) (take n rs))"
  using assms
proof (induction rs arbitrary: s n)
  case Nil
  then show ?case by (simp split: option.split)
next
  case (Cons r rs)
  show ?case
  proof (cases n)
    case 0
    have "fold (or_keep hot_insert) (r # rs) s = s" using Cons.prems(4,5) 0 by (intro fold_insert_full) auto
    then show ?thesis using 0 by (auto split: option.split)
  next
    case (Suc m)
    define s' where "s' = s\<lparr>vectors := AList.update (vr_id r) r (vectors s)\<rparr>"
    have i: "hot_insert r s = Inr s'" using Cons.prems(3,4) Suc by (simp add: hot_insert_Inr s'_def hot_get_def)
    note g = hot_get_insert [OF i]
    have "hot_inv s'" using Cons.prems(1) i by (rule hot_insert_inv)
    moreover have "hot_max_records s' = hot_max_records s" "hot_len s' = Suc (hot_len s)"
      using i by (auto simp: hot_insert_Inr hot_len_def length_update_new)
    moreover have "\<forall>x\<in>set rs. hot_get s' (vr_id x) = None" using g Cons.prems(2,3) by (auto simp: image_iff)
    ultimately have "hot_get (fold (or_keep hot_insert) rs s') k =
        (case hot_get s' k of Some x \<Rightarrow> Some x | None \<Rightarrow> List.find (\<lambda>x. vr_id x = k) (take m rs))"
      using Cons.prems(2,4,5) Suc by (intro Cons.IH) auto
    moreover have "or_keep hot_insert r s = s'" using i by (simp add: or_keep_def)
    ultimately show ?thesis using g Suc by (auto split: option.split)
  qed
qed

lemma find_distinct:
  "distinct (map f xs) \<Longrightarrow> i < length xs \<Longrightarrow> List.find (\<lambda>x. f x = f (xs ! i)) xs = Some (xs ! i)"
  unfolding find_Some_iff by (intro exI [of _ i]) (auto simp: distinct_conv_nth)

section \<open>Open\<close>

lemma open_skeleton_ok:
  assumes "cold_rel K c dk bs"
  shows "\<exists>sk. open_skeleton K c dk s = Inr sk"
proof -
  have "\<exists>sk. rfold (\<lambda>p sk. rbind (read_partition K p dk) (\<lambda>rs. Inr (if rs = [] then sk else or_keep (add_partition p) (map vr_vector rs) sk))) ps s = Inr sk" for ps
    by (induction ps arbitrary: s) (simp_all add: cold_rel_read [OF assms])
  then show ?thesis by (simp add: open_skeleton_def)
qed

text \<open>An engine without an index opens on the log's directory and the files of the cold tier and replays the log.\<close>

lemma open_replays:
  assumes "\<not> ix_enabled (sc_index cfg)" and "0 < sc_cache_capacity cfg" and "open_buckets (sc_topological cfg) (ix_dim (sc_index cfg)) = Inr bt"
    and "wal_open (ev_cp E) (sc_wal cfg) d = Inr (w, d1)" and "wal_recover (ev_crc E) (ev_cp E) d1 = Inr es" and "logged E es ops"
    and "cold_rel (ev_codec E) c dk bs"
  obtains en where "engine_open E clk rnd cfg d dk files = Inr en" "en_wal en = w" "en_dir en = d1"
    "en_hot en = fold (or_keep hot_insert) (replayed clk 0 ops) (hot_new (sc_hot_max cfg))"
    "t_disk (en_tiers en) = dk" "t_cold (en_tiers en) = c\<lparr>cs_config := sc_cold cfg\<rparr>" "en_index en = None" "en_config en = cfg"
proof -
  have o: "cold_open (ev_codec E) (sc_cold cfg) dk = Inr (c\<lparr>cs_config := sc_cold cfg\<rparr>)"
    using cold_rel_open [OF assms(7)] by (cases c) (simp add: cold_open_def)
  have rel: "cold_rel (ev_codec E) (c\<lparr>cs_config := sc_cold cfg\<rparr>) dk bs" using assms(7) by (simp add: cold_rel_def split: option.splits)
  obtain sk where sk: "open_skeleton (ev_codec E) (c\<lparr>cs_config := sc_cold cfg\<rparr>) dk (skeleton_new (sc_wake_threshold cfg)) = Inr sk"
    using open_skeleton_ok [OF rel] by blast
  have "\<exists>en. engine_open E clk rnd cfg d dk files = Inr en \<and> en_wal en = w \<and> en_dir en = d1 \<and>
    en_hot en = fold (or_keep hot_insert) (replayed clk 0 ops) (hot_new (sc_hot_max cfg)) \<and>
    t_disk (en_tiers en) = dk \<and> t_cold (en_tiers en) = c\<lparr>cs_config := sc_cold cfg\<rparr> \<and> en_index en = None \<and> en_config en = cfg"
    unfolding engine_open_def
    using assms(1-3) by (simp add: assms(4,5) o cache_new_def open_index_def replay_no_index [OF _ assms(6)] sk)
  then show thesis using that by blast
qed

section \<open>Runs of inserts\<close>

text \<open>Clock in milliseconds, clock in seconds, random number, data and mode of a call.\<close>

type_synonym insert_call = "nat \<times> nat \<times> f64 \<times> insert_data \<times> write_mode"

fun call_data :: "insert_call \<Rightarrow> insert_data" where
  "call_data (ms, secs, r, op, mode) = op"

fun call_mode :: "insert_call \<Rightarrow> write_mode" where
  "call_mode (ms, secs, r, op, mode) = mode"

text \<open>A run in which every call returned \<open>Ok\<close>.\<close>

fun run_inserts :: "'c env \<Rightarrow> insert_call list \<Rightarrow> 'c engine \<Rightarrow> 'c engine option" where
  "run_inserts E [] en = Some en"
| "run_inserts E ((ms, secs, r, (vid, v, meta), mode) # cs) en = (case engine_insert E ms secs r vid v meta mode en of
     Some (Inr _, en') \<Rightarrow> run_inserts E cs en' | _ \<Rightarrow> None)"

lemma and_then_Inr: "and_then p f = Some (Inr (), s') \<longleftrightarrow> (\<exists>s. p = (Inr (), s) \<and> f s = Some (Inr (), s'))"
  by (cases p; cases "fst p") (auto simp: and_then_def)

definition same_log :: "'c engine \<Rightarrow> 'c engine \<Rightarrow> bool" where
  "same_log a b \<longleftrightarrow> en_wal b = en_wal a \<and> en_dir b = en_dir a \<and> en_config b = en_config a"

lemma same_log_trans: "same_log a b \<Longrightarrow> same_log b c \<Longrightarrow> same_log a c"
  by (simp add: same_log_def)

lemma trackers_frame:
  assumes "trackers_stage v meta en = (Inr (), en')"
  shows "same_log en en' \<and> en_tiers en' = en_tiers en"
proof -
  define en1 where "en1 = (case en_centroids en of None \<Rightarrow> en
     | Some c \<Rightarrow> en\<lparr>en_centroids := Some (ct_update v meta (categorical_fields (sc_topological (en_config en))) c)\<rparr>)"
  have 1: "same_log en en1 \<and> en_tiers en1 = en_tiers en" by (auto simp: en1_def same_log_def split: option.split)
  define q where "q = (case en_correlations en1 of None \<Rightarrow> Inr en1
     | Some c \<Rightarrow> rbind (rfold (\<lambda>f. with_number meta f (\<lambda>num. cr_update f num v)) (numerical_fields (sc_topological (en_config en))) c)
         (\<lambda>c'. Inr (en1\<lparr>en_correlations := Some c'\<rparr>)))"
  obtain en2 where q: "q = Inr en2" using assms unfolding trackers_stage_def Let_def en1_def [symmetric] q_def [symmetric]
    by (cases q) auto
  then have 2: "same_log en1 en2 \<and> en_tiers en2 = en_tiers en1"
    by (auto simp: q_def same_log_def rbind_eq_Inr split: option.splits)
  have "same_log en2 en' \<and> en_tiers en' = en_tiers en2"
    using assms unfolding trackers_stage_def Let_def en1_def [symmetric] q_def [symmetric] q
    by (auto simp: same_log_def split: option.splits sum.splits)
  then show ?thesis using 1 2 same_log_trans by metis
qed

lemma retry_frame: "retry_insert r en = (res, en') \<Longrightarrow> same_log en en'"
  by (auto simp: retry_insert_def same_log_def split: sum.splits)

lemma evict_frame:
  assumes "evict_and_retry E secs r en = (res, en')"
  shows "same_log en en'"
proof -
  obtain ev h where d: "drain_least_accessed 100 (en_hot en) = (ev, h)" by fastforce
  obtain q c dk where w: "write_batch (ev_codec E) (word_of_nat (secs div 86400)) ev (t_cold (en_tiers en)) (t_disk (en_tiers en)) = (q, c, dk)"
    by (metis prod_cases3)
  have s: "same_log en (set_hot h en)" "same_log en ((set_hot h en)\<lparr>en_tiers := x\<rparr>)" for x by (simp_all add: same_log_def)
  show ?thesis
  proof (cases "ev = []")
    case True
    then show ?thesis using assms d s(1) by (auto simp: evict_and_retry_def Let_def dest: retry_frame intro: same_log_trans)
  next
    case False
    then show ?thesis using assms d w s(2)
      by (cases q) (auto simp: evict_and_retry_def Let_def dest!: retry_frame intro: same_log_trans)
  qed
qed

lemma hot_frame: "hot_stage E secs r en = (res, en') \<Longrightarrow> same_log en en'"
  by (auto simp: hot_stage_def same_log_def [of _ "set_hot _ _"] split: sum.splits error.splits dest: evict_frame) (auto simp: same_log_def)

lemma index_frame: "index_stage E r vid v en = (res, en') \<Longrightarrow> same_log en en' \<and> en_tiers en' = en_tiers en"
  by (auto simp: index_stage_def same_log_def split: option.splits sum.splits)

lemma persist_frame: "same_log en (persist_tree E t en) \<and> en_tiers (persist_tree E t en) = en_tiers en"
  by (simp add: persist_tree_def same_log_def split: option.split sum.split)

lemma merge_frame:
  assumes "merge_snapshot E vs en = Some (res, en')"
  shows "same_log en en' \<and> en_tiers en' = en_tiers en"
proof (cases "en_merkle en")
  case None
  then show ?thesis using assms by (simp add: merge_snapshot_def same_log_def)
next
  case (Some t)
  then obtain q where q: "insert_batch (ev_blake3 E) vs t = Some q" using assms by (auto simp: merge_snapshot_def)
  show ?thesis
  proof (cases q)
    case (Inl e)
    then show ?thesis using assms q Some by (simp add: merge_snapshot_def same_log_def)
  next
    case (Inr t')
    then have "en' = persist_tree E t' (en\<lparr>en_merkle := Some t'\<rparr>)" using assms q Some by (simp add: merge_snapshot_def)
    then show ?thesis using persist_frame [of "en\<lparr>en_merkle := Some t'\<rparr>" E t'] by (simp add: same_log_def)
  qed
qed

lemma buffer_frame:
  assumes "buffer_stage E vid v meta en = Some (Inr (), en')"
  shows "same_log en en' \<and> en_tiers en' = en_tiers en"
proof (cases "en_buffer en")
  case None
  then show ?thesis using assms by (simp add: buffer_stage_def same_log_def)
next
  case (Some b)
  obtain full b1 where h: "hb_insert vid (map (fcast F32) v) meta b = (full, b1)" by fastforce
  show ?thesis
  proof (cases "full \<and> \<not> hb_merging b1")
    case False
    then have "en' = en\<lparr>en_buffer := Some b1\<rparr>" using assms Some h by (auto simp: buffer_stage_def)
    then show ?thesis by (simp add: same_log_def)
  next
    case True
    obtain vs b2 where d: "hb_drain (b1\<lparr>hb_merging := True\<rparr>) = (vs, b2)" by fastforce
    obtain q en1 where m: "merge_snapshot E vs en = Some (q, en1)" using assms Some h True d by (auto simp: buffer_stage_def)
    have "\<exists>x. en' = en1\<lparr>en_buffer := x\<rparr>" using assms Some h True d m by (cases q) (auto simp: buffer_stage_def)
    then show ?thesis using merge_frame [OF m] by (auto simp: same_log_def)
  qed
qed

lemma hot_stage_room:
  assumes "hot_max_records (en_hot en) = 0 \<or> hot_len (en_hot en) < hot_max_records (en_hot en)"
  shows "hot_stage E secs r en = (Inr (), set_hot (or_keep hot_insert r (en_hot en)) en)"
proof (cases "hot_insert r (en_hot en)")
  case (Inl e)
  have "set_hot (en_hot en) en = en" by (simp add: set_hot_def)
  then show ?thesis using Inl hot_insert_cases [OF Inl] assms by (auto simp: hot_stage_def or_keep_def)
qed (simp add: hot_stage_def or_keep_def)

text \<open>What a successful insert did to the log and, with room in the store, to the tiers.\<close>

lemma insert_effect:
  assumes "engine_insert E ms secs r vid v meta mode en = Some (Inr (), en')"
  obtains bs where "ev_to_json E (vid, v, meta) = Inr bs"
    "wal_run (ev_crc E) (\<lparr>txn_id = 0, op_code = 1, payload = bs\<rparr>, mode) (en_wal en, en_dir en) = (en_wal en', en_dir en')"
    "en_config en' = en_config en"
    "hot_max_records (en_hot en) = 0 \<or> hot_len (en_hot en) < hot_max_records (en_hot en) \<Longrightarrow>
      en_tiers en' = (en_tiers en)\<lparr>t_hot := or_keep hot_insert (fresh_record ms vid v meta) (en_hot en)\<rparr>"
proof -
  obtain e1 e2 e3 e4 where st: "wal_stage E vid v meta mode en = (Inr (), e1)" "trackers_stage v meta e1 = (Inr (), e2)"
      "hot_stage E secs (fresh_record ms vid v meta) e2 = (Inr (), e3)" "index_stage E r vid v e3 = (Inr (), e4)"
      "buffer_stage E vid v meta e4 = Some (Inr (), en')"
    using assms by (auto simp: engine_insert_def and_then_Inr)
  obtain bs where bs: "ev_to_json E (vid, v, meta) = Inr bs" using st(1) by (cases "ev_to_json E (vid, v, meta)") (auto simp: wal_stage_def)
  obtain txn w d where w: "wal_append (ev_crc E) (en_wal en) \<lparr>txn_id = 0, op_code = 1, payload = bs\<rparr> mode (en_dir en) = Inr (txn, w, d)"
      "wal_stage E vid v meta mode en = (Inr (), en\<lparr>en_wal := w, en_dir := d\<rparr>)"
    by (rule wal_stage_ok [OF bs])
  have e1: "e1 = en\<lparr>en_wal := w, en_dir := d\<rparr>" using st(1) w(2) by simp
  note fr = trackers_frame [OF st(2)] hot_frame [OF st(3)] index_frame [OF st(4)] buffer_frame [OF st(5)]
  have "same_log e1 en'" using fr by (blast intro: same_log_trans)
  then have log: "en_wal en' = w" "en_dir en' = d" "en_config en' = en_config en" by (simp_all add: same_log_def e1)
  have t2: "en_tiers e2 = en_tiers en" using fr(1) by (simp add: e1)
  have t3: "en_tiers en' = en_tiers e3" using fr(3,4) by simp
  have tiers: "en_tiers en' = (en_tiers en)\<lparr>t_hot := or_keep hot_insert (fresh_record ms vid v meta) (en_hot en)\<rparr>"
    if room: "hot_max_records (en_hot en) = 0 \<or> hot_len (en_hot en) < hot_max_records (en_hot en)"
  proof -
    have "hot_stage E secs (fresh_record ms vid v meta) e2 = (Inr (), set_hot (or_keep hot_insert (fresh_record ms vid v meta) (en_hot e2)) e2)"
      by (rule hot_stage_room) (simp add: t2 room)
    then have "e3 = set_hot (or_keep hot_insert (fresh_record ms vid v meta) (en_hot e2)) e2" using st(3) by simp
    then show ?thesis by (simp add: t3 t2)
  qed
  have run: "wal_run (ev_crc E) (\<lparr>txn_id = 0, op_code = 1, payload = bs\<rparr>, mode) (en_wal en, en_dir en) = (en_wal en', en_dir en')"
    by (simp add: wal_run_def w(1) log)
  show thesis by (rule that [OF bs run log(3) tiers])
qed

lemma hot_len_insert: "hot_len (or_keep hot_insert r h) \<le> Suc (hot_len h) \<and> hot_max_records (or_keep hot_insert r h) = hot_max_records h"
proof (cases "hot_insert r h")
  case (Inr h')
  then have "map_of (vectors h) (vr_id r) = None" "h' = h\<lparr>vectors := AList.update (vr_id r) r (vectors h)\<rparr>"
    unfolding hot_insert_Inr by blast+
  moreover have "or_keep hot_insert r h = h'" using Inr by (simp add: or_keep_def)
  ultimately show ?thesis by (simp add: hot_len_def length_update_new)
qed (simp add: or_keep_def)

text \<open>The log of a run, and the cold tier it leaves alone while the hot tier has room.\<close>

lemma run_inserts_effect:
  assumes "run_inserts E cs en = Some en'"
    and "hot_max_records (en_hot en) = 0 \<or> hot_len (en_hot en) + length cs \<le> hot_max_records (en_hot en)"
  shows "\<exists>ps. list_all2 (\<lambda>p c. op_code (fst p) = 1 \<and> ev_to_json E (call_data c) = Inr (payload (fst p)) \<and> snd p = call_mode c) ps cs \<and>
    fold (wal_run (ev_crc E)) ps (en_wal en, en_dir en) = (en_wal en', en_dir en') \<and> en_config en' = en_config en \<and>
    t_cold (en_tiers en') = t_cold (en_tiers en) \<and> t_disk (en_tiers en') = t_disk (en_tiers en)"
  using assms
proof (induction cs arbitrary: en)
  case (Cons c cs)
  obtain ms secs r vid v meta mode where c: "c = (ms, secs, r, (vid, v, meta), mode)" by (metis prod_cases3)
  obtain en1 where i: "engine_insert E ms secs r vid v meta mode en = Some (Inr (), en1)" "run_inserts E cs en1 = Some en'"
    using Cons.prems(1) by (auto simp: c split: option.splits sum.splits)
  have room: "hot_max_records (en_hot en) = 0 \<or> hot_len (en_hot en) < hot_max_records (en_hot en)" using Cons.prems(2) by auto
  obtain bs where b: "ev_to_json E (vid, v, meta) = Inr bs"
    "wal_run (ev_crc E) (\<lparr>txn_id = 0, op_code = 1, payload = bs\<rparr>, mode) (en_wal en, en_dir en) = (en_wal en1, en_dir en1)"
    "en_config en1 = en_config en"
    "en_tiers en1 = (en_tiers en)\<lparr>t_hot := or_keep hot_insert (fresh_record ms vid v meta) (en_hot en)\<rparr>"
    using insert_effect [OF i(1)] room by metis
  have "hot_max_records (en_hot en1) = 0 \<or> hot_len (en_hot en1) + length cs \<le> hot_max_records (en_hot en1)"
    using Cons.prems(2) hot_len_insert [of "fresh_record ms vid v meta" "en_hot en"] by (auto simp: b(4))
  from Cons.IH [OF i(2) this] obtain ps where
    "list_all2 (\<lambda>p c. op_code (fst p) = 1 \<and> ev_to_json E (call_data c) = Inr (payload (fst p)) \<and> snd p = call_mode c) ps cs"
    "fold (wal_run (ev_crc E)) ps (en_wal en1, en_dir en1) = (en_wal en', en_dir en')" "en_config en' = en_config en1"
    "t_cold (en_tiers en') = t_cold (en_tiers en1)" "t_disk (en_tiers en') = t_disk (en_tiers en1)" by blast
  then show ?case using b c
    by (intro exI [of _ "(\<lparr>txn_id = 0, op_code = 1, payload = bs\<rparr>, mode) # ps"]) simp
qed simp

lemma durable_len_le: "s \<le> n \<Longrightarrow> s \<le> durable_len n s ps"
proof (induction ps arbitrary: n s)
  case (Cons p ps)
  have "Suc n \<le> durable_len (Suc n) (Suc n) ps" "s \<le> durable_len (Suc n) s ps" using Cons.prems by (simp_all add: Cons.IH)
  then show ?case using Cons.prems by simp
qed simp

lemma durable_len_covers: "j < length ps \<Longrightarrow> snd (ps ! j) = Durable \<Longrightarrow> s \<le> n \<Longrightarrow> n + j < durable_len n s ps"
proof (induction ps arbitrary: n s j)
  case (Cons p ps)
  show ?case
  proof (cases j)
    case 0
    then show ?thesis using Cons.prems durable_len_le [of "Suc n" "Suc n" ps] by simp
  next
    case (Suc i)
    then show ?thesis using Cons.IH [of i "if snd p = Durable then Suc n else s" "Suc n"] Cons.prems by auto
  qed
qed simp

lemma stamped_nth: "i < length ps \<Longrightarrow> op_code (stamped txn ps ! i) = op_code (fst (ps ! i)) \<and> payload (stamped txn ps ! i) = payload (fst (ps ! i))"
  by (induction ps arbitrary: txn i) (auto simp: nth_Cons split: nat.split)

lemma find_first:
  assumes "i < length xs" "\<forall>j<i. f (xs ! j) \<noteq> f (xs ! i)"
  shows "List.find (\<lambda>x. f x = f (xs ! i)) xs = Some (xs ! i)"
  unfolding find_Some_iff using assms by blast

lemma replayed_get:
  assumes "m = 0 \<or> length ops \<le> m" "i < length ops" "ops ! i = (vid, v, meta)" "\<forall>l < i. fst (ops ! l) \<noteq> vid"
  shows "hot_get (fold (or_keep hot_insert) (replayed clk 0 ops) (hot_new m)) vid = Some (fresh_record (clk i) vid v meta)"
proof -
  let ?rs = "replayed clk 0 ops"
  have x: "?rs ! i = fresh_record (clk i) vid v meta" using replayed_nth [OF assms(2,3), of clk 0] by simp
  have ids: "vr_id (?rs ! l) = fst (ops ! l)" if "l < length ops" for l
    using that replayed_ids [of clk 0 ops] by (metis length_map nth_map)
  have "List.find (\<lambda>y. vr_id y = vr_id (?rs ! i)) ?rs = Some (?rs ! i)"
    by (rule find_first) (use assms(2-4) ids in auto)
  moreover have "hot_get (hot_new m) vid = None" "hot_max_records (hot_new m) = m" "hot_len (hot_new m) = 0"
    by (simp_all add: hot_get_def hot_new_def hot_len_def)
  moreover have "vr_id (?rs ! i) = vid" using x by (simp add: fresh_record_def)
  ultimately show ?thesis using fold_insert_get [of "hot_new m" ?rs vid] assms(1) by (simp add: x)
qed

section \<open>Properties\<close>

lemma open_fresh:
  assumes cfg: "\<not> ix_enabled (sc_index cfg)" "0 < sc_cache_capacity cfg" "open_buckets (sc_topological cfg) (ix_dim (sc_index cfg)) = Inr bt"
    and start: "engine_open E clk rnd cfg [] \<lparr>dk_files = [], dk_dirs = []\<rparr> files = Inr en"
  obtains w d where "wal_open (ev_cp E) (sc_wal cfg) [] = Inr (w, d)" "wal_inv (ev_crc E) w d [] 0" "en_wal en = w" "en_dir en = d"
    "en_hot en = hot_new (sc_hot_max cfg)" "t_disk (en_tiers en) = \<lparr>dk_files = [], dk_dirs = []\<rparr>"
proof -
  let ?dk = "\<lparr>dk_files = [], dk_dirs = []\<rparr>" and ?c = "\<lparr>cs_config = sc_cold cfg, cs_writers = []\<rparr>"
  obtain w d where w: "wal_open (ev_cp E) (sc_wal cfg) [] = Inr (w, d)" using open_fresh_inv by blast
  have inv: "wal_inv (ev_crc E) w d [] 0" using w fresh_log_inv by (auto simp: open_fresh_inv wal_inv_def)
  have "wal_recover (ev_crc E) (ev_cp E) d = Inr []" using recover_log [OF inv] by simp
  moreover have "logged E [] []" by (simp add: logged_def)
  ultimately obtain en1 where "engine_open E clk rnd cfg [] ?dk files = Inr en1" "en_wal en1 = w" "en_dir en1 = d"
      "en_hot en1 = fold (or_keep hot_insert) (replayed clk 0 []) (hot_new (sc_hot_max cfg))"
      "t_disk (en_tiers en1) = ?dk" "t_cold (en_tiers en1) = ?c\<lparr>cs_config := sc_cold cfg\<rparr>" "en_config en1 = cfg"
    by (rule open_replays [OF cfg w _ _ cold_rel_empty])
  then show thesis using that [OF w inv] start by simp
qed

text \<open>
  C1. Durability of the engine. Open an engine without an ANN index on empty storage, with a hot tier that has room for all inserts, let any
  sequence of inserts return \<open>Ok\<close>, and crash: whatever part of the log's unsynced bytes survives, and whatever happened to the tree
  file, the engine opens again, and every insert that was made durable by its own mode or by a later durable insert is
  found by \<open>get\<close> with its vector and metadata (the first insert of an id counts). The payloads of the inserted data decode to it.
\<close>

theorem engine_crash_durability:
  fixes E :: "'c env"
  assumes cfg: "\<not> ix_enabled (sc_index cfg)" "0 < sc_cache_capacity cfg" "open_buckets (sc_topological cfg) (ix_dim (sc_index cfg)) = Inr bt"
    and json: "\<forall>c\<in>set calls. \<forall>bs. ev_to_json E (call_data c) = Inr bs \<longrightarrow> length bs < 2 ^ 32 \<and> ev_from_json E bs = Inr (call_data c)"
    and room: "sc_hot_max cfg = 0 \<or> length calls \<le> sc_hot_max cfg" "length calls < 2 ^ 64"
    and start: "engine_open E clk rnd cfg [] \<lparr>dk_files = [], dk_dirs = []\<rparr> files = Inr en0"
    and run: "run_inserts E calls en0 = Some en"
  shows "\<exists>en'. engine_open E clk' rnd' cfg (crash keep (en_dir en)) (t_disk (en_tiers en)) files' = Inr en' \<and>
    (\<forall>i j vid v meta. i \<le> j \<and> j < length calls \<and> call_mode (calls ! j) = Durable \<and> call_data (calls ! i) = (vid, v, meta) \<and>
       (\<forall>l < i. fst (call_data (calls ! l)) \<noteq> vid) \<longrightarrow>
       (\<exists>x. fst (engine_get E vid en') = Inr (Some x) \<and> vr_id x = vid \<and> vr_vector x = v \<and> vr_metadata x = meta))"
proof -
  obtain w0 d0 where w0: "wal_open (ev_cp E) (sc_wal cfg) [] = Inr (w0, d0)" and inv0: "wal_inv (ev_crc E) w0 d0 [] 0"
    and en0: "en_wal en0 = w0" "en_dir en0 = d0" "en_hot en0 = hot_new (sc_hot_max cfg)" "t_disk (en_tiers en0) = \<lparr>dk_files = [], dk_dirs = []\<rparr>"
    by (rule open_fresh [OF cfg start])
  obtain ps where ps: "list_all2 (\<lambda>p c. op_code (fst p) = 1 \<and> ev_to_json E (call_data c) = Inr (payload (fst p)) \<and> snd p = call_mode c) ps calls"
      "fold (wal_run (ev_crc E)) ps (w0, d0) = (en_wal en, en_dir en)" "t_disk (en_tiers en) = \<lparr>dk_files = [], dk_dirs = []\<rparr>"
    using run_inserts_effect [OF run] room(1) en0 by (auto simp: hot_new_def hot_len_def)
  have len: "length ps = length calls" using ps(1) by (rule list_all2_lengthD)
  have pn: "op_code (fst (ps ! i)) = 1" "ev_to_json E (call_data (calls ! i)) = Inr (payload (fst (ps ! i)))" "snd (ps ! i) = call_mode (calls ! i)"
    if "i < length calls" for i using list_all2_nthD2 [OF ps(1) that] by auto
  have dec: "length (payload (fst (ps ! i))) < 2 ^ 32 \<and> ev_from_json E (payload (fst (ps ! i))) = Inr (call_data (calls ! i))"
    if "i < length calls" for i using json nth_mem [OF that] pn(2) [OF that] by blast
  have small: "\<forall>p\<in>set ps. length (payload (fst p)) < 2 ^ 32" using dec len by (metis in_set_conv_nth)
  obtain n where n: "durable_len 0 0 ps \<le> n" "n \<le> length ps"
      "wal_recover (ev_crc E) (ev_cp E) (crash keep (en_dir en)) = Inr (take n (stamped 1 ps))"
    using crash_recover [OF w0 small, of "ev_crc E" keep] room(2) len ps(2) by auto
  obtain lg sy where "wal_inv (ev_crc E) (en_wal en) (en_dir en) lg sy"
    using run_from [OF inv0 small] ps(2) w0 room(2) len by (auto simp: open_fresh_inv)
  then obtain w' where w': "wal_open (ev_cp E) (sc_wal cfg) (crash keep (en_dir en)) = Inr (w', crash keep (en_dir en))"
    using reopen_crashed by blast
  let ?ops = "map call_data (take n calls)"
  have "logged E (take n (stamped 1 ps)) ?ops" unfolding logged_def
    using n(2) len dec pn(1) by (auto simp: list_all2_conv_all_nth stamped_nth)
  then obtain en' where en': "engine_open E clk' rnd' cfg (crash keep (en_dir en)) (t_disk (en_tiers en)) files' = Inr en'"
      "en_hot en' = fold (or_keep hot_insert) (replayed clk' 0 ?ops) (hot_new (sc_hot_max cfg))"
    unfolding ps(3) by (rule open_replays [OF cfg w' n(3) _ cold_rel_empty])
  have "\<exists>x. fst (engine_get E vid en') = Inr (Some x) \<and> vr_id x = vid \<and> vr_vector x = v \<and> vr_metadata x = meta"
    if i: "i \<le> j" "j < length calls" "call_mode (calls ! j) = Durable" "call_data (calls ! i) = (vid, v, meta)"
      "\<forall>l < i. fst (call_data (calls ! l)) \<noteq> vid" for i j vid v meta
  proof -
    have "j < n" using durable_len_covers [of j ps 0 0] i(2,3) pn(3) len n(1) by simp
    then have "hot_get (en_hot en') vid = Some (fresh_record (clk' i) vid v meta)"
      unfolding en'(2) by (intro replayed_get) (use room(1) i in auto)
    then show ?thesis by (simp add: engine_get_def fresh_record_def)
  qed
  then show ?thesis using en'(1) by blast
qed

text \<open>An instance: encoders for one record, an engine on empty storage with nothing but the log and the tiers.\<close>

definition demo_op :: insert_data where
  "demo_op = (1, [Num 2], JNull)"

definition demo_env :: "unit env" where
  "demo_env = \<lparr>ev_crc = (\<lambda>_. 0), ev_cp = \<lparr>cp_serialize = \<lambda>_. Inr [], cp_deserialize = \<lambda>_. Inl IoError\<rparr>,
     ev_codec = unary_codec (fresh_record 0 1 [Num 2] JNull),
     ev_snapshot = \<lparr>sn_serialize = \<lambda>_. Inr [], sn_deserialize = \<lambda>_. Inl IoError\<rparr>,
     ev_tree = \<lparr>tc_serialize = \<lambda>_. Inr [], tc_deserialize = \<lambda>_. Inl IoError\<rparr>,
     ev_blake3 = (\<lambda>_. replicate 32 0), ev_libm = \<lparr>lm_ln = \<lambda>x. x, lm_log2 = \<lambda>x. x\<rparr>,
     ev_to_json = (\<lambda>_. Inr [1]), ev_from_json = (\<lambda>_. Inr demo_op), ev_page = (\<lambda>_. Inr []), ev_record_size = 0,
     ev_lru = \<lparr>lru_new = \<lambda>_. (), lru_get = \<lambda>_ _. (None, ()), lru_put = \<lambda>_ _ _. (), lru_pop = \<lambda>_ _. (None, ()),
       lru_clear = \<lambda>_. (), lru_len = \<lambda>_. 0\<rparr>\<rparr>"

definition demo_config :: "nat \<Rightarrow> storage_config" where
  "demo_config m = \<lparr>sc_wal = default_wal_config, sc_hot_max = m, sc_cold = default_cold_config, sc_cache_capacity = 1,
     sc_wake_threshold = Num 0, sc_lifecycle = default_lifecycle_config, sc_index = default_index_config \<lparr>lm_ln = \<lambda>x. x, lm_log2 = \<lambda>x. x\<rparr>,
     sc_topological = default_topological_config, sc_merkle = default_merkle_config, sc_shutdown_secs = 30\<rparr>"

definition demo_engine :: "nat \<Rightarrow> unit engine" where
  "demo_engine m = \<lparr>en_wal = \<lparr>wal_cfg = default_wal_config,
        current_segment = \<lparr>sw_path = segment_path 0, sw_segment_id = 0, bytes_written = 0, ops_since_fsync = 0\<rparr>, next_txn_id = 1\<rparr>,
     en_dir = [(segment_path 0, \<lparr>content = [], durable = 0\<rparr>)],
     en_tiers = \<lparr>t_hot = hot_new m, t_cold = \<lparr>cs_config = default_cold_config, cs_writers = []\<rparr>, t_disk = \<lparr>dk_files = [], dk_dirs = []\<rparr>,
       t_skeleton = skeleton_new (Num 0)\<rparr>,
     en_cache = (), en_config = demo_config m, en_index = None, en_centroids = None, en_correlations = None, en_buckets = None,
     en_buffer = None, en_merkle = None, en_misc = []\<rparr>"

lemma demo_config_sel [simp]:
  "\<not> ix_enabled (sc_index (demo_config m))" "0 < sc_cache_capacity (demo_config m)" "sc_hot_max (demo_config m) = m"
  "open_buckets (sc_topological (demo_config m)) d = Inr None" "sc_wal (demo_config m) = default_wal_config"
  by (simp_all add: demo_config_def default_index_config_def default_topological_config_def open_buckets_def)

lemma demo_inv: "wal_inv crc (en_wal (demo_engine m)) (en_dir (demo_engine m)) [] 0"
  using fresh_log_inv by (simp add: demo_engine_def wal_inv_def)

lemma demo_open: "engine_open demo_env clk rnd (demo_config m) [] \<lparr>dk_files = [], dk_dirs = []\<rparr> [] = Inr (demo_engine m)"
proof -
  have "wal_recover (\<lambda>_. 0) \<lparr>cp_serialize = \<lambda>_. Inr [], cp_deserialize = \<lambda>_. Inl IoError\<rparr> [(segment_path 0, \<lparr>content = [], durable = 0\<rparr>)] = Inr []"
    using recover_log [OF demo_inv, of "\<lambda>_. 0" "\<lparr>cp_serialize = \<lambda>_. Inr [], cp_deserialize = \<lambda>_. Inl IoError\<rparr>"] by (simp add: demo_engine_def)
  then show ?thesis
    by (simp add: engine_open_def demo_env_def open_fresh_inv cold_open_def load_manifest_def cache_new_def open_index_def demo_config_def
        default_index_config_def default_topological_config_def default_merkle_config_def open_skeleton_def partitions_def open_buckets_def
        open_merkle_def demo_engine_def)
qed

lemma demo_insert:
  "\<exists>en. engine_insert demo_env 0 0 (Num 0) 1 [Num 2] JNull Durable (demo_engine m) = Some (Inr (), en)"
proof -
  have j: "ev_to_json demo_env (1, [Num 2], JNull) = Inr [1]" by (simp add: demo_env_def)
  obtain txn w d where "wal_stage demo_env 1 [Num 2] JNull Durable (demo_engine m) = (Inr (), (demo_engine m)\<lparr>en_wal := w, en_dir := d\<rparr>)"
    by (rule wal_stage_ok [OF j]) blast
  then show ?thesis
    by (simp add: engine_insert_def demo_engine_def trackers_stage_def hot_stage_def hot_insert_def max_records_def hot_new_def hot_len_def
        set_hot_def index_stage_def buffer_stage_def)
qed

theorem engine_crash_durability_witness:
  "\<exists>en en' x. run_inserts demo_env [(0, 0, Num 0, (1, [Num 2], JNull), Durable)] (demo_engine 0) = Some en \<and>
     engine_open demo_env (\<lambda>_. 5) (\<lambda>_. Num 0) (demo_config 0) (crash (\<lambda>_. 0) (en_dir en)) (t_disk (en_tiers en)) [] = Inr en' \<and>
     fst (engine_get demo_env 1 en') = Inr (Some x) \<and> vr_vector x = [Num 2]"
proof -
  let ?cs = "[(0, 0, Num 0, (1, [Num 2], JNull), Durable)] :: insert_call list"
  obtain en where en: "run_inserts demo_env ?cs (demo_engine 0) = Some en" using demo_insert [of 0] by auto
  have j: "\<forall>c\<in>set ?cs. \<forall>bs. ev_to_json demo_env (call_data c) = Inr bs \<longrightarrow> length bs < 2 ^ 32 \<and> ev_from_json demo_env bs = Inr (call_data c)"
    by (simp add: demo_env_def demo_op_def)
  obtain en' where e: "engine_open demo_env (\<lambda>_. 5) (\<lambda>_. Num 0) (demo_config 0) (crash (\<lambda>_. 0) (en_dir en)) (t_disk (en_tiers en)) [] = Inr en'"
    "\<forall>i j vid v meta. i \<le> j \<and> j < length ?cs \<and> call_mode (?cs ! j) = Durable \<and> call_data (?cs ! i) = (vid, v, meta) \<and>
       (\<forall>l < i. fst (call_data (?cs ! l)) \<noteq> vid) \<longrightarrow>
       (\<exists>x. fst (engine_get demo_env vid en') = Inr (Some x) \<and> vr_id x = vid \<and> vr_vector x = v \<and> vr_metadata x = meta)"
    using engine_crash_durability [OF demo_config_sel(1,2,4) j _ _ demo_open en, where clk' = "\<lambda>_. 5" and rnd' = "\<lambda>_. Num 0"
        and keep = "\<lambda>_. 0" and files' = "[]"] by auto
  have "\<exists>x. fst (engine_get demo_env 1 en') = Inr (Some x) \<and> vr_vector x = [Num 2]"
    using e(2) [rule_format, of 0 0 1 "[Num 2]" JNull] by auto
  then show ?thesis using en e(1) by blast
qed

text \<open>
  C2. Insert. Take a well-formed engine with whatever components the configuration enables, a codec of the cold tier that inverts its encoding, an id that is not in the hot tier, and an insert
  that is ready (\<open>insert_ready\<close>: the data can be encoded, no counter is at its end, the vector has the dimension of the index and of the trackers, and no
  distance in the index is NaN). Then insert returns \<open>Ok\<close> and keeps all invariants: it appends one entry to the log (synced in durable mode), a full hot tier is drained to the cold tier without losing
  a record, \<open>get\<close> returns the new record, every record that was stored is still stored, and the index holds exactly
  one more id.
\<close>

theorem engine_insert_spec:
  assumes "codec_ok (ev_codec E) {rs. set rs \<subseteq> R}" and "engine_inv E R en bs lg synced" and "insert_ready E vid v meta en"
    and "fresh_record ms vid v meta \<in> R" and "hot_get (en_hot en) vid = None"
  shows "\<exists>en' bs' synced' x. engine_insert E ms secs r vid v meta mode en = Some (Inr (), en') \<and>
    engine_inv E R en' bs' (lg @ [x]) synced' \<and> txn_id x = next_txn_id (en_wal en) \<and> ev_to_json E (vid, v, meta) = Inr (payload x) \<and>
    synced \<le> synced' \<and> (mode = Durable \<longrightarrow> synced' = length lg + 1) \<and>
    fst (engine_get E vid en') = Inr (Some (fresh_record ms vid v meta)) \<and>
    (\<forall>y. stored (en_tiers en) bs y \<longrightarrow> stored (en_tiers en') bs' y) \<and>
    (\<forall>ix. en_index en = Some ix \<longrightarrow> (\<exists>ix'. en_index en' = Some ix' \<and>
       set (id_to_node (any_inner ix')) = insert vid (set (id_to_node (any_inner ix)))))"
proof -
  let ?rec = "fresh_record ms vid v meta"
  have rid: "vr_id ?rec = vid" by (simp add: fresh_record_def)
  have ti: "tiers_inv (ev_codec E) R (en_tiers en) bs" using assms(2) by (simp add: engine_inv_def)
  obtain t bs' where t: "\<And>e :: 'a engine. en_tiers e = en_tiers en \<Longrightarrow> hot_stage E secs ?rec e = (Inr (), e\<lparr>en_tiers := t\<rparr>)"
      "tiers_inv (ev_codec E) R t bs'" "hot_get (t_hot t) (vr_id ?rec) = Some ?rec" "\<forall>x. stored (en_tiers en) bs x \<longrightarrow> stored t bs' x"
    by (rule hot_stage_ok [OF assms(1) ti assms(4)]) (use assms(5) rid in auto)
  obtain en' synced' x where i: "engine_insert E ms secs r vid v meta mode en = Some (Inr (), en')"
    "engine_inv E R en' bs' (lg @ [x]) synced'" "x = \<lparr>txn_id = next_txn_id (en_wal en), op_code = 1, payload = payload x\<rparr>"
    "ev_to_json E (vid, v, meta) = Inr (payload x)"
    "synced \<le> synced'" "mode = Durable \<longrightarrow> synced' = length lg + 1" "en_tiers en' = t"
    "\<forall>ix. en_index en = Some ix \<longrightarrow> (\<exists>ix'. en_index en' = Some ix' \<and>
       set (id_to_node (any_inner ix')) = insert vid (set (id_to_node (any_inner ix))) \<and>
       (\<forall>i < hnsw_len (any_inner ix'). hx_vectors (any_inner ix') ! i =
         (if id_to_node (any_inner ix') ! i = vid then map (fcast F32) v else hx_vectors (any_inner ix) ! i)))"
    by (rule insert_stages [OF assms(2,3) t(1,2)])
  have "fst (engine_get E vid en') = Inr (Some ?rec)" using t(3) by (simp add: engine_get_def i(7) rid)
  moreover have "txn_id x = next_txn_id (en_wal en)" using i(3) by (metis wal_entry.select_convs(1))
  ultimately show ?thesis using i t(4) by blast
qed

lemma demo_engine_inv: "engine_inv demo_env {fresh_record 0 1 [Num 2] JNull} (demo_engine m) (\<lambda>_. []) [] 0"
proof -
  have "tiers_inv (ev_codec demo_env) {fresh_record 0 1 [Num 2] JNull} (en_tiers (demo_engine m)) (\<lambda>_. [])"
    by (simp add: tiers_inv_def demo_engine_def cold_rel_empty hot_get_def) (simp add: hot_new_def)
  then show ?thesis using demo_inv by (simp add: engine_inv_def demo_env_def) (simp add: demo_engine_def)
qed

lemma demo_ready: "insert_ready demo_env 1 [Num 2] JNull (demo_engine m)"
  by (simp add: insert_ready_def demo_env_def demo_engine_def)

theorem engine_insert_spec_witness:
  "\<exists>en'. engine_insert demo_env 0 0 (Num 0) 1 [Num 2] JNull Durable (demo_engine 1) = Some (Inr (), en') \<and>
     fst (engine_get demo_env 1 en') = Inr (Some (fresh_record 0 1 [Num 2] JNull))"
proof -
  have "codec_ok (ev_codec demo_env) {rs. set rs \<subseteq> {fresh_record 0 1 [Num 2] JNull}}" by (simp add: demo_env_def unary_codec_ok)
  moreover have "hot_get (en_hot (demo_engine 1)) 1 = None" by (simp add: demo_engine_def hot_get_def hot_new_def)
  ultimately show ?thesis
    using engine_insert_spec [OF _ demo_engine_inv demo_ready, of 0 1 0 "Num 0" Durable] by blast
qed

text \<open>
  A vector of a wrong dimension for the index. The engine answers \<open>DimensionMismatch\<close>, but only after the entry was logged and the record was put into the
  hot tier, where \<open>get\<close> finds it.
\<close>

lemma engine_wrong_dimension:
  assumes "en_index en = Some ix" and "length v \<noteq> hx_dim (any_inner ix)" and "en_correlations en = None"
    and "ev_to_json E (vid, v, meta) = Inr bytes" and "hot_get (en_hot en) vid = None"
    and "hot_max_records (en_hot en) = 0 \<or> hot_len (en_hot en) < hot_max_records (en_hot en)"
  shows "\<exists>en' txn. engine_insert E ms secs r vid v meta mode en = Some (Inl (DimensionMismatch (length v) (hx_dim (any_inner ix))), en') \<and>
    wal_append (ev_crc E) (en_wal en) \<lparr>txn_id = 0, op_code = 1, payload = bytes\<rparr> mode (en_dir en) = Inr (txn, en_wal en', en_dir en') \<and>
    fst (engine_get E vid en') = Inr (Some (fresh_record ms vid v meta))"
proof -
  let ?rec = "fresh_record ms vid v meta"
  obtain txn w d where w: "wal_append (ev_crc E) (en_wal en) \<lparr>txn_id = 0, op_code = 1, payload = bytes\<rparr> mode (en_dir en) = Inr (txn, w, d)"
      "wal_stage E vid v meta mode en = (Inr (), en\<lparr>en_wal := w, en_dir := d\<rparr>)"
    by (rule wal_stage_ok [OF assms(4)])
  define en1 where "en1 = en\<lparr>en_wal := w, en_dir := d\<rparr>"
  obtain c k b where tr: "trackers_stage v meta en1 = (Inr (), en1\<lparr>en_centroids := c, en_correlations := k, en_buckets := b\<rparr>)"
    by (rule trackers_stage_ok [of en1 v meta]) (use assms(3) in \<open>simp add: en1_def\<close>)
  define en2 where "en2 = en1\<lparr>en_centroids := c, en_correlations := k, en_buckets := b\<rparr>"
  obtain h where h: "hot_insert ?rec (en_hot en) = Inr h" using assms(5,6) by (auto simp: hot_insert_Inr hot_get_def fresh_record_def)
  have hs: "hot_stage E secs ?rec en2 = (Inr (), set_hot h en2)" using h by (simp add: hot_stage_def en2_def en1_def)
  have ix: "index_stage E r vid v (set_hot h en2) = (Inl (DimensionMismatch (length v) (hx_dim (any_inner ix))), set_hot h en2)"
    using assms(1,2) by (simp add: index_stage_def any_insert_def hnsw_insert_def en2_def en1_def)
  have "engine_insert E ms secs r vid v meta mode en = Some (Inl (DimensionMismatch (length v) (hx_dim (any_inner ix))), set_hot h en2)"
    by (simp add: engine_insert_def w(2) flip: en1_def, simp add: tr flip: en2_def, simp add: hs ix)
  moreover have "fst (engine_get E vid (set_hot h en2)) = Inr (Some ?rec)"
    using hot_get_insert [OF h] by (simp add: engine_get_def fresh_record_def)
  ultimately show ?thesis using w(1) by (intro exI [of _ "set_hot h en2"] exI [of _ txn]) (simp add: en2_def en1_def)
qed

text \<open>
  Inserting an id that the hot tier already holds. With room in the hot tier the engine answers \<open>Ok\<close>, logs the new vector and puts it into
  the index, but the hot tier keeps the old record: \<open>get\<close> returns the old one while the index compares queries with the new one.
\<close>

lemma engine_reinsert_diverges:
  assumes "engine_inv E R en bs lg synced" and "insert_ready E vid v meta en" and "hot_get (en_hot en) vid = Some old"
    and "hot_max_records (en_hot en) = 0 \<or> hot_len (en_hot en) < hot_max_records (en_hot en)"
  shows "\<exists>en' synced' x. engine_insert E ms secs r vid v meta mode en = Some (Inr (), en') \<and>
    engine_inv E R en' bs (lg @ [x]) synced' \<and> ev_to_json E (vid, v, meta) = Inr (payload x) \<and>
    fst (engine_get E vid en') = Inr (Some old) \<and>
    (\<forall>ix. en_index en = Some ix \<longrightarrow> (\<exists>ix'. en_index en' = Some ix' \<and>
       (\<exists>i < hnsw_len (any_inner ix'). id_to_node (any_inner ix') ! i = vid \<and> hx_vectors (any_inner ix') ! i = map (fcast F32) v)))"
proof -
  have old: "or_keep hot_insert (fresh_record ms vid v meta) (en_hot en) = en_hot en"
    using assms(3,4) by (auto simp: or_keep_def hot_insert_def max_records_def fresh_record_def hot_get_def split: sum.split)
  have hs: "hot_stage E secs (fresh_record ms vid v meta) e = (Inr (), e\<lparr>en_tiers := en_tiers en\<rparr>)" if "en_tiers e = en_tiers en" for e :: "'a engine"
    using hot_stage_room [of e E secs "fresh_record ms vid v meta"] assms(4) old that by (simp add: set_hot_def)
  have ti: "tiers_inv (ev_codec E) R (en_tiers en) bs" using assms(1) by (simp add: engine_inv_def)
  obtain en' synced' x where i: "engine_insert E ms secs r vid v meta mode en = Some (Inr (), en')"
    "engine_inv E R en' bs (lg @ [x]) synced'" "ev_to_json E (vid, v, meta) = Inr (payload x)" "en_tiers en' = en_tiers en"
    "\<forall>ix. en_index en = Some ix \<longrightarrow> (\<exists>ix'. en_index en' = Some ix' \<and>
       set (id_to_node (any_inner ix')) = insert vid (set (id_to_node (any_inner ix))) \<and>
       (\<forall>i < hnsw_len (any_inner ix'). hx_vectors (any_inner ix') ! i =
         (if id_to_node (any_inner ix') ! i = vid then map (fcast F32) v else hx_vectors (any_inner ix) ! i)))"
    by (rule insert_stages [OF assms(1,2) hs ti])
  have g: "fst (engine_get E vid en') = Inr (Some old)" using assms(3) by (simp add: engine_get_def i(4))
  have "\<exists>i < hnsw_len (any_inner ix'). id_to_node (any_inner ix') ! i = vid \<and> hx_vectors (any_inner ix') ! i = map (fcast F32) v"
    if "en_index en' = Some ix'" "set (id_to_node (any_inner ix')) = insert vid A"
      "\<forall>i < hnsw_len (any_inner ix'). hx_vectors (any_inner ix') ! i = (if id_to_node (any_inner ix') ! i = vid then map (fcast F32) v else X i)" for ix' A X
  proof -
    have "length (id_to_node (any_inner ix')) = hnsw_len (any_inner ix')"
      using i(2) that(1) by (auto simp: engine_inv_def hnsw_inv_def graph_ok_def hnsw_len_def)
    moreover have "vid \<in> set (id_to_node (any_inner ix'))" using that(2) by blast
    ultimately obtain k where "k < hnsw_len (any_inner ix')" "id_to_node (any_inner ix') ! k = vid" by (metis in_set_conv_nth)
    then show ?thesis using that(3) by auto
  qed
  then have "\<forall>ix. en_index en = Some ix \<longrightarrow> (\<exists>ix'. en_index en' = Some ix' \<and>
       (\<exists>i < hnsw_len (any_inner ix'). id_to_node (any_inner ix') ! i = vid \<and> hx_vectors (any_inner ix') ! i = map (fcast F32) v))"
    using i(5) by (metis (no_types, lifting))
  then show ?thesis using i(1-3) g by blast
qed

text \<open>
  C4. Lookup. In a well-formed engine \<open>get\<close> never fails and changes nothing but the page cache; it finds a record exactly when some tier
  stores one with this id, and the hot tier wins.
\<close>

theorem engine_get_spec:
  assumes "engine_inv E R en bs lg synced"
  shows "\<exists>res c. engine_get E vid en = (Inr res, en\<lparr>en_cache := c\<rparr>) \<and>
    (res = None \<longleftrightarrow> (\<forall>x. stored (en_tiers en) bs x \<longrightarrow> vr_id x \<noteq> vid)) \<and>
    (\<forall>x. res = Some x \<longrightarrow> vr_id x = vid \<and> stored (en_tiers en) bs x) \<and>
    (\<forall>y. hot_get (en_hot en) vid = Some y \<longrightarrow> res = Some y)"
proof -
  have ti: "tiers_inv (ev_codec E) R (en_tiers en) bs" using assms by (simp add: engine_inv_def)
  obtain res c where r: "engine_get E vid en = (Inr res, en\<lparr>en_cache := c\<rparr>)"
    "case res of None \<Rightarrow> \<forall>x. stored (en_tiers en) bs x \<longrightarrow> vr_id x \<noteq> vid
     | Some x \<Rightarrow> vr_id x = vid \<and> stored (en_tiers en) bs x \<and> (\<forall>y. hot_get (en_hot en) vid = Some y \<longrightarrow> x = y)"
    using get_ok [OF ti, of vid] by blast
  have "stored (en_tiers en) bs y \<and> vr_id y = vid" if "hot_get (en_hot en) vid = Some y" for y
    using that ti hot_get_id [of "en_hot en" vid y] by (simp add: stored_def tiers_inv_def)
  then show ?thesis using r by (cases res) (auto, metis option.exhaust)
qed

theorem engine_get_spec_witness:
  "\<exists>c. engine_get demo_env 5 (demo_engine 0) = (Inr None, (demo_engine 0)\<lparr>en_cache := c\<rparr>)"
proof -
  have "\<not> stored (en_tiers (demo_engine 0)) (\<lambda>_. []) x" for x by (simp add: stored_def demo_engine_def hot_get_def hot_new_def)
  then show ?thesis using engine_get_spec [OF demo_engine_inv [of 0], of 5] by auto
qed

text \<open>
  C3. Search merges the candidates of the index, the hot buffer and the Merkle tree. When they can be computed and none has a NaN
  distance: without candidates and without an index the answer is \<open>IndexNotBuilt\<close>; otherwise it is a list of at most \<open>k\<close> candidates with
  distinct ids in ascending order, each with the best distance of its id, and a candidate id that is left out is no
  closer than any returned one and is left out only because there are \<open>k\<close> results.
\<close>

theorem engine_search_spec:
  assumes "engine_candidates query k wm en = Inr cands" and "\<forall>x\<in>set cands. snd x \<noteq> NaN"
  shows "if cands = [] \<and> en_index en = None then engine_search query k wm en = Inl IndexNotBuilt
    else \<exists>rs. engine_search query k wm en = Inr rs \<and> length rs \<le> k \<and> distinct (map fst rs) \<and> set rs \<subseteq> set cands \<and>
      sorted_wrt (\<lambda>a b. \<not> flt (snd b) (snd a)) rs \<and>
      (\<forall>x\<in>set rs. \<forall>y\<in>set cands. fst y = fst x \<longrightarrow> \<not> flt (snd y) (snd x)) \<and>
      (\<forall>y\<in>set cands. fst y \<notin> fst ` set rs \<longrightarrow> (\<forall>x\<in>set rs. \<not> flt (snd y) (snd x)) \<and> length rs = k)"
proof (cases "cands = [] \<and> en_index en = None")
  case True
  then show ?thesis using assms(1) by (simp add: engine_search_def)
next
  case False
  then have "engine_search query k wm en = Inr (rank_results k cands)" using assms(1) by (auto simp: engine_search_def)
  then show ?thesis using False rank_results_ok [OF assms(2), of k] by (intro if_bool_eq_conj [THEN iffD2] conjI impI exI [of _ "rank_results k cands"]) blast+
qed

text \<open>An engine whose hot buffer holds two vectors.\<close>

definition demo_buffered :: "unit engine" where
  "demo_buffered = (demo_engine 0)\<lparr>en_buffer := Some ((hb_new 10)\<lparr>hb_vectors := [\<lparr>bv_id = 3, bv_vector = [], bv_metadata = JNull\<rparr>,
     \<lparr>bv_id = 3, bv_vector = [], bv_metadata = JNull\<rparr>]\<rparr>)\<rparr>"

lemma demo_search:
  assumes "0 < k"
  shows "engine_search [] k None demo_buffered = Inr [(3, Num 1)]"
proof -
  have 1: "fround F32 1 = Num 1" using fround_of_int [of 1 F32] by simp
  obtain j where "k = Suc j" using assms by (cases k) auto
  then show ?thesis
    by (cases j) (simp_all add: engine_search_def rank_results_def engine_candidates_def demo_buffered_def demo_engine_def hb_new_def hb_search_def nearest_first_def
        dot32_def fsum_def fle_total_def cmp_or_equal_def partial_cmp_def flt_def fsub_def 1)
qed

theorem engine_search_spec_witness: "\<exists>rs. engine_search [] 4 None demo_buffered = Inr rs \<and> length rs \<le> 4 \<and> distinct (map fst rs)"
proof -
  have 1: "fround F32 1 = Num 1" using fround_of_int [of 1 F32] by simp
  have "engine_candidates [] 4 None demo_buffered = Inr [(3, Num 1), (3, Num 1)]"
    by (simp add: engine_candidates_def demo_buffered_def demo_engine_def hb_new_def hb_search_def nearest_first_def dot32_def fsum_def
        fle_total_def cmp_or_equal_def partial_cmp_def flt_def fsub_def 1)
  note c = this
  show ?thesis using engine_search_spec [OF c] by auto
qed

lemma replayed_capacity:
  assumes ids: "distinct (map fst ops)" and m: "0 < m" and i: "i < length ops"
  shows "hot_get (fold (or_keep hot_insert) (replayed clk 0 ops) (hot_new m)) (fst (ops ! i)) = (if i < m then Some (replayed clk 0 ops ! i) else None)"
proof -
  let ?rs = "replayed clk 0 ops"
  have d: "distinct (map vr_id ?rs)" using ids by simp
  have get: "hot_get (fold (or_keep hot_insert) ?rs (hot_new m)) k = List.find (\<lambda>x. vr_id x = k) (take m ?rs)" for k
    using fold_insert_distinct [of "hot_new m" ?rs m k] d m by (simp add: hot_new_def hot_get_def hot_len_def hot_inv_def)
  have nth: "fst (ops ! i) = vr_id (?rs ! i)" if "i < length ops" for i using that replayed_ids [of clk 0 ops] by (metis length_map nth_map)
  show ?thesis
  proof (cases "i < m")
    case True
    then show ?thesis using find_distinct [of vr_id "take m ?rs" i] distinct_map_take [OF d, of m] i by (simp add: get nth)
  next
    case False
    have "vr_id x \<noteq> vr_id (?rs ! i)" if xm: "x \<in> set (take m ?rs)" for x
    proof -
      obtain j where "j < length (take m ?rs)" "take m ?rs ! j = x" using xm unfolding in_set_conv_nth by blast
      then have "j < m" "j < length ops" "x = ?rs ! j" by auto
      moreover have "fst (ops ! j) \<noteq> fst (ops ! i)" using False i calculation(1,2) nth_eq_iff_index_eq [OF ids, of j i] by auto
      ultimately show ?thesis using nth [of j] nth [OF i] by metis
    qed
    then show ?thesis using False i by (simp add: get nth find_None_iff)
  qed
qed

lemma get_absent:
  assumes cold: "cold_rel (ev_codec E) (t_cold (en_tiers en)) (t_disk (en_tiers en)) bs"
    and "hot_get (en_hot en) vid = None" "\<forall>p. vid \<notin> vr_id ` set (concat (bs p))"
  shows "fst (engine_get E vid en) = Inr None"
proof -
  from find_in_partitions_ok [OF cold, of vid "partitions (t_cold (en_tiers en))"] obtain res q where
    f: "find_in_partitions E vid (partitions (t_cold (en_tiers en))) en = (Inr res, en\<lparr>en_cache := q\<rparr>)"
    "case res of None \<Rightarrow> \<forall>p\<in>set (partitions (t_cold (en_tiers en))). vid \<notin> vr_id ` set (concat (bs p))
     | Some x \<Rightarrow> vr_id x = vid \<and> (\<exists>p\<in>set (partitions (t_cold (en_tiers en))). x \<in> set (concat (bs p)))" by blast
  have "res = None"
  proof (cases res)
    case (Some x)
    then obtain p where "vr_id x = vid" "x \<in> set (concat (bs p))" using f(2) by auto
    then show ?thesis using assms(3) by (metis image_eqI)
  qed
  with f(1) show ?thesis using assms(2) by (simp add: engine_get_def)
qed

text \<open>
  C5. Recovery keeps no more than the hot tier holds. A log without a checkpoint whose entries are inserts of distinct ids is replayed by an
  engine without an index: exactly the first inserts, up to the capacity, are in the hot tier. The others are dropped without an
  error, so an insert beyond the capacity that was acknowledged as durable is not found unless the cold tier has it.
\<close>

theorem recovery_beyond_capacity_lost:
  assumes cfg: "\<not> ix_enabled (sc_index cfg)" "0 < sc_cache_capacity cfg" "open_buckets (sc_topological cfg) (ix_dim (sc_index cfg)) = Inr bt"
    and log: "wal_inv (ev_crc E) w d lg synced" "last_flushed_of (ev_cp E) d = 0" "\<forall>e\<in>set lg. 0 < txn_id e" "logged E lg ops"
    and ids: "distinct (map fst ops)" and cold: "cold_rel (ev_codec E) c dk bs" and m: "0 < sc_hot_max cfg"
  shows "\<exists>en. engine_open E clk rnd cfg d dk files = Inr en \<and>
    (\<forall>i < length ops. hot_get (en_hot en) (fst (ops ! i)) = (if i < sc_hot_max cfg then Some (replayed clk 0 ops ! i) else None)) \<and>
    (\<forall>i < length ops. sc_hot_max cfg \<le> i \<and> (\<forall>p. fst (ops ! i) \<notin> vr_id ` set (concat (bs p))) \<longrightarrow>
       fst (engine_get E (fst (ops ! i)) en) = Inr None)"
proof -
  let ?rs = "replayed clk 0 ops" and ?m = "sc_hot_max cfg"
  obtain w' where w': "wal_open (ev_cp E) (sc_wal cfg) d = Inr (w', d)" using reopen_inv [OF log(1)] by blast
  have rec: "wal_recover (ev_crc E) (ev_cp E) d = Inr lg" using recover_log [OF log(1), of "ev_cp E"] log(2,3) by simp
  obtain en where en: "engine_open E clk rnd cfg d dk files = Inr en" "en_hot en = fold (or_keep hot_insert) ?rs (hot_new ?m)"
      "t_disk (en_tiers en) = dk" "t_cold (en_tiers en) = c\<lparr>cs_config := sc_cold cfg\<rparr>"
    by (rule open_replays [OF cfg w' rec log(4) cold])
  have hot: "hot_get (en_hot en) (fst (ops ! i)) = (if i < ?m then Some (?rs ! i) else None)" if "i < length ops" for i
    unfolding en(2) by (rule replayed_capacity [OF ids m that])
  have "cold_rel (ev_codec E) (t_cold (en_tiers en)) (t_disk (en_tiers en)) bs" unfolding en(3,4) using cold by (simp add: cold_rel_def split: option.splits)
  note absent = get_absent [OF this]
  have "fst (engine_get E (fst (ops ! i)) en) = Inr None"
    if "i < length ops" "?m \<le> i" "\<forall>p. fst (ops ! i) \<notin> vr_id ` set (concat (bs p))" for i
    by (rule absent) (use hot that in auto)
  then show ?thesis using en(1) hot by blast
qed

definition demo_log :: "wal \<times> dir" where
  "demo_log = fold (wal_run (\<lambda>_. 0)) [(\<lparr>txn_id = 0, op_code = 1, payload = [1]\<rparr>, Durable), (\<lparr>txn_id = 0, op_code = 1, payload = [2]\<rparr>, Durable)]
     (en_wal (demo_engine 1), en_dir (demo_engine 1))"

definition byte_env :: "unit env" where
  "byte_env = demo_env\<lparr>ev_from_json := \<lambda>bs. Inr (ucast (hd bs), [Num 2], JNull)\<rparr>"

theorem recovery_beyond_capacity_lost_witness:
  "\<exists>en. engine_open byte_env (\<lambda>_. 0) (\<lambda>_. Num 0) (demo_config 1) (snd demo_log) \<lparr>dk_files = [], dk_dirs = []\<rparr> [] = Inr en \<and>
     hot_get (en_hot en) 1 = Some (fresh_record 0 1 [Num 2] JNull) \<and> fst (engine_get byte_env 2 en) = Inr None"
proof -
  let ?ps = "[(\<lparr>txn_id = 0, op_code = 1, payload = [1]\<rparr>, Durable), (\<lparr>txn_id = 0, op_code = 1, payload = [2]\<rparr>, Durable)]"
  let ?ops = "[(1, [Num 2], JNull), (2, [Num 2], JNull)] :: insert_data list"
  have o: "wal_open C default_wal_config [] = Inr (en_wal (demo_engine 1), en_dir (demo_engine 1))" for C
    by (simp add: open_fresh_inv demo_engine_def)
  obtain w d synced where r: "demo_log = (w, d)" "wal_inv (\<lambda>_. 0) w d (stamped 1 ?ps) synced" "map_of d ''checkpoint.bin'' = None"
    unfolding demo_log_def by (rule run_fresh [OF o, of ?ps "\<lambda>_. 0"]) auto
  have log: "wal_inv (ev_crc byte_env) w d (stamped 1 ?ps) synced" "last_flushed_of (ev_cp byte_env) d = 0" "logged byte_env (stamped 1 ?ps) ?ops"
    using r(2) no_checkpoint [OF r(3)] by (simp_all add: byte_env_def demo_env_def logged_def)
  have "\<forall>e\<in>set (stamped 1 ?ps). 0 < txn_id e" "distinct (map fst ?ops)" by simp_all
  then obtain en where en: "engine_open byte_env (\<lambda>_. 0) (\<lambda>_. Num 0) (demo_config 1) d \<lparr>dk_files = [], dk_dirs = []\<rparr> [] = Inr en"
    "\<forall>i < 2. hot_get (en_hot en) (fst (?ops ! i)) = (if i < 1 then Some (replayed (\<lambda>_. 0) 0 ?ops ! i) else None)"
    "\<forall>i < 2. 1 \<le> i \<longrightarrow> fst (engine_get byte_env (fst (?ops ! i)) en) = Inr None"
    using recovery_beyond_capacity_lost [OF demo_config_sel(1,2,4) log(1,2) _ log(3) _ cold_rel_empty, of 1 "\<lambda>_. 0" "\<lambda>_. Num 0" "[]"]
    by auto
  have "hot_get (en_hot en) 1 = Some (fresh_record 0 1 [Num 2] JNull)" "fst (engine_get byte_env 2 en) = Inr None"
    using en(2) [rule_format, of 0] en(3) [rule_format, of 1] by simp_all
  then show ?thesis using en(1) r(1) by (metis snd_conv)
qed

lemma replay_error:
  assumes "op_code e = 1" "ev_from_json E (payload e) = Inl err"
  shows "en_index en = None \<Longrightarrow> logged E es ops \<Longrightarrow> \<exists>en'. replay_entries E clk rnd n (es @ e # rest) en = (Inl err, en')"
proof (induction es arbitrary: ops n en)
  case Nil
  then show ?case using assms by (simp add: apply_replicated_entry_def apply_wal_entry_def)
next
  case (Cons x es)
  then obtain vid v meta ops' where o: "op_code x = 1" "ev_from_json E (payload x) = Inr (vid, v, meta)" "logged E es ops'"
    by (auto simp: logged_def list_all2_Cons1)
  let ?en = "set_hot (or_keep hot_insert (fresh_record (clk n) vid v meta) (en_hot en)) en"
  have "apply_replicated_entry E (clk n) (rnd n) x en = (Inr (), ?en)"
    using o Cons.prems(1) by (simp add: apply_replicated_entry_def apply_wal_entry_def)
  then show ?case using Cons.IH [of ?en ops' "Suc n"] Cons.prems(1) o(3) by simp
qed

text \<open>
  C6. A vector the encoder writes but the decoder rejects (a component that is NaN or infinite becomes \<open>null\<close> in JSON) is accepted by insert
  and then keeps the engine from opening. In a well-formed engine whose hot tier has room, with a new id, encodable data and, if there are an index and
  trackers, their dimension and no NaN distance, the insert returns \<open>Ok\<close>, and every later \<open>open\<close> of the log without an index fails with the decoding error. Nothing is assumed of
  the codec of the cold tier for this record.
\<close>

theorem undecodable_insert_blocks_open:
  assumes cfg: "\<not> ix_enabled (sc_index cfg)" "0 < sc_cache_capacity cfg"
    and inv: "engine_inv E UNIV en bs lg synced" "insert_ready E vid v meta en" "hot_get (en_hot en) vid = None"
      "hot_max_records (en_hot en) = 0 \<or> hot_len (en_hot en) < hot_max_records (en_hot en)"
    and log: "last_flushed_of (ev_cp E) (en_dir en) = 0" "\<forall>e\<in>set lg. 0 < txn_id e" "0 < next_txn_id (en_wal en)" "logged E lg ops"
    and bad: "ev_to_json E (vid, v, meta) = Inr bytes" "ev_from_json E bytes = Inl err" and cold: "cold_rel (ev_codec E) c dk bs'"
  shows "\<exists>en'. engine_insert E ms secs r vid v meta mode en = Some (Inr (), en') \<and>
    engine_open E clk rnd cfg (en_dir en') dk files = Inl err"
proof -
  let ?rec = "fresh_record ms vid v meta"
  have ti: "tiers_inv (ev_codec E) UNIV (en_tiers en) bs" using inv(1) by (simp add: engine_inv_def)
  obtain h where h: "hot_insert ?rec (en_hot en) = Inr h" using inv(3,4) by (auto simp: hot_insert_Inr hot_get_def fresh_record_def)
  let ?t = "(en_tiers en)\<lparr>t_hot := h\<rparr>"
  have hs: "hot_stage E secs ?rec e = (Inr (), e\<lparr>en_tiers := ?t\<rparr>)" if "en_tiers e = en_tiers en" for e :: "'a engine"
    using h that by (simp add: hot_stage_def set_hot_def)
  have ti': "tiers_inv (ev_codec E) UNIV ?t bs" using tiers_insert [OF ti h UNIV_I] by blast
  obtain en' sy x where i: "engine_insert E ms secs r vid v meta mode en = Some (Inr (), en')"
    "engine_inv E UNIV en' bs (lg @ [x]) sy" "x = \<lparr>txn_id = next_txn_id (en_wal en), op_code = 1, payload = payload x\<rparr>"
    "ev_to_json E (vid, v, meta) = Inr (payload x)"
    by (rule insert_stages [OF inv(1,2) hs ti'])
  have x: "payload x = bytes" "op_code x = 1" "0 < txn_id x" using i(3,4) bad(1) log(3) by (metis Inr_inject wal_entry.select_convs)+
  have wi: "wal_inv (ev_crc E) (en_wal en) (en_dir en) lg synced" using inv(1) by (simp add: engine_inv_def)
  obtain bs2 where run: "wal_run (ev_crc E) (\<lparr>txn_id = 0, op_code = 1, payload = bs2\<rparr>, mode) (en_wal en, en_dir en) = (en_wal en', en_dir en')"
    by (rule insert_effect [OF i(1)])
  obtain txn w2 d2 where ap: "wal_append (ev_crc E) (en_wal en) \<lparr>txn_id = 0, op_code = 1, payload = bs2\<rparr> mode (en_dir en) = Inr (txn, w2, d2)"
    using wal_append_total by (metis prod_cases3)
  have "last_flushed_of (ev_cp E) (en_dir en') = 0" using append_last_flushed [OF wi ap, of "ev_cp E"] run log(1) ap by (simp add: wal_run_def)
  moreover have wi': "wal_inv (ev_crc E) (en_wal en') (en_dir en') (lg @ [x]) sy" using i(2) by (simp add: engine_inv_def)
  ultimately have rec: "wal_recover (ev_crc E) (ev_cp E) (en_dir en') = Inr (lg @ [x])"
    using recover_log [OF wi', of "ev_cp E"] log(2) x(3) by simp
  obtain w' where w': "wal_open (ev_cp E) (sc_wal cfg) (en_dir en') = Inr (w', en_dir en')" using reopen_inv [OF wi'] by blast
  have o: "cold_open (ev_codec E) (sc_cold cfg) dk = Inr (c\<lparr>cs_config := sc_cold cfg\<rparr>)"
    using cold_rel_open [OF cold] by (cases c) (simp add: cold_open_def)
  have ri: "\<exists>e'. replay_entries E clk rnd 0 (lg @ [x]) e = (Inl err, e')" if "en_index e = None" for e :: "'a engine"
    using replay_error [of x E err e lg ops clk rnd 0 "[]"] x bad(2) that log(4) by simp
  then obtain g where g: "\<And>e :: 'a engine. en_index e = None \<Longrightarrow> replay_entries E clk rnd 0 (lg @ [x]) e = (Inl err, g e)" by metis
  have "engine_open E clk rnd cfg (en_dir en') dk files = Inl err"
    using cfg by (simp add: engine_open_def w' rec o g cache_new_def open_index_def)
  then show ?thesis using i(1) by blast
qed

text \<open>An environment in which a vector with a NaN is written with a \<open>null\<close> that neither decoder accepts.\<close>

definition null_env :: "unit env" where
  "null_env = demo_env\<lparr>ev_to_json := (\<lambda>(_, v, _). Inr (if NaN \<in> set v then [0] else [1])), ev_from_json := (\<lambda>bs. if bs = [1] then Inr demo_op else Inl (JsonError [])),
     ev_codec := (unary_codec (fresh_record 0 1 [Num 2] JNull))\<lparr>records_to_json := \<lambda>_. Inr [0], records_from_json := \<lambda>_. Inl (JsonError [])\<rparr>\<rparr>"

theorem undecodable_insert_blocks_open_witness:
  "\<exists>en'. engine_insert null_env 0 0 (Num 0) 1 [NaN] JNull Durable (demo_engine 0) = Some (Inr (), en') \<and>
     engine_open null_env (\<lambda>_. 0) (\<lambda>_. Num 0) (demo_config 0) (en_dir en') \<lparr>dk_files = [], dk_dirs = []\<rparr> [] = Inl (JsonError [])"
proof -
  have t: "tiers_inv (ev_codec null_env) UNIV (en_tiers (demo_engine 0)) (\<lambda>_. [])"
    by (simp add: tiers_inv_def demo_engine_def cold_rel_empty)
  then have "engine_inv null_env UNIV (demo_engine 0) (\<lambda>_. []) [] 0" using demo_inv by (simp add: engine_inv_def) (simp add: demo_engine_def)
  moreover have "insert_ready null_env 1 [NaN] JNull (demo_engine 0)" by (simp add: insert_ready_def null_env_def demo_engine_def)
  moreover have "hot_get (en_hot (demo_engine 0)) 1 = None" "last_flushed_of (ev_cp null_env) (en_dir (demo_engine 0)) = 0" "0 < next_txn_id (en_wal (demo_engine 0))"
    "hot_max_records (en_hot (demo_engine 0)) = 0"
    using no_checkpoint [of "en_dir (demo_engine 0)"] by (simp_all add: demo_engine_def hot_get_def hot_new_def)
  moreover have "ev_to_json null_env (1, [NaN], JNull) = Inr [0]" "ev_from_json null_env [0] = Inl (JsonError [])" "logged null_env [] []"
    by (simp_all add: null_env_def logged_def)
  ultimately show ?thesis
    by (intro undecodable_insert_blocks_open [OF demo_config_sel(1,2) _ _ _ _ _ _ _ _ _ _ cold_rel_empty]) simp_all
qed

end
