(* ===== verification/Cluster_Node.thy ===== *)
theory Cluster_Node
  imports Engine Cluster
begin

text \<open>
  A node of the cluster: the scatter-gather search of \<open>tesseract-cluster/src/query_coordinator.rs\<close>, the follower's side of replication
  (\<open>replication_handler.rs\<close>), the HTTP handlers of \<open>api.rs\<close> and the node that puts them together (\<open>cluster_node.rs\<close>).

  The network is a parameter: a function from the address and the request to the decoded body of the response, whatever its
  status, or to the text of what went wrong. Whether the search of a shard exceeds a timeout is a parameter too, and every
  shard's task has its own view of the cluster, since assignments may change while it waits. Measured times are left out of the
  responses. Error texts in responses are either literal or the \<open>Display\<close> of an error.
\<close>

section \<open>Exchanges\<close>

datatype 'a exchange = Answer 'a | BadBody string | Unreachable string

text \<open>What \<open>send\<close> and \<open>json\<close> with their \<open>map_err\<close> make of an exchange, given the texts before the address.\<close>

definition exchange_result :: "string \<Rightarrow> string \<Rightarrow> string \<Rightarrow> 'a exchange \<Rightarrow> 'a result" where
  "exchange_result what response addr x = (case x of
       Answer a \<Rightarrow> Inr a
     | BadBody e \<Rightarrow> Inl (ServiceError (''failed to parse '' @ response @ '' response from '' @ addr @ '': '' @ e))
     | Unreachable e \<Rightarrow> Inl (ServiceError (what @ '' request to '' @ addr @ '' failed: '' @ e)))"

section \<open>Scatter-gather search\<close>

record scored_shard_result =
  ss_id :: u64
  ss_score :: f32

record shard_result =
  sh_shard_id :: u64
  sh_node_id :: string
  sh_results :: "scored_shard_result list"

record distributed_query_result =
  dq_results :: "scored_shard_result list"
  dq_total_shards :: nat
  dq_responded_shards :: nat
  dq_partial :: bool

record remote_search_request =
  rq_query :: "f64 list"
  rq_ef :: nat
  rq_mask :: "weight_mask option"

record remote_search_response =
  rr_results :: "scored_shard_result list"

type_synonym search_net = "string \<Rightarrow> remote_search_request \<Rightarrow> remote_search_response exchange"

definition to_scored :: "(vector_id \<times> f32) list \<Rightarrow> scored_shard_result list" where
  "to_scored rs = map (\<lambda>(vid, s). \<lparr>ss_id = vid, ss_score = s\<rparr>) rs"

definition local_search :: "cluster_state \<Rightarrow> 'c engine \<Rightarrow> f64 list \<Rightarrow> nat \<Rightarrow> weight_mask option \<Rightarrow> u64 \<Rightarrow> shard_result result" where
  "local_search C en query ef wm shard = rbind (engine_search query ef wm en) (\<lambda>rs.
     Inr \<lparr>sh_shard_id = shard, sh_node_id = id_node_id (cl_identity C), sh_results = to_scored rs\<rparr>)"

definition remote_search :: "cluster_state \<Rightarrow> search_net \<Rightarrow> string \<Rightarrow> f64 list \<Rightarrow> nat \<Rightarrow> weight_mask option \<Rightarrow> u64 \<Rightarrow> shard_result result" where
  "remote_search C net leader query ef wm shard = (case get_node (cl_registry C) leader of
       None \<Rightarrow> Inl (NotFound (''leader node '' @ leader))
     | Some n \<Rightarrow> rbind (exchange_result ''remote search'' ''remote search'' (ni_addr n)
           (net (ni_addr n) \<lparr>rq_query = query, rq_ef = ef, rq_mask = wm\<rparr>)) (\<lambda>resp.
         Inr \<lparr>sh_shard_id = shard, sh_node_id = leader, sh_results = rr_results resp\<rparr>))"

definition search_shard :: "cluster_state \<Rightarrow> search_net \<Rightarrow> 'c engine \<Rightarrow> f64 list \<Rightarrow> nat \<Rightarrow> weight_mask option \<Rightarrow> u64 \<Rightarrow> shard_result result" where
  "search_shard C net en query ef wm shard = (case get_leader (cl_shards C) shard of
       None \<Rightarrow> Inl (ShardNotAssigned shard)
     | Some leader \<Rightarrow> if leader = id_node_id (cl_identity C) then local_search C en query ef wm shard
         else remote_search C net leader query ef wm shard)"

definition merge_results :: "shard_result list \<Rightarrow> nat \<Rightarrow> scored_shard_result list" where
  "merge_results rs limit = take limit (retain_first ss_id {}
     (sort_by (\<lambda>a b. fle_total (ss_score b) (ss_score a)) (concat (map sh_results rs))))"

definition per_shard_timeout :: "u64 \<Rightarrow> u64 option \<Rightarrow> nat \<Rightarrow> u64" where
  "per_shard_timeout query_timeout_ms within_ms total_shards = (case within_ms of
       Some w \<Rightarrow> max 50 (w div word_of_nat total_shards)
     | None \<Rightarrow> query_timeout_ms)"

text \<open>The answer of a shard's task: nothing when it is late, fails or panics.\<close>

definition shard_answer :: "(u64 \<Rightarrow> u64 \<Rightarrow> bool) \<Rightarrow> u64 \<Rightarrow> (u64 \<Rightarrow> cluster_state) \<Rightarrow> search_net \<Rightarrow> 'c engine \<Rightarrow> f64 list \<Rightarrow> nat \<Rightarrow>
    weight_mask option \<Rightarrow> u64 \<Rightarrow> shard_result option" where
  "shard_answer late tout view net en query ef wm shard = (if late shard tout then None
     else case search_shard (view shard) net en query ef wm shard of Inr r \<Rightarrow> Some r | Inl _ \<Rightarrow> None)"

definition distributed_search :: "cluster_state \<Rightarrow> u64 \<Rightarrow> (u64 \<Rightarrow> u64 \<Rightarrow> bool) \<Rightarrow> (u64 \<Rightarrow> cluster_state) \<Rightarrow> search_net \<Rightarrow> 'c engine \<Rightarrow>
    f64 list \<Rightarrow> nat \<Rightarrow> weight_mask option \<Rightarrow> nat \<Rightarrow> u64 option \<Rightarrow> distributed_query_result result" where
  "distributed_search C query_timeout_ms late view net en query ef wm limit within_ms =
     (let leaders = assigned_leaders (cl_shards C); total_shards = length leaders;
          tout = per_shard_timeout query_timeout_ms within_ms total_shards;
          shard_results = List.map_filter (\<lambda>(shard, _). shard_answer late tout view net en query ef wm shard) leaders
      in if leaders = [] then Inl AllShardsFailed
         else if shard_results = [] then Inl AllShardsFailed
         else Inr \<lparr>dq_results = merge_results shard_results limit, dq_total_shards = total_shards,
           dq_responded_shards = length shard_results, dq_partial = (length shard_results < total_shards)\<rparr>)"

definition handle_remote_search :: "remote_search_request \<Rightarrow> 'c engine \<Rightarrow> remote_search_response result" where
  "handle_remote_search body en = rbind (engine_search (rq_query body) (rq_ef body) (rq_mask body) en) (\<lambda>rs.
     Inr \<lparr>rr_results = to_scored rs\<rparr>)"

section \<open>Replication to a follower\<close>

datatype msg = Text string | Display error

record replication_response =
  rp_success :: bool
  rp_last_acked_txn_id :: u64
  rp_error :: "msg option"

text \<open>The leader's client.\<close>

definition replicate_to :: "(string \<Rightarrow> replication_entry list \<Rightarrow> replication_response exchange) \<Rightarrow> string \<Rightarrow> replication_entry list \<Rightarrow>
    replication_response result" where
  "replicate_to net follower_addr entries = exchange_result ''replication'' ''replication'' follower_addr (net follower_addr entries)"

definition to_wal_entry :: "replication_entry \<Rightarrow> wal_entry" where
  "to_wal_entry e = \<lparr>txn_id = re_txn_id e, op_code = re_op_code e, payload = re_payload e\<rparr>"

text \<open>The clock and the random draws of the \<open>n\<close>-th entry are given.\<close>

fun replicate_loop :: "'c env \<Rightarrow> (nat \<Rightarrow> nat) \<Rightarrow> (nat \<Rightarrow> f64) \<Rightarrow> nat \<Rightarrow> u64 \<Rightarrow> replication_entry list \<Rightarrow> 'c engine \<Rightarrow> u64 result \<times> 'c engine" where
  "replicate_loop E clk rnd n last_acked [] en = (Inr last_acked, en)"
| "replicate_loop E clk rnd n last_acked (entry # es) en = (case apply_replicated_entry E (clk n) (rnd n) (to_wal_entry entry) en of
     (Inl e, en') \<Rightarrow> (Inl e, en') | (Inr _, en') \<Rightarrow> replicate_loop E clk rnd (n + 1) (re_txn_id entry) es en')"

definition handle_replicate :: "'c env \<Rightarrow> (nat \<Rightarrow> nat) \<Rightarrow> (nat \<Rightarrow> f64) \<Rightarrow> replication_entry list \<Rightarrow> 'c engine \<Rightarrow> replication_response result \<times> 'c engine" where
  "handle_replicate E clk rnd entries en = (case replicate_loop E clk rnd 0 0 entries en of
       (Inl e, en') \<Rightarrow> (Inl e, en')
     | (Inr txn, en') \<Rightarrow> (Inr \<lparr>rp_success = True, rp_last_acked_txn_id = txn, rp_error = None\<rparr>, en'))"

section \<open>The HTTP handlers\<close>

text \<open>The body of a response comes with its status code.\<close>

record 'c api_state =
  as_cluster :: cluster_state
  as_storage :: "'c engine option"

record cluster_health_body =
  ch_node_id :: string
  ch_status :: string
  ch_active_nodes :: nat
  ch_total_shards :: nat
  ch_leaderships :: nat
  ch_followerships :: nat

record promotion_candidate =
  pc_shard_id :: u64
  pc_current_leader :: string
  pc_candidate_node :: string
  pc_eligible :: bool
  pc_replication_lag :: u64

record insert_request =
  ir_id :: u64
  ir_vector :: "f64 list"
  ir_metadata :: "json option"

record insert_response =
  is_success :: bool
  is_id :: u64
  is_error :: "msg option"

record internal_insert_response =
  ii_success :: bool
  ii_error :: "msg option"

record internal_health_response =
  ih_node_id :: string
  ih_is_leader :: bool
  ih_shards :: "u64 list"

text \<open>
  The JSON form of a forwarded insert (\<open>InternalInsertRequest\<close>), written by \<open>reqwest\<close> and read by the \<open>Json\<close> extractor of the leader; a body that cannot be written is an error of
  sending. Decoding need not give the request back: \<open>serde_json\<close> may read a number an ulp off, and it reads \<open>null\<close> as no metadata.
\<close>

record insert_wire =
  iw_encode :: "insert_request \<Rightarrow> string + u8 list"
  iw_decode :: "u8 list \<Rightarrow> string + insert_request"

type_synonym insert_net = "string \<Rightarrow> u8 list \<Rightarrow> internal_insert_response exchange"

definition OK :: nat where "OK = 200"
definition CREATED :: nat where "CREATED = 201"
definition BAD_REQUEST :: nat where "BAD_REQUEST = 400"
definition INTERNAL_SERVER_ERROR :: nat where "INTERNAL_SERVER_ERROR = 500"
definition BAD_GATEWAY :: nat where "BAD_GATEWAY = 502"
definition SERVICE_UNAVAILABLE :: nat where "SERVICE_UNAVAILABLE = 503"

text \<open>\<open>String\<close> compares its bytes lexicographically.\<close>

definition str_le :: "string \<Rightarrow> string \<Rightarrow> bool" where
  "str_le a b = lexordp_eq (map (of_char :: char \<Rightarrow> nat) a) (map of_char b)"

definition list_nodes :: "'c api_state \<Rightarrow> node_info list" where
  "list_nodes st = sort_by (\<lambda>a b. str_le (ni_node_id a) (ni_node_id b)) (all_nodes (cl_registry (as_cluster st)))"

definition get_shard_assignment :: "'c api_state \<Rightarrow> shard_assignment list" where
  "get_shard_assignment st = sort_by (\<lambda>a b. sa_shard_id a \<le> sa_shard_id b)
     (map (\<lambda>(shard, leader). \<lparr>sa_shard_id = shard, sa_leader = leader, sa_replicas = []\<rparr>) (assigned_leaders (cl_shards (as_cluster st))))"

definition cluster_health :: "'c api_state \<Rightarrow> cluster_health_body" where
  "cluster_health st = (let c = as_cluster st in
     \<lparr>ch_node_id = id_node_id (cl_identity c), ch_status = ''healthy'', ch_active_nodes = length (active_nodes (cl_registry c)),
      ch_total_shards = sm_len (cl_shards c), ch_leaderships = length (my_leaderships (cl_leader_election c)),
      ch_followerships = length (my_followerships (cl_leader_election c))\<rparr>)"

definition api_promotion_candidates :: "'c api_state \<Rightarrow> promotion_candidate list" where
  "api_promotion_candidates st = (let c = as_cluster st; eligibility = promotion_candidates (cl_failover c) in
     sort_by (\<lambda>a b. pc_shard_id a \<le> pc_shard_id b) (map (\<lambda>(shard, leader).
       \<lparr>pc_shard_id = shard, pc_current_leader = leader, pc_candidate_node = id_node_id (cl_identity c),
        pc_eligible = (case map_of (rev eligibility) shard of Some b \<Rightarrow> b | None \<Rightarrow> False), pc_replication_lag = 0\<rparr>)
       (my_followerships (cl_leader_election c))))"

text \<open>The insert into the local engine that both insert handlers do.\<close>

definition local_insert :: "'c env \<Rightarrow> nat \<Rightarrow> nat \<Rightarrow> f64 \<Rightarrow> insert_request \<Rightarrow> 'c engine \<Rightarrow> (unit result \<times> 'c engine) option" where
  "local_insert E ms secs r req en =
     engine_insert E ms secs r (ir_id req) (ir_vector req) (case ir_metadata req of Some j \<Rightarrow> j | None \<Rightarrow> JObject []) Durable en"

definition insert_failed :: "u64 \<Rightarrow> msg \<Rightarrow> insert_response" where
  "insert_failed vid text = \<lparr>is_success = False, is_id = vid, is_error = Some text\<rparr>"

definition forwarded :: "string \<Rightarrow> string \<Rightarrow> insert_request \<Rightarrow> internal_insert_response exchange \<Rightarrow> nat \<times> insert_response" where
  "forwarded leader addr req answer = (case answer of
       Answer resp \<Rightarrow> (if ii_success resp then CREATED else BAD_REQUEST, \<lparr>is_success = ii_success resp, is_id = ir_id req, is_error = ii_error resp\<rparr>)
     | BadBody e \<Rightarrow> (BAD_GATEWAY, insert_failed (ir_id req) (Text (''failed to parse response from leader '' @ leader @ '': '' @ e)))
     | Unreachable e \<Rightarrow> (BAD_GATEWAY, insert_failed (ir_id req) (Text (''failed to forward insert to leader '' @ leader @ '' at '' @ addr @ '': '' @ e))))"

definition handle_forward_insert :: "'c env \<Rightarrow> insert_wire \<Rightarrow> nat \<Rightarrow> nat \<Rightarrow> f64 \<Rightarrow> insert_net \<Rightarrow> insert_request \<Rightarrow> 'c api_state \<Rightarrow>
    ((nat \<times> insert_response) \<times> 'c api_state) option" where
  "handle_forward_insert E W ms secs r net req st = Option.bind (shard_for (ir_id req)) (\<lambda>shard.
     case get_leader (cl_shards (as_cluster st)) shard of
       None \<Rightarrow> Some ((SERVICE_UNAVAILABLE, insert_failed (ir_id req) (Text (''shard '' @ show_nat (unat shard) @ '' has no leader assigned''))), st)
     | Some leader \<Rightarrow>
         if leader = id_node_id (cl_identity (as_cluster st))
         then (case as_storage st of
             None \<Rightarrow> Some ((INTERNAL_SERVER_ERROR, insert_failed (ir_id req) (Text ''local storage not available'')), st)
           | Some en \<Rightarrow> map_option (\<lambda>(res, en').
               (case res of Inr _ \<Rightarrow> (CREATED, \<lparr>is_success = True, is_id = ir_id req, is_error = None\<rparr>)
                | Inl e \<Rightarrow> (BAD_REQUEST, insert_failed (ir_id req) (Display e)), st\<lparr>as_storage := Some en'\<rparr>))
               (local_insert E ms secs r req en))
         else (case get_node (cl_registry (as_cluster st)) leader of
             None \<Rightarrow> Some ((SERVICE_UNAVAILABLE, insert_failed (ir_id req)
               (Text (''leader '' @ leader @ '' for shard '' @ show_nat (unat shard) @ '' not found in registry''))), st)
           | Some n \<Rightarrow> Some (forwarded leader (ni_addr n) req
               (case iw_encode W req of Inl e \<Rightarrow> Unreachable e | Inr body \<Rightarrow> net (ni_addr n) body), st)))"

definition internal_search_handler :: "remote_search_request \<Rightarrow> 'c api_state \<Rightarrow> nat \<times> remote_search_response" where
  "internal_search_handler req st = (case as_storage st of
       None \<Rightarrow> (INTERNAL_SERVER_ERROR, \<lparr>rr_results = []\<rparr>)
     | Some en \<Rightarrow> (case handle_remote_search req en of
         Inr resp \<Rightarrow> (OK, resp) | Inl _ \<Rightarrow> (INTERNAL_SERVER_ERROR, \<lparr>rr_results = []\<rparr>)))"

definition internal_insert_handler :: "'c env \<Rightarrow> nat \<Rightarrow> nat \<Rightarrow> f64 \<Rightarrow> insert_request \<Rightarrow> 'c api_state \<Rightarrow>
    ((nat \<times> internal_insert_response) \<times> 'c api_state) option" where
  "internal_insert_handler E ms secs r req st = (case as_storage st of
       None \<Rightarrow> Some ((INTERNAL_SERVER_ERROR, \<lparr>ii_success = False, ii_error = Some (Text ''local storage not available'')\<rparr>), st)
     | Some en \<Rightarrow> map_option (\<lambda>(res, en').
         (case res of Inr _ \<Rightarrow> (CREATED, \<lparr>ii_success = True, ii_error = None\<rparr>)
          | Inl e \<Rightarrow> (BAD_REQUEST, \<lparr>ii_success = False, ii_error = Some (Display e)\<rparr>), st\<lparr>as_storage := Some en'\<rparr>))
         (local_insert E ms secs r req en))"

definition internal_replicate_handler :: "'c env \<Rightarrow> (nat \<Rightarrow> nat) \<Rightarrow> (nat \<Rightarrow> f64) \<Rightarrow> replication_entry list \<Rightarrow> 'c api_state \<Rightarrow>
    (nat \<times> replication_response) \<times> 'c api_state" where
  "internal_replicate_handler E clk rnd entries st = (case as_storage st of
       None \<Rightarrow> ((INTERNAL_SERVER_ERROR, \<lparr>rp_success = False, rp_last_acked_txn_id = 0, rp_error = Some (Text ''local storage not available'')\<rparr>), st)
     | Some en \<Rightarrow> (case handle_replicate E clk rnd entries en of
         (Inr resp, en') \<Rightarrow> ((OK, resp), st\<lparr>as_storage := Some en'\<rparr>)
       | (Inl e, en') \<Rightarrow> ((INTERNAL_SERVER_ERROR, \<lparr>rp_success = False, rp_last_acked_txn_id = 0, rp_error = Some (Display e)\<rparr>),
           st\<lparr>as_storage := Some en'\<rparr>)))"

definition internal_health_handler :: "'c api_state \<Rightarrow> internal_health_response" where
  "internal_health_handler st = (let leaderships = my_leaderships (cl_leader_election (as_cluster st)) in
     \<lparr>ih_node_id = id_node_id (cl_identity (as_cluster st)), ih_is_leader = (leaderships \<noteq> []), ih_shards = leaderships\<rparr>)"

section \<open>The node\<close>

record 'c cluster_node =
  cn_identity :: node_identity
  cn_cluster_state :: cluster_state
  cn_query_timeout_ms :: u64
  cn_storage :: "'c engine"
  cn_http_addr :: string

definition cluster_node_new :: "node_identity \<Rightarrow> string \<Rightarrow> 'c engine \<Rightarrow> u64 \<Rightarrow> 'c cluster_node" where
  "cluster_node_new identity http_addr storage query_timeout_ms =
     \<lparr>cn_identity = identity, cn_cluster_state = cluster_new identity (registry_new 30) (sm_new (id_node_id identity)),
      cn_query_timeout_ms = query_timeout_ms, cn_storage = storage, cn_http_addr = http_addr\<rparr>"

text \<open>\<open>start\<close> up to serving requests: the node registers itself; the state of the handlers is the node's with its storage.\<close>

definition cluster_node_start :: "nat \<Rightarrow> 'c cluster_node \<Rightarrow> 'c cluster_node result" where
  "cluster_node_start now nd = rbind (cluster_join now (cn_cluster_state nd)) (\<lambda>c. Inr (nd\<lparr>cn_cluster_state := c\<rparr>))"

definition node_api :: "'c cluster_node \<Rightarrow> 'c api_state" where
  "node_api nd = \<lparr>as_cluster = cn_cluster_state nd, as_storage = Some (cn_storage nd)\<rparr>"

section \<open>Merging\<close>

interpretation desc_score: ranking "\<lambda>a b. fle_total (ss_score b) (ss_score a)" "\<lambda>r. ss_score r \<noteq> NaN"
  by unfold_locales (use desc.le_total desc.le_trans in blast)+

section \<open>Redelivery\<close>

text \<open>An insert into the hot tier that was answered, with success or not, changes nothing when it comes again.\<close>

definition hot_settled :: "vector_id \<Rightarrow> hot_store \<Rightarrow> bool" where
  "hot_settled vid s \<longleftrightarrow> hot_get s vid \<noteq> None \<or> (0 < hot_max_records s \<and> hot_max_records s \<le> hot_len s)"

lemma or_keep_settled: "hot_settled (vr_id r) s \<Longrightarrow> or_keep hot_insert r s = s"
  by (auto simp: hot_settled_def or_keep_def hot_insert_def max_records_def hot_get_def Let_def split: option.split)

lemma hot_settled_insert: "hot_settled (vr_id r) (or_keep hot_insert r s)"
proof (cases "hot_insert r s")
  case (Inl e)
  then show ?thesis by (auto simp: or_keep_def hot_settled_def hot_insert_def max_records_def hot_get_def split: option.splits if_splits)
next
  case (Inr s')
  then show ?thesis using hot_get_insert [OF Inr] by (simp add: or_keep_def hot_settled_def)
qed

lemma hot_settled_mono: "hot_settled vid s \<Longrightarrow> hot_settled vid (or_keep hot_insert r s)"
proof (cases "hot_insert r s")
  case (Inr s')
  assume "hot_settled vid s"
  moreover have "hot_max_records s' = hot_max_records s" "hot_len s' = Suc (hot_len s)"
    using Inr by (auto simp: hot_insert_Inr hot_len_def length_update_new)
  ultimately show ?thesis using Inr hot_get_insert [OF Inr] by (auto simp: or_keep_def hot_settled_def)
qed (simp add: or_keep_def)

text \<open>Without an index the outcome of an entry depends on its bytes only.\<close>

definition entry_outcome :: "'c env \<Rightarrow> replication_entry \<Rightarrow> unit result" where
  "entry_outcome E e = (if re_op_code e \<noteq> op_code_u8 InsertVector then Inr ()
     else rbind (ev_from_json E (re_payload e)) (\<lambda>_. Inr ()))"

definition settled :: "'c env \<Rightarrow> replication_entry \<Rightarrow> 'c engine \<Rightarrow> bool" where
  "settled E e en \<longleftrightarrow> (re_op_code e = op_code_u8 InsertVector \<longrightarrow>
     (\<forall>vid v meta. ev_from_json E (re_payload e) = Inr (vid, v, meta) \<longrightarrow> hot_settled vid (en_hot en)))"

lemma set_hot_same [simp]: "set_hot (en_hot en) en = en"
  by (simp add: set_hot_def)

lemma apply_entry_no_index:
  assumes "en_index en = None"
  obtains h where "apply_replicated_entry E ms r (to_wal_entry e) en = (entry_outcome E e, set_hot h en)"
    "settled E e en \<Longrightarrow> h = en_hot en" "settled E e (set_hot h en)" "\<And>vid. hot_settled vid (en_hot en) \<Longrightarrow> hot_settled vid h"
proof (cases "re_op_code e = op_code_u8 InsertVector")
  case False
  then show thesis using assms
    by (intro that [of "en_hot en"]) (simp_all add: apply_replicated_entry_def apply_wal_entry_def to_wal_entry_def entry_outcome_def settled_def)
next
  case True
  show thesis
  proof (cases "ev_from_json E (re_payload e)")
    case (Inl x)
    then show thesis using assms True
      by (intro that [of "en_hot en"]) (simp_all add: apply_replicated_entry_def apply_wal_entry_def to_wal_entry_def entry_outcome_def settled_def)
  next
    case (Inr y)
    obtain vid v meta where y: "y = (vid, v, meta)" by (cases y)
    let ?r = "fresh_record ms vid v meta"
    have vid: "vr_id ?r = vid" by (simp add: fresh_record_def)
    show thesis
    proof (rule that [of "or_keep hot_insert ?r (en_hot en)"])
      show "apply_replicated_entry E ms r (to_wal_entry e) en = (entry_outcome E e, set_hot (or_keep hot_insert ?r (en_hot en)) en)"
        using assms True Inr y by (simp add: apply_replicated_entry_def apply_wal_entry_def to_wal_entry_def entry_outcome_def)
      show "or_keep hot_insert ?r (en_hot en) = en_hot en" if "settled E e en"
        using that True Inr y or_keep_settled [of ?r] vid by (simp add: settled_def)
      show "settled E e (set_hot (or_keep hot_insert ?r (en_hot en)) en)" using Inr y hot_settled_insert [of ?r "en_hot en"] vid by (simp add: settled_def)
    qed (rule hot_settled_mono)
  qed
qed

lemma replicate_loop_settles:
  assumes "en_index en = None"
  shows "\<exists>h. snd (replicate_loop E clk rnd n a es en) = set_hot h en \<and> (\<forall>vid. hot_settled vid (en_hot en) \<longrightarrow> hot_settled vid h) \<and>
    (\<forall>e\<in>set (takeWhile (\<lambda>e. entry_outcome E e = Inr ()) es). settled E e (set_hot h en))"
  using assms
proof (induction es arbitrary: n a en)
  case Nil
  then show ?case by (intro exI [of _ "en_hot en"]) simp
next
  case (Cons e es)
  obtain h where h: "apply_replicated_entry E (clk n) (rnd n) (to_wal_entry e) en = (entry_outcome E e, set_hot h en)"
      "settled E e (set_hot h en)" "\<And>vid. hot_settled vid (en_hot en) \<Longrightarrow> hot_settled vid h"
    using apply_entry_no_index [OF Cons.prems, of E "clk n" "rnd n" e] by metis
  show ?case
  proof (cases "entry_outcome E e")
    case (Inl x)
    then show ?thesis using h by (intro exI [of _ h]) simp
  next
    case (Inr u)
    obtain h' where h': "snd (replicate_loop E clk rnd (n + 1) (re_txn_id e) es (set_hot h en)) = set_hot h' (set_hot h en)"
        "\<And>vid. hot_settled vid h \<Longrightarrow> hot_settled vid h'"
        "\<And>x. x \<in> set (takeWhile (\<lambda>e. entry_outcome E e = Inr ()) es) \<Longrightarrow> settled E x (set_hot h' (set_hot h en))"
      using Cons.IH [of "set_hot h en" "n + 1" "re_txn_id e"] Cons.prems by auto
    have "set_hot h' (set_hot h en) = set_hot h' en" by (simp add: set_hot_def)
    moreover have "settled E e (set_hot h' en)" using h(2) h'(2) by (simp add: settled_def)
    ultimately show ?thesis using h(1,3) h' Inr by (intro exI [of _ h']) auto
  qed
qed

lemma replicate_loop_settled:
  assumes "en_index en = None" "en_index en2 = None" "\<forall>e\<in>set (takeWhile (\<lambda>e. entry_outcome E e = Inr ()) es). settled E e en2"
  shows "replicate_loop E clk2 rnd2 m a es en2 = (fst (replicate_loop E clk rnd n a es en), en2)"
  using assms
proof (induction es arbitrary: n m a en)
  case (Cons e es)
  obtain h where h: "apply_replicated_entry E (clk n) (rnd n) (to_wal_entry e) en = (entry_outcome E e, set_hot h en)"
    using apply_entry_no_index [OF Cons.prems(1), of E "clk n" "rnd n" e] by metis
  obtain h2 where h2: "apply_replicated_entry E (clk2 m) (rnd2 m) (to_wal_entry e) en2 = (entry_outcome E e, set_hot h2 en2)"
      "settled E e en2 \<Longrightarrow> h2 = en_hot en2"
    using apply_entry_no_index [OF Cons.prems(2), of E "clk2 m" "rnd2 m" e] by metis
  show ?case
  proof (cases "entry_outcome E e")
    case (Inl x)
    then have "re_op_code e = op_code_u8 InsertVector" "ev_from_json E (re_payload e) = Inl x"
      by (auto simp: entry_outcome_def rbind_def split: if_splits sum.splits)
    then have "settled E e en2" by (simp add: settled_def)
    then show ?thesis using h h2 Inl by simp
  next
    case (Inr u)
    then have "settled E e en2" using Cons.prems(3) by simp
    then have "apply_replicated_entry E (clk2 m) (rnd2 m) (to_wal_entry e) en2 = (Inr u, en2)" using h2 Inr by simp
    then show ?thesis using h Inr Cons.IH [of "set_hot h en" "m + 1" "re_txn_id e" "n + 1"] Cons.prems by simp
  qed
qed simp

text \<open>
  C29. Redelivery is harmless. On a follower without an index, a batch of replicated entries that is delivered again, at any later time, changes
  nothing and gets the same answer, the first error included: a leader that missed the response may send the batch again.
\<close>

theorem redelivery_harmless:
  assumes "en_index en = None"
  shows "handle_replicate E clk2 rnd2 es (snd (handle_replicate E clk rnd es en)) = handle_replicate E clk rnd es en"
proof -
  obtain h where h: "snd (replicate_loop E clk rnd 0 0 es en) = set_hot h en"
      "\<forall>e\<in>set (takeWhile (\<lambda>e. entry_outcome E e = Inr ()) es). settled E e (set_hot h en)"
    using replicate_loop_settles [OF assms] by blast
  have "replicate_loop E clk2 rnd2 0 0 es (set_hot h en) = (fst (replicate_loop E clk rnd 0 0 es en), set_hot h en)"
    by (rule replicate_loop_settled) (use assms h in simp_all)
  then have "replicate_loop E clk2 rnd2 0 0 es (set_hot h en) = replicate_loop E clk rnd 0 0 es en" using h(1) by (metis prod.collapse)
  moreover have "snd (handle_replicate E clk rnd es en) = set_hot h en"
    using h(1) by (cases "replicate_loop E clk rnd 0 0 es en") (simp add: handle_replicate_def split: sum.split)
  ultimately show ?thesis by (simp add: handle_replicate_def)
qed

theorem redelivery_harmless_witness:
  "\<exists>resp. handle_replicate demo_env (\<lambda>_. 7) (\<lambda>_. Num 0) [\<lparr>re_txn_id = 4, re_shard_id = 0, re_op_code = 1, re_payload = [1]\<rparr>] (demo_engine 0) = resp \<and>
     fst resp = Inr \<lparr>rp_success = True, rp_last_acked_txn_id = 4, rp_error = None\<rparr> \<and>
     handle_replicate demo_env (\<lambda>_. 9) (\<lambda>_. Num 0) [\<lparr>re_txn_id = 4, re_shard_id = 0, re_op_code = 1, re_payload = [1]\<rparr>] (snd resp) = resp"
proof -
  let ?es = "[\<lparr>re_txn_id = 4, re_shard_id = 0, re_op_code = 1, re_payload = [1]\<rparr>]"
  have i: "en_index (demo_engine 0) = None" by (simp add: demo_engine_def)
  have "fst (handle_replicate demo_env (\<lambda>_. 7) (\<lambda>_. Num 0) ?es (demo_engine 0)) = Inr \<lparr>rp_success = True, rp_last_acked_txn_id = 4, rp_error = None\<rparr>"
    by (simp add: handle_replicate_def apply_replicated_entry_def apply_wal_entry_def to_wal_entry_def demo_env_def demo_op_def i)
  then show ?thesis using redelivery_harmless [OF i, of demo_env "\<lambda>_. 9" "\<lambda>_. Num 0" ?es "\<lambda>_. 7" "\<lambda>_. Num 0"] by blast
qed

section \<open>Scatter-gather\<close>

lemma map_filter_length: "length (List.map_filter f xs) = length (filter (\<lambda>x. f x \<noteq> None) xs)"
  by (induction xs) (auto simp: List.map_filter_def)

lemma map_filter_Nil_iff: "List.map_filter f xs = [] \<longleftrightarrow> (\<forall>x\<in>set xs. f x = None)"
  by (auto simp: List.map_filter_def filter_empty_conv)

lemma map_filter_set: "set (List.map_filter f xs) = {y. \<exists>x\<in>set xs. f x = Some y}"
  by (force simp: List.map_filter_def)

lemma map_filter_less: "length (List.map_filter f xs) < length xs \<longleftrightarrow> (\<exists>x\<in>set xs. f x = None)"
  by (induction xs) (auto simp: List.map_filter_def le_imp_less_Suc)

text \<open>
  C28. A distributed search answers with the results of the shards that answered. It fails, with \<open>AllShardsFailed\<close>, exactly when no shard answers; otherwise it
  counts the answers, is partial exactly when a shard did not answer, and, when no score is NaN, returns at most \<open>limit\<close> results with distinct ids
  in descending order of score, each from an answer and with the largest score of its id; a result is left out only when there are
  \<open>limit\<close> others, none with a smaller score. The scores of the engine are distances, so these are the farthest results.
\<close>

theorem distributed_search_spec:
  fixes C qt late view net en query ef wm budget
  defines "leaders \<equiv> assigned_leaders (cl_shards C)"
    and "answer \<equiv> shard_answer late (per_shard_timeout qt budget (length (assigned_leaders (cl_shards C)))) view net en query ef wm"
  defines "gathered \<equiv> {x. \<exists>(shard, l)\<in>set leaders. \<exists>r. answer shard = Some r \<and> x \<in> set (sh_results r)}"
  assumes "\<forall>x\<in>gathered. ss_score x \<noteq> NaN"
  shows "if \<forall>(shard, l)\<in>set leaders. answer shard = None
    then distributed_search C qt late view net en query ef wm limit budget = Inl AllShardsFailed
    else \<exists>res. distributed_search C qt late view net en query ef wm limit budget = Inr res \<and>
      dq_total_shards res = length leaders \<and> dq_responded_shards res = length (filter (\<lambda>(shard, l). answer shard \<noteq> None) leaders) \<and>
      (dq_partial res \<longleftrightarrow> (\<exists>(shard, l)\<in>set leaders. answer shard = None)) \<and>
      length (dq_results res) \<le> limit \<and> distinct (map ss_id (dq_results res)) \<and> set (dq_results res) \<subseteq> gathered \<and>
      sorted_wrt (\<lambda>a b. \<not> flt (ss_score a) (ss_score b)) (dq_results res) \<and>
      (\<forall>x\<in>set (dq_results res). \<forall>y\<in>gathered. ss_id y = ss_id x \<longrightarrow> \<not> flt (ss_score x) (ss_score y)) \<and>
      (\<forall>y\<in>gathered. ss_id y \<notin> ss_id ` set (dq_results res) \<longrightarrow> (\<forall>x\<in>set (dq_results res). \<not> flt (ss_score x) (ss_score y)) \<and> length (dq_results res) = limit)"
proof -
  let ?f = "\<lambda>(shard, l). answer shard"
  let ?rs = "List.map_filter ?f leaders"
  let ?all = "concat (map sh_results ?rs)"
  have gathered: "set ?all = gathered"
    unfolding gathered_def set_concat set_map map_filter_set case_prod_unfold by blast
  have d: "distributed_search C qt late view net en query ef wm limit budget =
      (if ?rs = [] then Inl AllShardsFailed
       else Inr \<lparr>dq_results = merge_results ?rs limit, dq_total_shards = length leaders, dq_responded_shards = length ?rs, dq_partial = (length ?rs < length leaders)\<rparr>)"
    unfolding distributed_search_def Let_def leaders_def answer_def by (auto simp: List.map_filter_def)
  have ok: "\<forall>x\<in>set ?all. ss_score x \<noteq> NaN" using assms(4) gathered by simp
  note best = desc_score.top_unique [OF ok, where key = ss_id and k = limit, folded merge_results_def, unfolded gathered]
  have lt: "\<not> flt (ss_score x) (ss_score y)" if "fle_total (ss_score y) (ss_score x)" "x \<in> gathered" "y \<in> gathered" for x y
    using that assms(4) by (simp add: fle_total_NaN)
  note in_found = subsetD [OF best(3)]
  have srt: "sorted_wrt (\<lambda>a b. \<not> flt (ss_score a) (ss_score b)) (merge_results ?rs limit)"
    by (rule sorted_wrt_mono_rel [OF lt best(4)]) (auto dest: in_found)
  have own: "\<forall>x\<in>set (merge_results ?rs limit). \<forall>y\<in>gathered. ss_id y = ss_id x \<longrightarrow> \<not> flt (ss_score x) (ss_score y)"
    using best(5) lt in_found by blast
  have out: "\<forall>y\<in>gathered. ss_id y \<notin> ss_id ` set (merge_results ?rs limit) \<longrightarrow>
      (\<forall>x\<in>set (merge_results ?rs limit). \<not> flt (ss_score x) (ss_score y)) \<and> length (merge_results ?rs limit) = limit"
    using best(6) lt in_found by blast
  have nil: "?rs = [] \<longleftrightarrow> (\<forall>(shard, l)\<in>set leaders. answer shard = None)" unfolding map_filter_Nil_iff by (simp add: case_prod_unfold)
  have part: "length ?rs < length leaders \<longleftrightarrow> (\<exists>(shard, l)\<in>set leaders. answer shard = None)" unfolding map_filter_less by (simp add: case_prod_unfold)
  have len: "length ?rs = length (filter (\<lambda>(shard, l). answer shard \<noteq> None) leaders)" unfolding map_filter_length by (simp add: case_prod_unfold)
  show ?thesis
  proof (cases "?rs = []")
    case True
    then show ?thesis unfolding d nil by simp
  next
    case False
    let ?res = "\<lparr>dq_results = merge_results ?rs limit, dq_total_shards = length leaders, dq_responded_shards = length ?rs, dq_partial = (length ?rs < length leaders)\<rparr>"
    have sel: "dq_total_shards ?res = length leaders" "dq_responded_shards ?res = length ?rs" "dq_partial ?res = (length ?rs < length leaders)"
      "dq_results ?res = merge_results ?rs limit" by simp_all
    have res: "distributed_search C qt late view net en query ef wm limit budget = Inr ?res" using False d by simp
    show ?thesis unfolding if_not_P [OF False [unfolded nil]]
      by (intro exI [of _ ?res] conjI; (simp only: sel)?; (rule refl res len part best(1-3) srt own out)?)
  qed
qed


text \<open>A cluster of two nodes: shard 0 is led by the local one, shard 1 by another.\<close>

definition two_nodes :: cluster_state where
  "two_nodes = cluster_new \<lparr>id_node_id = ''a'', id_addr = ''h1''\<rparr>
     \<lparr>reg_nodes = [(''b'', node_info_new 0 ''b'' ''h2'' [])], reg_timeout_secs = 30\<rparr>
     \<lparr>assignments = [(0, \<lparr>sa_shard_id = 0, sa_leader = ''a'', sa_replicas = []\<rparr>), (1, \<lparr>sa_shard_id = 1, sa_leader = ''b'', sa_replicas = []\<rparr>)], sm_node_id = ''a''\<rparr>"

lemma two_nodes_sel [simp]:
  "assigned_leaders (cl_shards two_nodes) = [(0, ''a''), (1, ''b'')]" "get_leader (cl_shards two_nodes) 0 = Some ''a''"
  "get_leader (cl_shards two_nodes) 1 = Some ''b''" "id_node_id (cl_identity two_nodes) = ''a''"
  "get_node (cl_registry two_nodes) ''b'' = Some (node_info_new 0 ''b'' ''h2'' [])"
  by (simp_all add: two_nodes_def cluster_new_def cl_shards_def failover_new_def assigned_leaders_def get_leader_def get_node_def)

theorem distributed_search_spec_witness:
  "\<exists>res. distributed_search two_nodes 5000 (\<lambda>_ _. False) (\<lambda>_. two_nodes) (\<lambda>_ _. Unreachable ''refused'') demo_buffered [] 4 None 10 None = Inr res \<and>
     dq_total_shards res = 2 \<and> dq_responded_shards res = 1 \<and> dq_partial res \<and> length (dq_results res) \<le> 10"
proof -
  let ?ans = "shard_answer (\<lambda>_ _. False) (per_shard_timeout 5000 None (length (assigned_leaders (cl_shards two_nodes)))) (\<lambda>_. two_nodes)
     (\<lambda>_ _. Unreachable ''refused'') demo_buffered [] 4 None"
  have a: "?ans 0 = Some \<lparr>sh_shard_id = 0, sh_node_id = ''a'', sh_results = [\<lparr>ss_id = 3, ss_score = Num 1\<rparr>]\<rparr>"
    by (simp add: shard_answer_def search_shard_def local_search_def demo_search to_scored_def)
  have b: "?ans 1 = None"
    by (simp add: shard_answer_def search_shard_def remote_search_def exchange_result_def)
  have g: "{x. \<exists>(shard, l)\<in>set (assigned_leaders (cl_shards two_nodes)). \<exists>r. ?ans shard = Some r \<and> x \<in> set (sh_results r)} = {\<lparr>ss_id = 3, ss_score = Num 1\<rparr>}"
    using a b by (simp del: One_nat_def)
  show ?thesis using distributed_search_spec [of two_nodes "\<lambda>_ _. False" 5000 None "\<lambda>_. two_nodes" "\<lambda>_ _. Unreachable ''refused''" demo_buffered "[]" 4 None 10]
    unfolding g using a b by (auto simp del: One_nat_def)
qed

section \<open>Nodes that talk to each other\<close>

text \<open>
  A failing shard leader is taken for one with no results. When every shard is led by another registered node, none is late, and
  each leader answers the search with status 500 (no storage, or its engine fails), the coordinator, which does not look at the status, reports an
  empty but complete answer: all shards responded, not partial, instead of \<open>AllShardsFailed\<close>.
\<close>

lemma failing_leaders_look_empty:
  assumes "assigned_leaders (cl_shards C) \<noteq> []"
    and "\<forall>(shard, l)\<in>set (assigned_leaders (cl_shards C)). \<not> late shard (per_shard_timeout qt budget (length (assigned_leaders (cl_shards C)))) \<and>
      (\<exists>leader n st. get_leader (cl_shards (view shard)) shard = Some leader \<and> leader \<noteq> id_node_id (cl_identity (view shard)) \<and>
         get_node (cl_registry (view shard)) leader = Some n \<and>
         net (ni_addr n) \<lparr>rq_query = query, rq_ef = ef, rq_mask = wm\<rparr> =
           Answer (snd (internal_search_handler \<lparr>rq_query = query, rq_ef = ef, rq_mask = wm\<rparr> st)) \<and>
         fst (internal_search_handler \<lparr>rq_query = query, rq_ef = ef, rq_mask = wm\<rparr> (st :: 'c api_state)) = INTERNAL_SERVER_ERROR)"
  shows "distributed_search C qt late view net en query ef wm limit budget =
    Inr \<lparr>dq_results = [], dq_total_shards = length (assigned_leaders (cl_shards C)),
      dq_responded_shards = length (assigned_leaders (cl_shards C)), dq_partial = False\<rparr>"
proof -
  let ?l = "assigned_leaders (cl_shards C)" and ?tout = "per_shard_timeout qt budget (length (assigned_leaders (cl_shards C)))"
  let ?req = "\<lparr>rq_query = query, rq_ef = ef, rq_mask = wm\<rparr>"
  have fail: "snd (internal_search_handler ?req st) = \<lparr>rr_results = []\<rparr>" if "fst (internal_search_handler ?req st) = INTERNAL_SERVER_ERROR" for st :: "'c api_state"
    using that by (auto simp: internal_search_handler_def INTERNAL_SERVER_ERROR_def OK_def split: option.splits sum.splits)
  have one: "\<exists>r. shard_answer late ?tout view net en query ef wm (fst x) = Some r \<and> sh_results r = []" if x: "x \<in> set ?l" for x
  proof -
    obtain leader n st where "\<not> late (fst x) ?tout" "get_leader (cl_shards (view (fst x))) (fst x) = Some leader"
        "leader \<noteq> id_node_id (cl_identity (view (fst x)))" "get_node (cl_registry (view (fst x))) leader = Some n"
        "net (ni_addr n) ?req = Answer (snd (internal_search_handler ?req st))"
        "fst (internal_search_handler ?req (st :: 'c api_state)) = INTERNAL_SERVER_ERROR"
      using bspec [OF assms(2) x] by (auto simp: case_prod_unfold)
    then show ?thesis using fail [of st] by (simp add: shard_answer_def search_shard_def remote_search_def exchange_result_def)
  qed
  let ?rs = "List.map_filter (\<lambda>(shard, l). shard_answer late ?tout view net en query ef wm shard) ?l"
  have len: "length ?rs = length ?l"
  proof -
    have "\<forall>x\<in>set ?l. (case x of (shard, l) \<Rightarrow> shard_answer late ?tout view net en query ef wm shard) \<noteq> None"
    proof
      fix x assume "x \<in> set ?l"
      from one [OF this] show "(case x of (shard, l) \<Rightarrow> shard_answer late ?tout view net en query ef wm shard) \<noteq> None" by (auto simp: case_prod_unfold)
    qed
    then show ?thesis unfolding map_filter_length by (simp add: filter_id_conv)
  qed
  then have ne: "?rs \<noteq> []" using assms(1) by (metis length_0_conv)
  have "sh_results r = []" if r: "r \<in> set ?rs" for r
  proof -
    obtain x where "x \<in> set ?l" "shard_answer late ?tout view net en query ef wm (fst x) = Some r"
      using r unfolding map_filter_set case_prod_unfold by blast
    then show ?thesis using one [of x] by auto
  qed
  then have c: "concat (map sh_results ?rs) = []" by simp
  have "merge_results ?rs limit = []" unfolding merge_results_def c by simp
  then show ?thesis using assms(1) ne len unfolding distributed_search_def Let_def by simp
qed

text \<open>The only shard of this cluster is led by a node whose engine has no index and no candidates.\<close>

definition remote_only :: cluster_state where
  "remote_only = cluster_new \<lparr>id_node_id = ''a'', id_addr = ''h1''\<rparr>
     \<lparr>reg_nodes = [(''b'', node_info_new 0 ''b'' ''h2'' [])], reg_timeout_secs = 30\<rparr>
     \<lparr>assignments = [(1, \<lparr>sa_shard_id = 1, sa_leader = ''b'', sa_replicas = []\<rparr>)], sm_node_id = ''a''\<rparr>"

lemma remote_only_sel [simp]:
  "assigned_leaders (cl_shards remote_only) = [(1, ''b'')]" "get_leader (cl_shards remote_only) 1 = Some ''b''"
  "id_node_id (cl_identity remote_only) = ''a''" "get_node (cl_registry remote_only) ''b'' = Some (node_info_new 0 ''b'' ''h2'' [])"
  by (simp_all add: remote_only_def cluster_new_def cl_shards_def failover_new_def assigned_leaders_def get_leader_def get_node_def)

lemma shard_for_total: "\<exists>shard. shard_for vid = Some shard"
  using jump_hash_loop [of NUM_SHARDS vid] by (auto simp: shard_for_def NUM_SHARDS_def)

text \<open>
  C30. Forwarding is transparent for requests that survive their JSON form. When node \<open>A\<close> and the leader \<open>B\<close> of a vector's shard agree that \<open>B\<close> leads it, \<open>A\<close> knows the address of \<open>B\<close>, \<open>B\<close> has its
  storage, the body that \<open>A\<close> writes decodes at \<open>B\<close> to the request itself, and the network delivers the answer of \<open>B\<close>'s internal insert handler to this body, then \<open>A\<close> gives its client
  exactly the status and the body that \<open>B\<close> would have given, and \<open>B\<close>'s engine ends in the same state.
\<close>

theorem forward_insert_transparent:
  assumes "shard_for (ir_id req) = Some shard"
    and "get_leader (cl_shards (as_cluster A)) shard = Some b" and "get_leader (cl_shards (as_cluster B)) shard = Some b"
    and "id_node_id (cl_identity (as_cluster B)) = b" and "id_node_id (cl_identity (as_cluster A)) \<noteq> b"
    and "get_node (cl_registry (as_cluster A)) b = Some n" and "as_storage B = Some en"
    and "iw_encode W req = Inr body" and "iw_decode W body = Inr received" and "received = req"
    and "internal_insert_handler E ms secs r received B = Some (answer, B')" and "net (ni_addr n) body = Answer (snd answer)"
  shows "\<exists>reply. handle_forward_insert E W ms secs r net req A = Some (reply, A) \<and>
    handle_forward_insert E W ms secs r net' req B = Some (reply, B') \<and> fst reply = fst answer \<and>
    (fst reply = CREATED \<longleftrightarrow> (\<exists>en'. local_insert E ms secs r req en = Some (Inr (), en')))"
proof -
  obtain res en' where i: "local_insert E ms secs r req en = Some (res, en')" "B' = B\<lparr>as_storage := Some en'\<rparr>"
      "answer = (case res of Inr _ \<Rightarrow> (CREATED, \<lparr>ii_success = True, ii_error = None\<rparr>) | Inl e \<Rightarrow> (BAD_REQUEST, \<lparr>ii_success = False, ii_error = Some (Display e)\<rparr>))"
    using assms(7,10,11) by (auto simp: internal_insert_handler_def)
  show ?thesis
  proof (cases res)
    case (Inl e)
    then show ?thesis using assms i
      by (simp add: handle_forward_insert_def forwarded_def insert_failed_def CREATED_def BAD_REQUEST_def)
  next
    case (Inr u)
    then show ?thesis using assms i by (simp add: handle_forward_insert_def forwarded_def)
  qed
qed

definition one_shard :: "string \<Rightarrow> u64 \<Rightarrow> cluster_state" where
  "one_shard node shard = cluster_new \<lparr>id_node_id = node, id_addr = ''h''\<rparr>
     \<lparr>reg_nodes = [(''b'', node_info_new 0 ''b'' ''h2'' [])], reg_timeout_secs = 30\<rparr>
     \<lparr>assignments = [(shard, \<lparr>sa_shard_id = shard, sa_leader = ''b'', sa_replicas = []\<rparr>)], sm_node_id = node\<rparr>"

lemma one_shard_sel [simp]:
  "get_leader (cl_shards (one_shard node shard)) shard = Some ''b''" "id_node_id (cl_identity (one_shard node shard)) = node"
  "get_node (cl_registry (one_shard node shard)) ''b'' = Some (node_info_new 0 ''b'' ''h2'' [])"
  by (simp_all add: one_shard_def cluster_new_def cl_shards_def failover_new_def get_leader_def get_node_def)

text \<open>A wire that carries one request exactly.\<close>

definition demo_request :: insert_request where
  "demo_request = \<lparr>ir_id = 1, ir_vector = [Num 2], ir_metadata = None\<rparr>"

definition demo_wire :: insert_wire where
  "demo_wire = \<lparr>iw_encode = (\<lambda>req. if req = demo_request then Inr [1] else Inl []), iw_decode = (\<lambda>body. if body = [1] then Inr demo_request else Inl [])\<rparr>"

lemma demo_insert_object: "\<exists>en. engine_insert demo_env 0 0 (Num 0) 1 [Num 2] (JObject []) Durable (demo_engine m) = Some (Inr (), en)"
proof -
  have j: "ev_to_json demo_env (1, [Num 2], JObject []) = Inr [1]" by (simp add: demo_env_def)
  obtain txn w d where "wal_stage demo_env 1 [Num 2] (JObject []) Durable (demo_engine m) = (Inr (), (demo_engine m)\<lparr>en_wal := w, en_dir := d\<rparr>)"
    by (rule wal_stage_ok [OF j]) blast
  then show ?thesis
    by (simp add: engine_insert_def demo_engine_def trackers_stage_def hot_stage_def hot_insert_def max_records_def hot_new_def hot_len_def
        set_hot_def index_stage_def buffer_stage_def)
qed

theorem forward_insert_transparent_witness:
  "\<exists>shard net A' body. handle_forward_insert demo_env demo_wire 0 0 (Num 0) net demo_request
     \<lparr>as_cluster = one_shard ''a'' shard, as_storage = None\<rparr> = Some ((CREATED, body), A')"
proof -
  let ?req = demo_request
  obtain shard where sh: "shard_for (ir_id ?req) = Some shard" using shard_for_total by blast
  let ?A = "\<lparr>as_cluster = one_shard ''a'' shard, as_storage = None\<rparr> :: unit api_state"
  let ?B = "\<lparr>as_cluster = one_shard ''b'' shard, as_storage = Some (demo_engine 0)\<rparr>"
  obtain en where "engine_insert demo_env 0 0 (Num 0) 1 [Num 2] (JObject []) Durable (demo_engine 0) = Some (Inr (), en)" using demo_insert_object by blast
  then have l: "local_insert demo_env 0 0 (Num 0) ?req (demo_engine 0) = Some (Inr (), en)" by (simp add: local_insert_def demo_request_def)
  let ?ans = "(CREATED, \<lparr>ii_success = True, ii_error = None\<rparr>)"
  have h: "internal_insert_handler demo_env 0 0 (Num 0) ?req ?B = Some (?ans, ?B\<lparr>as_storage := Some en\<rparr>)"
    using l by (simp add: internal_insert_handler_def)
  have w: "iw_encode demo_wire ?req = Inr [1]" "iw_decode demo_wire [1] = Inr ?req" by (simp_all add: demo_wire_def)
  let ?net = "\<lambda>_ _. Answer (snd ?ans)"
  obtain reply where "handle_forward_insert demo_env demo_wire 0 0 (Num 0) ?net ?req ?A = Some (reply, ?A)" "fst reply = CREATED"
    using forward_insert_transparent [OF sh, where A = ?A and B = ?B and b = "''b''" and n = "node_info_new 0 ''b'' ''h2'' []" and
      en = "demo_engine 0" and E = demo_env and ms = 0 and secs = 0 and r = "Num 0" and answer = ?ans and B' = "?B\<lparr>as_storage := Some en\<rparr>" and
      net = ?net and net' = ?net, OF _ _ _ _ _ _ w refl] h by auto
  then show ?thesis by (metis prod.collapse)
qed

text \<open>
  A node that has started knows no shard: the distributed search fails and every insert is answered with 503. Assigning shards is left to the
  caller of the shard manager, and no code of the repository outside the tests calls it.
\<close>

lemma started_node_has_no_shards:
  assumes "cluster_node_start now (cluster_node_new identity addr en qt) = Inr nd"
  shows "assigned_leaders (cl_shards (cn_cluster_state nd)) = []"
    and "shard_for (ir_id req) = Some shard \<Longrightarrow> \<exists>body. handle_forward_insert E W ms secs r net req (node_api nd) = Some ((SERVICE_UNAVAILABLE, body), node_api nd)"
  using assms by (auto simp: cluster_node_start_def cluster_node_new_def cluster_join_def rbind_eq_Inr cluster_new_def cl_shards_def failover_new_def sm_new_def
      assigned_leaders_def handle_forward_insert_def node_api_def get_leader_def)

end
