(* ===== verification/Vql_Ast.thy ===== *)
theory Vql_Ast
  imports Core_Types
begin

text \<open>
  The syntax tree of the query language, \<open>tesseract-vql/src/ast.rs\<close>, with its \<open>Display\<close> implementations. Strings are their
  UTF-8 bytes. The text of a float is the one of Rust's \<open>Display\<close>: the shortest decimal that reads back as the
  same float, without an exponent.
\<close>

section \<open>The tree\<close>

datatype comparison_op = CEq | CNeq | CLt | CGt | CLte | CGte

datatype literal = LString string | LInteger int | LFloat f64 | LBoolean bool | LNull

datatype predicate =
    Comparison string comparison_op literal
  | In string "literal list"
  | Between string literal literal
  | Like string string
  | And "predicate list"

record similarity_expr =
  se_field :: string
  se_query_text :: string
  se_vector :: "f64 list option"

record order_by =
  ob_scoring_fn :: string
  ob_args :: "string list"
  ob_descending :: bool

datatype projection = PField string | PAliased string string | PFunction string string

record bias_clause =
  bc_scoring_fn :: string
  bc_args :: "string list"

text \<open>\<open>MetadataWhere\<close>, \<open>ProjectOn\<close>, \<open>Limit\<close>, \<open>Offset\<close> and \<open>Within\<close> have one field each and are this field.\<close>

record query =
  q_find :: string
  q_similarity :: "similarity_expr option"
  q_metadata_where :: "predicate list option"
  q_project_on :: "projection list option"
  q_bias :: "bias_clause option"
  q_order_by :: "order_by option"
  q_limit :: "u64 option"
  q_offset :: "u64 option"
  q_within :: "u64 option"

section \<open>Equality\<close>

text \<open>The derived \<open>PartialEq\<close>: floats compare as floats, so a literal NaN differs from itself.\<close>

fun literal_eq :: "literal \<Rightarrow> literal \<Rightarrow> bool" where
  "literal_eq (LFloat a) (LFloat b) = feq a b"
| "literal_eq (LFloat a) b = False"
| "literal_eq a (LFloat b) = False"
| "literal_eq a b = (a = b)"

fun pred_eq :: "predicate \<Rightarrow> predicate \<Rightarrow> bool" where
  "pred_eq (Comparison f a x) (Comparison g b y) = (f = g \<and> a = b \<and> literal_eq x y)"
| "pred_eq (In f xs) (In g ys) = (f = g \<and> list_all2 literal_eq xs ys)"
| "pred_eq (Between f l h) (Between g l' h') = (f = g \<and> literal_eq l l' \<and> literal_eq h h')"
| "pred_eq (Like f p) (Like g p') = (f = g \<and> p = p')"
| "pred_eq (And ps) (And qs) = list_all2 pred_eq ps qs"
| "pred_eq p q = False"

section \<open>Display\<close>

fun show_op :: "comparison_op \<Rightarrow> string" where
  "show_op CEq = ''=''"
| "show_op CNeq = ''!=''"
| "show_op CLt = ''<''"
| "show_op CGt = ''>''"
| "show_op CLte = ''<=''"
| "show_op CGte = ''>=''"

definition show_int :: "int \<Rightarrow> string" where
  "show_int i = (if i < 0 then CHR ''-'' # show_nat (nat (- i)) else show_nat (nat i))"

text \<open>\<open>mant * 10 ^ u\<close> in decimal notation, without zeros at the end of the fraction.\<close>

fun strip_zeros :: "nat \<Rightarrow> nat \<Rightarrow> nat \<times> nat" where
  "strip_zeros mant 0 = (mant, 0)"
| "strip_zeros mant (Suc k) = (if mant mod 10 = 0 then strip_zeros (mant div 10) k else (mant, Suc k))"

definition show_scaled :: "nat \<Rightarrow> int \<Rightarrow> string" where
  "show_scaled mant u = (if 0 \<le> u then show_nat (mant * 10 ^ nat u)
     else case strip_zeros mant (nat (- u)) of (mt, k) \<Rightarrow>
       if k = 0 then show_nat mt
       else let frac = show_nat (mt mod 10 ^ k)
            in show_nat (mt div 10 ^ k) @ ''.'' @ replicate (k - length frac) (CHR ''0'') @ frac)"

definition ten_pow :: "int \<Rightarrow> rat" where
  "ten_pow e = (if 0 \<le> e then 10 ^ nat e else 1 / 10 ^ nat (- e))"

definition ilog10 :: "rat \<Rightarrow> int" where
  "ilog10 q = (if 1 \<le> q then int (length (show_nat (nat \<lfloor>q\<rfloor>))) - 1
     else case List.find (\<lambda>k. 1 \<le> q * 10 ^ k) [1..<400] of Some k \<Rightarrow> - int k | None \<Rightarrow> - 400)"

text \<open>
  The decimal with \<open>n\<close> significant digits closest to \<open>q\<close> among those that round to \<open>q\<close>, as mantissa and exponent.
\<close>

definition digits_try :: "rat \<Rightarrow> nat \<Rightarrow> (nat \<times> int) option" where
  "digits_try q n = (let u = ilog10 q - int n + 1; lo = \<lfloor>q / ten_pow u\<rfloor>; hi = \<lceil>q / ten_pow u\<rceil>;
       ok = (\<lambda>x. fround F64 (of_int x * ten_pow u) = Num q)
     in if ok lo \<and> (\<not> ok hi \<or> q / ten_pow u - of_int lo \<le> of_int hi - q / ten_pow u) then Some (nat lo, u)
        else if ok hi then Some (nat hi, u) else None)"

definition show_magnitude :: "rat \<Rightarrow> string" where
  "show_magnitude q = (case List.map_filter (digits_try q) [1..<18] of (mant, u) # _ \<Rightarrow> show_scaled mant u | [] \<Rightarrow> [])"

fun show_f64 :: "f64 \<Rightarrow> string" where
  "show_f64 NaN = ''NaN''"
| "show_f64 (Infty s) = (if s then ''-inf'' else ''inf'')"
| "show_f64 NZero = ''-0''"
| "show_f64 (Num q) = (if q = 0 then ''0'' else if q < 0 then CHR ''-'' # show_magnitude (- q) else show_magnitude q)"

definition quoted :: "string \<Rightarrow> string" where
  "quoted s = CHR 0x27 # s @ [CHR 0x27]"

definition join :: "string \<Rightarrow> string list \<Rightarrow> string" where
  "join sep xs = concat (case xs of [] \<Rightarrow> [] | y # ys \<Rightarrow> y # map (\<lambda>z. sep @ z) ys)"

fun show_literal :: "literal \<Rightarrow> string" where
  "show_literal (LString s) = quoted s"
| "show_literal (LInteger i) = show_int i"
| "show_literal (LFloat x) = show_f64 x"
| "show_literal (LBoolean b) = (if b then ''true'' else ''false'')"
| "show_literal LNull = ''null''"

fun show_predicate :: "predicate \<Rightarrow> string" where
  "show_predicate (Comparison f a v) = f @ '' '' @ show_op a @ '' '' @ show_literal v"
| "show_predicate (In f vs) = f @ '' IN ('' @ join '', '' (map show_literal vs) @ '')''"
| "show_predicate (Between f l h) = f @ '' BETWEEN '' @ show_literal l @ '' AND '' @ show_literal h"
| "show_predicate (Like f p) = f @ '' LIKE '' @ quoted p"
| "show_predicate (And ps) = join '' AND '' (map show_predicate ps)"

definition show_call :: "string \<Rightarrow> string list \<Rightarrow> string" where
  "show_call f args = f @ ''('' @ join '', '' args @ '')''"

definition show_where :: "predicate list \<Rightarrow> string" where
  "show_where ps = join '' AND '' (map show_predicate ps)"

definition show_bias :: "bias_clause \<Rightarrow> string" where
  "show_bias b = show_call (bc_scoring_fn b) (bc_args b)"

definition show_order_by :: "order_by \<Rightarrow> string" where
  "show_order_by ob = show_call (ob_scoring_fn ob) (ob_args ob) @ (if ob_descending ob then '' DESC'' else [])"

fun show_projection :: "projection \<Rightarrow> string" where
  "show_projection (PField n) = n"
| "show_projection (PAliased f a) = f @ '' AS '' @ a"
| "show_projection (PFunction n f) = n @ ''('' @ f @ '')''"

definition show_project_on :: "projection list \<Rightarrow> string" where
  "show_project_on ps = join '', '' (map show_projection ps)"

definition show_similarity :: "similarity_expr \<Rightarrow> string" where
  "show_similarity s = ''('' @ se_field s @ '', '' @ quoted (se_query_text s) @ '')''"

definition clause :: "string \<Rightarrow> ('a \<Rightarrow> string) \<Rightarrow> 'a option \<Rightarrow> string" where
  "clause kw f x = (case x of None \<Rightarrow> [] | Some v \<Rightarrow> [CHR 0x0A] @ ''  '' @ kw @ '' '' @ f v)"

definition show_query :: "query \<Rightarrow> string" where
  "show_query q = ''FIND '' @ q_find q @ (case q_similarity q of None \<Rightarrow> [] | Some s \<Rightarrow> show_similarity s) @
     clause ''WITH METADATA WHERE'' show_where (q_metadata_where q) @ clause ''PROJECT ON'' show_project_on (q_project_on q) @
     clause ''BIAS'' show_bias (q_bias q) @ clause ''ORDER BY'' show_order_by (q_order_by q) @
     clause ''LIMIT'' (\<lambda>n. show_nat (unat n)) (q_limit q) @ clause ''OFFSET'' (\<lambda>n. show_nat (unat n)) (q_offset q) @
     clause ''WITHIN'' (\<lambda>n. show_nat (unat n) @ ''ms'') (q_within q)"

end
