(* ===== verification/Vql_Planner.thy ===== *)
theory Vql_Planner
  imports Vql_Ast Topological Hnsw
begin

text \<open>
  The query planner, \<open>tesseract-vql/src/planner.rs\<close>: the plan tree with its \<open>Display\<close>, the configuration and the
  translation of a query into a plan. The natural logarithm is a parameter. The planner panics on a
  dimension of 0 (a remainder by zero), which is the error \<open>Panic\<close>.
\<close>

section \<open>Plans\<close>

datatype plan_node =
    AnnScan string nat "weight_mask option" "bias_filter list" f64
  | Merge plan_node plan_node nat
  | Filter plan_node predicate
  | Bias plan_node string "string list"
  | Sort plan_node string "string list" bool
  | Limit plan_node nat nat
  | Deadline plan_node u64 f64

text \<open>\<open>{:.1}\<close>: one decimal, ties to even on the exact value.\<close>

definition show_tenths :: "nat \<Rightarrow> string" where
  "show_tenths n = show_nat (n div 10) @ ''.'' @ show_nat (n mod 10)"

fun show_f64_1 :: "f64 \<Rightarrow> string" where
  "show_f64_1 NaN = ''NaN''"
| "show_f64_1 (Infty s) = (if s then ''-inf'' else ''inf'')"
| "show_f64_1 NZero = ''-0.0''"
| "show_f64_1 (Num q) = (if q < 0 then ''-'' else []) @ show_tenths (nat (rne (\<bar>q\<bar> * 10)))"

fun fmt_indented :: "nat \<Rightarrow> plan_node \<Rightarrow> string" where
  "fmt_indented d (AnnScan field ef wm bfs alpha) = concat (replicate d ''  '') @
     ''AnnScan { '' @ field @ '', ef: '' @ show_nat ef @ '' }'' @
     (case wm of None \<Rightarrow> [] | Some w \<Rightarrow> '' [mask: '' @ show_nat (length w) @ '' dims]'') @
     (if bfs = [] then [] else '' [bias: '' @ [CHR 0xCE, CHR 0xB1] @ ''='' @ show_f64 alpha @ '', '' @ show_nat (length bfs) @ '' filter(s)]'')"
| "fmt_indented d (Merge l r n) = concat (replicate d ''  '') @ ''Merge { limit: '' @ show_nat n @ '' }'' @ [CHR 0x0A] @
     fmt_indented (d + 1) l @ [CHR 0x0A] @ fmt_indented (d + 1) r"
| "fmt_indented d (Filter i p) = concat (replicate d ''  '') @ ''Filter { '' @ show_predicate p @ '' }'' @ [CHR 0x0A] @ fmt_indented (d + 1) i"
| "fmt_indented d (Bias i f args) = concat (replicate d ''  '') @ ''Bias { '' @ show_call f args @ '' }'' @ [CHR 0x0A] @ fmt_indented (d + 1) i"
| "fmt_indented d (Sort i f args desc) = concat (replicate d ''  '') @ ''Sort { '' @ show_call f args @ '', '' @
     (if desc then ''desc'' else ''asc'') @ '' }'' @ [CHR 0x0A] @ fmt_indented (d + 1) i"
| "fmt_indented d (Limit i n off) = concat (replicate d ''  '') @ ''Limit { '' @ show_nat n @ '', offset: '' @ show_nat off @ '' }'' @
     [CHR 0x0A] @ fmt_indented (d + 1) i"
| "fmt_indented d (Deadline i ms cost) = concat (replicate d ''  '') @ ''Deadline { '' @ show_nat (unat ms) @ ''ms, est: '' @ show_f64_1 cost @
     ''ms }'' @ [CHR 0x0A] @ fmt_indented (d + 1) i"

definition show_plan :: "plan_node \<Rightarrow> string" where
  "show_plan p = fmt_indented 0 p"

section \<open>The planner\<close>

record planner_config =
  default_ef_search :: nat
  pc_dim :: nat
  estimated_vector_count :: nat
  cost_buffer :: f64
  cost_per_distance_ms :: f64
  pc_topological_alpha :: f64
  merkle_enabled :: bool

definition default_planner_config :: planner_config where
  "default_planner_config = \<lparr>default_ef_search = 50, pc_dim = 384, estimated_vector_count = 10000, cost_buffer = flit F64 (2 / 10),
     cost_per_distance_ms = flit F64 (1 / 1000), pc_topological_alpha = flit F64 (3 / 10), merkle_enabled = False\<rparr>"

definition field_hash :: "string \<Rightarrow> u64" where
  "field_hash field = fold (\<lambda>b acc. acc * 31 + of_char b) field 0"

definition field_to_dim :: "planner_config \<Rightarrow> string \<Rightarrow> nat result" where
  "field_to_dim P field = (if pc_dim P = 0 then Inl Panic else Inr (unat (field_hash field) mod pc_dim P))"

definition op_weight :: "comparison_op \<Rightarrow> f32" where
  "op_weight c = fcast F32 (case c of CEq \<Rightarrow> Num 1 | CNeq \<Rightarrow> flit F64 (8 / 10) | _ \<Rightarrow> flit F64 (1 / 2))"

fun mask_weights :: "planner_config \<Rightarrow> predicate list \<Rightarrow> weight_mask result" where
  "mask_weights P [] = Inr []"
| "mask_weights P (Comparison field c v # ps) = rbind (field_to_dim P field) (\<lambda>d.
     rbind (mask_weights P ps) (\<lambda>ws. Inr ((d, op_weight c) # ws)))"
| "mask_weights P (p # ps) = mask_weights P ps"

definition derive_weight_mask :: "planner_config \<Rightarrow> predicate list option \<Rightarrow> weight_mask option result" where
  "derive_weight_mask P mw = (case mw of None \<Rightarrow> Inr None
     | Some ps \<Rightarrow> if ps = [] then Inr None
         else rbind (mask_weights P ps) (\<lambda>ws. Inr (if ws = [] then None else Some ws)))"

definition budget_f64 :: "u64 \<Rightarrow> f64" where
  "budget_f64 ms = fof_int F64 (uint ms)"

definition compute_ef_search :: "planner_config \<Rightarrow> u64 option \<Rightarrow> nat" where
  "compute_ef_search P budget_ms = (case budget_ms of None \<Rightarrow> default_ef_search P
     | Some budget \<Rightarrow> nat (fto_int 0 (2 ^ 64 - 1) (fclamp (Num 10) (Num 200)
         (fmul F64 (fof_int F64 (int (default_ef_search P))) (fdiv F64 (budget_f64 budget) (Num 100))))))"

definition plan_alpha :: "planner_config \<Rightarrow> u64 option \<Rightarrow> f64" where
  "plan_alpha P budget_ms = (case budget_ms of None \<Rightarrow> pc_topological_alpha P
     | Some budget \<Rightarrow> fmul F64 (pc_topological_alpha P) (fclamp (Num 0) (Num 1) (fdiv F64 (budget_f64 budget) (Num 100))))"

definition bias_range_op :: "comparison_op \<Rightarrow> range_op option" where
  "bias_range_op c = (case c of CEq \<Rightarrow> Some Eq | CGt \<Rightarrow> Some Gt | CGte \<Rightarrow> Some Gte | CLt \<Rightarrow> Some Lt | CLte \<Rightarrow> Some Lte | CNeq \<Rightarrow> None)"

fun bias_filter_of :: "predicate \<Rightarrow> bias_filter option" where
  "bias_filter_of (Comparison field CEq (LString v)) = Some \<lparr>bf_field = field, bf_kind = Category v\<rparr>"
| "bias_filter_of (Comparison field c v) = (case bias_range_op c of None \<Rightarrow> None
     | Some rop \<Rightarrow> (case v of LInteger i \<Rightarrow> Some \<lparr>bf_field = field, bf_kind = Numerical (fof_int F64 i) rop\<rparr>
         | LFloat x \<Rightarrow> Some \<lparr>bf_field = field, bf_kind = Numerical x rop\<rparr> | _ \<Rightarrow> None))"
| "bias_filter_of _ = None"

definition extract_bias_filters :: "predicate list option \<Rightarrow> bias_filter list" where
  "extract_bias_filters mw = (case mw of None \<Rightarrow> [] | Some ps \<Rightarrow> List.map_filter bias_filter_of ps)"

definition estimate_cost :: "libm \<Rightarrow> planner_config \<Rightarrow> nat \<Rightarrow> f64" where
  "estimate_cost L P ef = fmul F64 (fmul F64 (fmul F64 (fmul F64 (fmul F64 (fof_int F64 (int ef)) (fof_int F64 (int (pc_dim P)))) (Num 2))
       (lm_ln L (fof_int F64 (int (estimated_vector_count P))))) (cost_per_distance_ms P)) (fadd F64 (Num 1) (cost_buffer P))"

text \<open>The predicate a bias filter stands for, and the check that the filters cover all predicates.\<close>

fun covered_predicate :: "bias_filter \<Rightarrow> predicate" where
  "covered_predicate bf = (case bf_kind bf of Category v \<Rightarrow> Comparison (bf_field bf) CEq (LString v)
     | Numerical x rop \<Rightarrow> Comparison (bf_field bf) (case rop of Eq \<Rightarrow> CEq | Gt \<Rightarrow> CGt | Gte \<Rightarrow> CGte | Lt \<Rightarrow> CLt | Lte \<Rightarrow> CLte | Range _ _ \<Rightarrow> CEq)
         (LFloat x))"

definition topological_predicate :: "bias_filter list \<Rightarrow> predicate option" where
  "topological_predicate bfs = (case bfs of [] \<Rightarrow> None | [bf] \<Rightarrow> Some (covered_predicate bf) | _ \<Rightarrow> Some (And (map covered_predicate bfs)))"

definition already_covered :: "bias_filter list \<Rightarrow> predicate list \<Rightarrow> bool" where
  "already_covered bfs ps = (case topological_predicate bfs of None \<Rightarrow> False | Some tp \<Rightarrow> list_all (\<lambda>p. pred_eq p tp) ps)"

definition add_filter :: "bias_filter list \<Rightarrow> predicate list option \<Rightarrow> plan_node \<Rightarrow> plan_node" where
  "add_filter bfs mw node = (case mw of None \<Rightarrow> node
     | Some ps \<Rightarrow> if ps = [] \<or> already_covered bfs ps then node
         else Filter node (if length ps = 1 then hd ps else And ps))"

definition over_budget_msg :: "f64 \<Rightarrow> u64 \<Rightarrow> string" where
  "over_budget_msg adjusted ms = ''Query would exceed latency budget: estimated '' @ show_f64_1 adjusted @ ''ms (with buffer), budget '' @
     show_nat (unat ms) @ ''ms. Try reducing ef_search, limit, or removing the WITHIN clause.''"

definition query_limit :: "query \<Rightarrow> nat" where
  "query_limit q = (case q_limit q of Some n \<Rightarrow> unat n | None \<Rightarrow> 10)"

definition query_offset :: "query \<Rightarrow> nat" where
  "query_offset q = (case q_offset q of Some n \<Rightarrow> unat n | None \<Rightarrow> 0)"

text \<open>The tree from the inside out: scan, merge, filter, bias, sort; the limit and the deadline follow in \<open>plan_to_tree\<close>.\<close>

definition base_node :: "planner_config \<Rightarrow> query \<Rightarrow> similarity_expr \<Rightarrow> weight_mask option \<Rightarrow> plan_node" where
  "base_node P q sim wm =
     (let scan = AnnScan (se_field sim) (compute_ef_search P (q_within q)) wm (extract_bias_filters (q_metadata_where q)) (plan_alpha P (q_within q))
      in if merkle_enabled P then Merge scan scan (query_limit q) else scan)"

definition add_bias :: "bias_clause option \<Rightarrow> plan_node \<Rightarrow> plan_node" where
  "add_bias b node = (case b of None \<Rightarrow> node | Some c \<Rightarrow> Bias node (bc_scoring_fn c) (bc_args c))"

definition add_sort :: "order_by option \<Rightarrow> plan_node \<Rightarrow> plan_node" where
  "add_sort ob node = (case ob of None \<Rightarrow> node | Some c \<Rightarrow> Sort node (ob_scoring_fn c) (ob_args c) (ob_descending c))"

definition limited_node :: "planner_config \<Rightarrow> query \<Rightarrow> similarity_expr \<Rightarrow> weight_mask option \<Rightarrow> plan_node" where
  "limited_node P q sim wm = Limit (add_sort (q_order_by q) (add_bias (q_bias q)
     (add_filter (extract_bias_filters (q_metadata_where q)) (q_metadata_where q) (base_node P q sim wm)))) (query_limit q) (query_offset q)"

definition plan_to_tree :: "libm \<Rightarrow> planner_config \<Rightarrow> query \<Rightarrow> plan_node result" where
  "plan_to_tree L P q =
     (if q_bias q \<noteq> None \<and> q_order_by q \<noteq> None then Inl (ServiceError ''BIAS and ORDER BY are mutually exclusive'')
      else case q_similarity q of
        None \<Rightarrow> Inl (ServiceError ''FIND SIMILARITY clause is required'')
      | Some sim \<Rightarrow>
          rbind (derive_weight_mask P (q_metadata_where q)) (\<lambda>wm.
          let cost = estimate_cost L P (compute_ef_search P (q_within q))
          in case q_within q of None \<Rightarrow> Inr (limited_node P q sim wm)
             | Some ms \<Rightarrow> (let adjusted = fmul F64 cost (fadd F64 (Num 1) (cost_buffer P)) in
                 if flt (budget_f64 ms) adjusted then Inl (ServiceError (over_budget_msg adjusted ms))
                 else Inr (Deadline (limited_node P q sim wm) ms cost))))"

section \<open>What a plan looks like\<close>

lemma plan_cases:
  assumes "plan_to_tree L P q = Inr plan"
  obtains sim wm where "q_similarity q = Some sim" "derive_weight_mask P (q_metadata_where q) = Inr wm"
    "plan = limited_node P q sim wm \<or> (\<exists>ms cost. q_within q = Some ms \<and> plan = Deadline (limited_node P q sim wm) ms cost)"
proof -
  obtain sim where sim: "q_similarity q = Some sim" using assms by (cases "q_similarity q") (auto simp: plan_to_tree_def split: if_splits)
  obtain wm where wm: "derive_weight_mask P (q_metadata_where q) = Inr wm"
    using assms sim by (cases "derive_weight_mask P (q_metadata_where q)") (auto simp: plan_to_tree_def split: if_splits)
  show thesis
    by (rule that [OF sim wm]) (use assms sim wm in \<open>auto simp: plan_to_tree_def Let_def split: if_splits option.splits\<close>)
qed

lemma mask_weights_ok:
  "0 < pc_dim P \<Longrightarrow> \<exists>ws. mask_weights P ps = Inr ws \<and> (\<forall>(i, w)\<in>set ws. i < pc_dim P)"
proof (induction P ps rule: mask_weights.induct)
  case (2 P field c v ps)
  then show ?case by (auto simp: field_to_dim_def)
qed auto

lemma derive_weight_mask_ok:
  assumes "0 < pc_dim P"
  shows "\<exists>wm. derive_weight_mask P mw = Inr wm \<and> (\<forall>ws. wm = Some ws \<longrightarrow> check_mask (pc_dim P) ws = Inr ())"
proof -
  have "\<exists>wm. rbind (mask_weights P ps) (\<lambda>ws. Inr (if ws = [] then None else Some ws)) = Inr wm \<and>
      (\<forall>ws. wm = Some ws \<longrightarrow> check_mask (pc_dim P) ws = Inr ())" for ps
    using mask_weights_ok [OF assms, of ps] by (auto simp: check_mask_ok)
  then show ?thesis by (auto simp: derive_weight_mask_def split: option.split)
qed

lemma ef_search_bounds: "10 \<le> compute_ef_search P (Some ms) \<and> compute_ef_search P (Some ms) \<le> 200 \<or>
    fmul F64 (fof_int F64 (int (default_ef_search P))) (fdiv F64 (budget_f64 ms) (Num 100)) = NaN"
proof -
  define x where "x = fmul F64 (fof_int F64 (int (default_ef_search P))) (fdiv F64 (budget_f64 ms) (Num 100))"
  have "10 \<le> fto_int 0 (2 ^ 64 - 1) (fclamp (Num 10) (Num 200) x) \<and> fto_int 0 (2 ^ 64 - 1) (fclamp (Num 10) (Num 200) x) \<le> 200" if "x \<noteq> NaN"
  proof (cases x)
    case (Num r)
    then show ?thesis by (auto simp: fclamp_def flt_def trunc_rat_def le_floor_iff floor_le_iff)
  qed (use that in \<open>auto simp: fclamp_def flt_def trunc_rat_def\<close>)
  then show ?thesis unfolding compute_ef_search_def option.case x_def [symmetric] by linarith
qed

section \<open>Plans are well formed\<close>

text \<open>
  What the executor relies on: every scan has a mask whose indices are below the dimension, and every scan and merge fits its bounds on
  the search width and the number of results.
\<close>

fun plan_ok :: "nat \<Rightarrow> (nat \<Rightarrow> bool) \<Rightarrow> plan_node \<Rightarrow> bool" where
  "plan_ok d ef_ok (AnnScan f ef wm bfs alpha) = (ef_ok ef \<and> (case wm of None \<Rightarrow> True | Some w \<Rightarrow> check_mask d w = Inr ()))"
| "plan_ok d ef_ok (Merge l r n) = (plan_ok d ef_ok l \<and> plan_ok d ef_ok r)"
| "plan_ok d ef_ok (Filter i p) = plan_ok d ef_ok i"
| "plan_ok d ef_ok (Bias i f args) = plan_ok d ef_ok i"
| "plan_ok d ef_ok (Sort i f args desc) = plan_ok d ef_ok i"
| "plan_ok d ef_ok (Limit i n off) = plan_ok d ef_ok i"
| "plan_ok d ef_ok (Deadline i ms cost) = plan_ok d ef_ok i"

lemma limited_node_ok:
  assumes "derive_weight_mask P (q_metadata_where q) = Inr wm" "0 < pc_dim P" "ef_ok (compute_ef_search P (q_within q))"
  shows "plan_ok (pc_dim P) ef_ok (limited_node P q sim wm)"
proof -
  have w: "case wm of None \<Rightarrow> True | Some w \<Rightarrow> check_mask (pc_dim P) w = Inr ()"
    using derive_weight_mask_ok [OF assms(2), of "q_metadata_where q"] assms(1) by (auto split: option.split)
  then have "plan_ok (pc_dim P) ef_ok (base_node P q sim wm)" using assms(3) by (simp add: base_node_def Let_def)
  then show ?thesis by (simp add: limited_node_def add_sort_def add_bias_def add_filter_def split: option.split)
qed

text \<open>The search width is a number when the default one is a \<open>usize\<close>.\<close>

lemma ef_search_range:
  assumes "default_ef_search P < 2 ^ 64"
  shows "10 \<le> compute_ef_search P (Some ms) \<and> compute_ef_search P (Some ms) \<le> 200"
proof -
  obtain a where a: "fof_int F64 (int (default_ef_search P)) = Num a" using fof_int_finite [of "int (default_ef_search P)" F64] assms by auto
  obtain b where b: "budget_f64 ms = Num b" "\<bar>b\<bar> < pow2 65" using fof_int_finite [of "uint ms" F64] uint_bounded [of ms] by (auto simp: budget_f64_def)
  have r: "round_mag F s q \<noteq> NaN" for F s q by (simp add: round_mag_def fzero_def Let_def)
  have "\<bar>b / 100\<bar> < pow2 65" using b(2) by (simp add: abs_divide)
  then have "fdiv F64 (budget_f64 ms) (Num 100) = NZero \<or> (\<exists>v. fdiv F64 (budget_f64 ms) (Num 100) = Num v)"
    using b(1) round_mag_finite [of "\<bar>b / 100\<bar>" 65 F64] unfolding fdiv_def by (auto split del: if_split)
  then have "fmul F64 (fof_int F64 (int (default_ef_search P))) (fdiv F64 (budget_f64 ms) (Num 100)) \<noteq> NaN"
    using a r by (auto simp: fmul_def)
  then show ?thesis using ef_search_bounds [of P ms] by blast
qed


text \<open>
  C31. Planning is well typed. For a positive dimension the planner fails only with a \<open>ServiceError\<close>, never with a panic, and a plan it returns is one the
  executor accepts: every scan has a weight mask whose indices are below the dimension, and with a \<open>WITHIN\<close> clause a search width between
  10 and 200.
\<close>

theorem plan_well_typed:
  assumes "0 < pc_dim P" and "default_ef_search P < 2 ^ 64"
  shows "case plan_to_tree L P q of
      Inl e \<Rightarrow> \<exists>msg. e = ServiceError msg
    | Inr plan \<Rightarrow> plan_ok (pc_dim P) (\<lambda>ef. q_within q \<noteq> None \<longrightarrow> 10 \<le> ef \<and> ef \<le> 200) plan"
proof (cases "plan_to_tree L P q")
  case (Inl e)
  obtain wm where "derive_weight_mask P (q_metadata_where q) = Inr wm" using derive_weight_mask_ok [OF assms(1)] by blast
  then show ?thesis using Inl by (auto simp: plan_to_tree_def Let_def split: if_splits option.splits)
next
  case (Inr plan)
  show ?thesis
  proof (rule plan_cases [OF Inr])
    fix sim wm
    assume wm: "derive_weight_mask P (q_metadata_where q) = Inr wm"
      and p: "plan = limited_node P q sim wm \<or> (\<exists>ms cost. q_within q = Some ms \<and> plan = Deadline (limited_node P q sim wm) ms cost)"
    have "plan_ok (pc_dim P) (\<lambda>ef. q_within q \<noteq> None \<longrightarrow> 10 \<le> ef \<and> ef \<le> 200) (limited_node P q sim wm)"
      using ef_search_range [OF assms(2)] by (intro limited_node_ok [OF wm assms(1)]) auto
    then show ?thesis using p Inr by auto
  qed
qed

definition demo_filter_query :: query where
  "demo_filter_query = \<lparr>q_find = ''docs'', q_similarity = Some \<lparr>se_field = ''body'', se_query_text = ''x'', se_vector = None\<rparr>,
     q_metadata_where = Some [Comparison ''year'' CGt (LInteger 2000)], q_project_on = None, q_bias = None, q_order_by = None,
     q_limit = None, q_offset = None, q_within = None\<rparr>"

theorem plan_well_typed_witness:
  "\<exists>plan. plan_to_tree \<lparr>lm_ln = \<lambda>x. x, lm_log2 = \<lambda>x. x\<rparr> default_planner_config demo_filter_query = Inr plan \<and> plan_ok 384 (\<lambda>_. True) plan"
proof -
  let ?L = "\<lparr>lm_ln = \<lambda>x. x, lm_log2 = \<lambda>x. x\<rparr>"
  obtain plan where p: "plan_to_tree ?L default_planner_config demo_filter_query = Inr plan"
    by (simp add: plan_to_tree_def demo_filter_query_def derive_weight_mask_def field_to_dim_def default_planner_config_def)
  have c: "pc_dim default_planner_config = 384" "default_ef_search default_planner_config = 50" by (simp_all add: default_planner_config_def)
  have "q_within demo_filter_query = None" by (simp add: demo_filter_query_def)
  then have "plan_ok 384 (\<lambda>_. True) plan" using plan_well_typed [of default_planner_config demo_filter_query ?L] p c by simp
  then show ?thesis using p by blast
qed

end
