(* ===== verification/Vql_Executor.thy ===== *)
theory Vql_Executor
  imports Vql_Planner Engine
begin

text \<open>
  The query executor, \<open>tesseract-vql/src/executor.rs\<close>, over the storage engine and the footprints. The embedding service is a
  parameter, as are the measured times: \<open>elapsed\<close> gives the milliseconds a plan took below a deadline node, and
  \<open>timed_out\<close> whether the implicit timeout of a query struck. Execution starts from a parsed query; the timings of a
  result are left out.
\<close>

section \<open>Results and literals\<close>

record scored_result =
  sr_id :: u64
  sr_score :: f32
  sr_metadata :: "json option"

record query_result =
  qr_results :: "scored_result list"
  qr_total :: nat

record query_executor =
  qe_planner :: planner_config
  qe_libm :: libm
  qe_embed :: "string \<Rightarrow> string \<Rightarrow> f64 list result"
  qe_episodic :: episodic
  qe_elapsed :: "plan_node \<Rightarrow> f64"

definition json_value_to_literal :: "json \<Rightarrow> literal" where
  "json_value_to_literal j = (case j of
       JString s \<Rightarrow> LString s
     | JNumber (PosInt u) \<Rightarrow> if uint u < 2 ^ 63 then LInteger (uint u) else LFloat (json_number_as_f64 (PosInt u))
     | JNumber (NegInt i) \<Rightarrow> LInteger i
     | JNumber (JFloat x) \<Rightarrow> LFloat x
     | JBool b \<Rightarrow> LBoolean b
     | _ \<Rightarrow> LNull)"

definition coerce_numeric :: "literal \<Rightarrow> f64 option" where
  "coerce_numeric l = (case l of LInteger i \<Rightarrow> Some (fof_int F64 i) | LFloat x \<Rightarrow> Some x | _ \<Rightarrow> None)"

section \<open>Predicates\<close>

definition contains :: "string \<Rightarrow> string \<Rightarrow> bool" where
  "contains v m = list_ex (\<lambda>i. take (length m) (drop i v) = m) [0..<length v + 1]"

definition ends_with :: "'a list \<Rightarrow> 'a list \<Rightarrow> bool" where
  "ends_with v s = (length s \<le> length v \<and> drop (length v - length s) v = s)"

definition like_match :: "string \<Rightarrow> string \<Rightarrow> bool" where
  "like_match v p =
     (if p = ''%'' then True
      else case Option.bind (strip_prefix ''%'' p) (strip_suffix ''%'') of
        Some (c # m) \<Rightarrow> contains v (c # m)
      | _ \<Rightarrow> (case strip_prefix ''%'' p of Some s \<Rightarrow> ends_with v s
          | None \<Rightarrow> (case strip_suffix ''%'' p of Some s \<Rightarrow> starts_with v s | None \<Rightarrow> v = p)))"

definition extract_field_value :: "scored_result \<Rightarrow> string \<Rightarrow> literal option" where
  "extract_field_value r field = Option.bind (sr_metadata r) (\<lambda>m. map_option json_value_to_literal (json_get m field))"

definition compare_literals :: "comparison_op \<Rightarrow> literal \<Rightarrow> literal \<Rightarrow> bool" where
  "compare_literals c a b = (case (coerce_numeric a, coerce_numeric b) of
       (Some x, Some y) \<Rightarrow> (let ord = cmp_or_equal x y in
          case c of CEq \<Rightarrow> ord = Equal | CNeq \<Rightarrow> ord \<noteq> Equal | CLt \<Rightarrow> ord = Less | CGt \<Rightarrow> ord = Greater
          | CLte \<Rightarrow> ord \<noteq> Greater | CGte \<Rightarrow> ord \<noteq> Less)
     | _ \<Rightarrow> False)"

text \<open>
  The difference of two numbers against the machine epsilon; otherwise the \<open>Debug\<close> texts are compared, which are equal
  exactly for equal literals when one of them is not a number.
\<close>

definition values_equal :: "literal \<Rightarrow> literal \<Rightarrow> bool" where
  "values_equal a b = (case (coerce_numeric a, coerce_numeric b) of
       (Some x, Some y) \<Rightarrow> flt (fabs (fsub F64 x y)) (Num (pow2 (- 52)))
     | _ \<Rightarrow> a = b)"

fun evaluate_predicate :: "predicate \<Rightarrow> scored_result \<Rightarrow> bool" where
  "evaluate_predicate (Comparison field c v) r = (case extract_field_value r field of Some a \<Rightarrow> compare_literals c a v | None \<Rightarrow> False)"
| "evaluate_predicate (In field vs) r = (case extract_field_value r field of Some a \<Rightarrow> list_ex (values_equal a) vs | None \<Rightarrow> False)"
| "evaluate_predicate (Between field low high) r = (case extract_field_value r field of
     Some a \<Rightarrow> compare_literals CGte a low \<and> compare_literals CLte a high | None \<Rightarrow> False)"
| "evaluate_predicate (Like field p) r = (case extract_field_value r field of Some (LString s) \<Rightarrow> like_match s p | _ \<Rightarrow> False)"
| "evaluate_predicate (And ps) r = list_all (\<lambda>p. evaluate_predicate p r) ps"

section \<open>Ranking\<close>

definition apply_bias :: "scored_result list \<Rightarrow> string \<Rightarrow> string list \<Rightarrow> scored_result list result" where
  "apply_bias rs f args = (if f \<in> {''recency'', ''popularity'', ''relevance_clicks''} then Inr rs
     else Inl (ServiceError (''Unknown bias scoring function: '' @ f)))"

definition score_desc :: "scored_result list \<Rightarrow> scored_result list" where
  "score_desc rs = sort_by (\<lambda>a b. fle_total (sr_score b) (sr_score a)) rs"

definition score_asc :: "scored_result list \<Rightarrow> scored_result list" where
  "score_asc rs = sort_by (\<lambda>a b. fle_total (sr_score a) (sr_score b)) rs"

definition sort_results :: "scored_result list \<Rightarrow> string \<Rightarrow> string list \<Rightarrow> bool \<Rightarrow> scored_result list" where
  "sort_results rs f args descending = (if f = ''score'' \<or> f = ''similarity''
     then (if descending then score_desc rs else score_asc rs) else score_desc rs)"

text \<open>\<open>Vec::dedup_by\<close> on the id: an element is dropped when the last one kept has its id.\<close>

fun dedup_ids :: "scored_result list \<Rightarrow> scored_result list" where
  "dedup_ids [] = []"
| "dedup_ids [r] = [r]"
| "dedup_ids (a # b # rs) = (if sr_id b = sr_id a then dedup_ids (a # rs) else a # dedup_ids (b # rs))"

definition merge_branches :: "nat \<Rightarrow> scored_result list \<Rightarrow> scored_result list" where
  "merge_branches n rs = take n (dedup_ids (score_desc rs))"

definition cut_to_budget :: "u64 \<Rightarrow> f64 \<Rightarrow> scored_result list \<Rightarrow> scored_result list" where
  "cut_to_budget ms elapsed rs = (if flt (budget_f64 ms) elapsed
     then take (nat (fto_int 0 (2 ^ 64 - 1) (fceil (fmul F64 (fof_int F64 (int (length rs))) (fmin (fdiv F64 (budget_f64 ms) elapsed) (Num 1)))))) rs
     else rs)"

section \<open>Execution\<close>

definition personal_vector :: "query_executor \<Rightarrow> f64 list \<Rightarrow> string option \<Rightarrow> f64 list" where
  "personal_vector X qv user = (case user of None \<Rightarrow> qv
     | Some uid \<Rightarrow> (case get_footprint (qe_episodic X) uid of Some fp \<Rightarrow> apply_footprint qv fp | None \<Rightarrow> qv))"

definition ann_scan :: "query_executor \<Rightarrow> 'c engine \<Rightarrow> nat \<Rightarrow> weight_mask option \<Rightarrow> bias_filter list \<Rightarrow> f64 \<Rightarrow> f64 list \<Rightarrow> string option \<Rightarrow>
    scored_result list result" where
  "ann_scan X en ef wm bfs alpha qv user =
     (let v = personal_vector X qv user in
      rbind (if bfs \<noteq> [] then engine_bias v bfs alpha en else Inr v) (\<lambda>bv.
      rbind (engine_search bv ef wm en) (\<lambda>raw. Inr (map (\<lambda>(vid, s). \<lparr>sr_id = vid, sr_score = s, sr_metadata = None\<rparr>) raw))))"

fun execute_plan :: "query_executor \<Rightarrow> 'c engine \<Rightarrow> plan_node \<Rightarrow> f64 list \<Rightarrow> string option \<Rightarrow> scored_result list result" where
  "execute_plan X en (Merge l r n) qv user = rbind (execute_plan X en l qv user) (\<lambda>a.
     rbind (execute_plan X en r qv user) (\<lambda>b. Inr (merge_branches n (a @ b))))"
| "execute_plan X en (AnnScan f ef wm bfs alpha) qv user = ann_scan X en ef wm bfs alpha qv user"
| "execute_plan X en (Filter i p) qv user = rbind (execute_plan X en i qv user) (\<lambda>rs. Inr (filter (evaluate_predicate p) rs))"
| "execute_plan X en (Bias i f args) qv user = (if f = ''personal'' then execute_plan X en i (personal_vector X qv user) user
     else rbind (execute_plan X en i qv user) (\<lambda>rs. apply_bias rs f args))"
| "execute_plan X en (Sort i f args desc) qv user = rbind (execute_plan X en i qv user) (\<lambda>rs. Inr (sort_results rs f args desc))"
| "execute_plan X en (Limit i n off) qv user = rbind (execute_plan X en i qv user) (\<lambda>rs. Inr (take n (drop off rs)))"
| "execute_plan X en (Deadline i ms cost) qv user = rbind (execute_plan X en i qv user) (\<lambda>rs. Inr (cut_to_budget ms (qe_elapsed X i) rs))"

definition resolve_query_vector :: "query_executor \<Rightarrow> query \<Rightarrow> f64 list result" where
  "resolve_query_vector X q = (case q_similarity q of
       None \<Rightarrow> Inl (ServiceError ''No similarity clause'')
     | Some e \<Rightarrow> (case se_vector e of Some v \<Rightarrow> Inr v | None \<Rightarrow> qe_embed X (se_query_text e) ''text-embedding-3-small''))"

definition execute_query :: "query_executor \<Rightarrow> 'c engine \<Rightarrow> bool \<Rightarrow> query \<Rightarrow> string option \<Rightarrow> query_result result" where
  "execute_query X en timed_out q user =
     (if timed_out then Inl (ServiceError ''query timed out'')
      else rbind (plan_to_tree (qe_libm X) (qe_planner X) q) (\<lambda>plan.
           rbind (resolve_query_vector X q) (\<lambda>qv.
           rbind (execute_plan X en plan qv user) (\<lambda>rs. Inr \<lparr>qr_results = rs, qr_total = length rs\<rparr>))))"

section \<open>Patterns\<close>

text \<open>The usual meaning of a pattern: \<open>%\<close> stands for any text, wherever it occurs.\<close>

fun glob :: "string \<Rightarrow> string \<Rightarrow> bool" where
  "glob [] v = (v = [])"
| "glob (c # p) v = (if c = CHR ''%'' then list_ex (\<lambda>i. glob p (drop i v)) [0..<length v + 1]
     else case v of [] \<Rightarrow> False | d # w \<Rightarrow> c = d \<and> glob p w)"

lemma glob_plain: "CHR ''%'' \<notin> set p \<Longrightarrow> glob p v \<longleftrightarrow> v = p"
  by (induction p arbitrary: v) (auto split: list.split)

lemma glob_any: "glob ''%'' v"
  by (auto simp: list_ex_iff intro!: bexI [of _ "length v"])

lemma glob_prefix: "CHR ''%'' \<notin> set p \<Longrightarrow> glob (p @ ''%'') v \<longleftrightarrow> starts_with v p"
proof (induction p arbitrary: v)
  case Nil
  then show ?case using glob_any by (simp add: starts_with_def del: glob.simps)
next
  case (Cons c p)
  then show ?case by (cases v) (auto simp: starts_with_def)
qed

lemma glob_percent: "glob (CHR ''%'' # p) v \<longleftrightarrow> (\<exists>i \<le> length v. glob p (drop i v))"
  by (auto simp: list_ex_iff less_Suc_eq_le simp del: upt_Suc)

lemma ends_with_drop: "ends_with v s \<longleftrightarrow> (\<exists>i \<le> length v. drop i v = s)"
  by (auto simp: ends_with_def intro!: exI [of _ "length v - length s"])

lemma contains_drop: "contains v s \<longleftrightarrow> (\<exists>i \<le> length v. starts_with (drop i v) s)"
  by (auto simp: contains_def starts_with_def list_ex_iff less_Suc_eq_le simp del: upt_Suc)

lemma like_match_glob:
  assumes "CHR ''%'' \<notin> set (butlast (tl p))" "p \<noteq> ''%%''"
  shows "like_match v p \<longleftrightarrow> glob p v"
proof (cases p)
  case Nil
  then show ?thesis by (simp add: like_match_def strip_prefix_def strip_suffix_def)
next
  case (Cons c m)
  show ?thesis
  proof (cases m rule: rev_cases)
    case Nil
    show ?thesis
    proof (cases "c = CHR ''%''")
      case True
      then show ?thesis using glob_any Cons Nil by (simp add: like_match_def del: glob.simps)
    next
      case False
      then show ?thesis using glob_plain [of p v] Cons Nil by (simp add: like_match_def strip_prefix_def strip_suffix_def)
    qed
  next
    case (snoc k d)
    have k: "CHR ''%'' \<notin> set k" using assms(1) Cons snoc by simp
    have p: "p = c # k @ [d]" using Cons snoc by simp
    have pre: "strip_prefix ''%'' p = (if c = CHR ''%'' then Some (k @ [d]) else None)" by (simp add: p strip_prefix_def)
    have suf: "strip_suffix ''%'' (x @ [d]) = (if d = CHR ''%'' then Some x else None)" for x by (simp add: strip_suffix_def)
    have sufp: "strip_suffix ''%'' p = (if d = CHR ''%'' then Some (c # k) else None)" using suf [of "c # k"] by (simp add: p)
    consider "c = CHR ''%''" "d = CHR ''%''" | "c = CHR ''%''" "d \<noteq> CHR ''%''" | "c \<noteq> CHR ''%''" "d = CHR ''%''" | "c \<noteq> CHR ''%''" "d \<noteq> CHR ''%''" by blast
    then show ?thesis
    proof cases
      case 1
      then obtain x y where xy: "k = x # y" using assms(2) p by (cases k) auto
      have "like_match v p = contains v k" using 1 pre suf [of k] xy by (simp add: like_match_def p)
      also have "\<dots> = glob p v" unfolding p glob_percent contains_drop 1 by (simp add: glob_prefix [OF k, simplified] 1)
      finally show ?thesis .
    next
      case 2
      have "like_match v p = ends_with v (k @ [d])" using 2 pre suf by (simp add: like_match_def p)
      also have "\<dots> = glob p v" unfolding p 2 glob_percent ends_with_drop using glob_plain [of "k @ [d]"] k 2 by auto
      finally show ?thesis .
    next
      case 3
      have "like_match v p = starts_with v (c # k)" using 3 pre sufp by (simp add: like_match_def p)
      also have "\<dots> = glob p v" using glob_prefix [of "c # k" v] k 3 by (simp add: p)
      finally show ?thesis .
    next
      case 4
      have "like_match v p = (v = p)" using 4 pre sufp by (simp add: like_match_def p)
      also have "\<dots> = glob p v" using glob_plain [of p v] k 4 by (simp add: p)
      finally show ?thesis .
    qed
  qed
qed

section \<open>Bounds on the results\<close>

lemma engine_search_length: "engine_search qv ef wm en = Inr rs \<Longrightarrow> length rs \<le> ef"
  by (auto simp: engine_search_def rbind_eq_Inr rank_results_def split: if_splits)

lemma ann_scan_length: "ann_scan X en ef wm bfs alpha qv user = Inr rs \<Longrightarrow> length rs \<le> ef"
  by (auto simp: ann_scan_def Let_def rbind_eq_Inr dest!: engine_search_length)

lemma length_sort_results [simp]: "length (sort_results rs f args desc) = length rs"
  by (simp add: sort_results_def score_desc_def score_asc_def)

lemma execute_Limit: "execute_plan X en (Limit i n off) qv user = Inr rs \<Longrightarrow>
    \<exists>rs'. execute_plan X en i qv user = Inr rs' \<and> rs = take n (drop off rs')"
  by (auto simp: rbind_eq_Inr)

lemma cut_to_budget_take: "\<exists>k. cut_to_budget ms e rs = take k rs"
  by (metis cut_to_budget_def order_refl take_all)

text \<open>The wrappers between the scan and the limit never add a result.\<close>

lemma wrappers_length:
  assumes "\<And>qv rs. execute_plan X en node qv user = Inr rs \<Longrightarrow> length rs \<le> k"
  shows "execute_plan X en (add_filter bfs mw node) qv user = Inr rs \<Longrightarrow> length rs \<le> k"
    and "execute_plan X en (add_bias b node) qv user = Inr rs \<Longrightarrow> length rs \<le> k"
    and "execute_plan X en (add_sort ob node) qv user = Inr rs \<Longrightarrow> length rs \<le> k"
proof -
  show "execute_plan X en (add_filter bfs mw node) qv user = Inr rs \<Longrightarrow> length rs \<le> k"
    using assms by (auto simp: add_filter_def rbind_eq_Inr split: option.splits if_splits intro: order_trans [OF length_filter_le])
  show "execute_plan X en (add_bias b node) qv user = Inr rs \<Longrightarrow> length rs \<le> k"
    using assms by (auto simp: add_bias_def rbind_eq_Inr apply_bias_def split: option.splits if_splits)
  show "execute_plan X en (add_sort ob node) qv user = Inr rs \<Longrightarrow> length rs \<le> k"
    using assms by (auto simp: add_sort_def rbind_eq_Inr split: option.splits)
qed

lemma limited_result:
  assumes "execute_plan X en (limited_node P q sim wm) qv user = Inr rs"
  shows "length rs \<le> query_limit q \<and> (\<not> merkle_enabled P \<longrightarrow> length rs \<le> compute_ef_search P (q_within q) - query_offset q)"
proof -
  let ?node = "add_sort (q_order_by q) (add_bias (q_bias q) (add_filter (extract_bias_filters (q_metadata_where q)) (q_metadata_where q) (base_node P q sim wm)))"
  obtain rs' where r: "execute_plan X en ?node qv user = Inr rs'" "rs = take (query_limit q) (drop (query_offset q) rs')"
    using execute_Limit assms unfolding limited_node_def by blast
  have "length rs' \<le> compute_ef_search P (q_within q)" if "\<not> merkle_enabled P"
    by (rule wrappers_length(3) [OF wrappers_length(2) [OF wrappers_length(1)] r(1)])
      (use that in \<open>auto simp: base_node_def dest: ann_scan_length\<close>)
  then show ?thesis using r(2) by auto
qed

lemma execute_limited:
  assumes "execute_query X en timed_out q user = Inr res"
  obtains sim wm qv rs where "q_similarity q = Some sim" "execute_plan X en (limited_node (qe_planner X) q sim wm) qv user = Inr rs"
    "\<exists>k. qr_results res = take k rs" "qr_total res = length (qr_results res)"
proof -
  obtain plan qv rs where p: "plan_to_tree (qe_libm X) (qe_planner X) q = Inr plan" "execute_plan X en plan qv user = Inr rs"
      "res = \<lparr>qr_results = rs, qr_total = length rs\<rparr>"
    using assms by (auto simp: execute_query_def rbind_eq_Inr split: if_splits)
  obtain sim wm where s: "q_similarity q = Some sim"
    "plan = limited_node (qe_planner X) q sim wm \<or> (\<exists>ms cost. plan = Deadline (limited_node (qe_planner X) q sim wm) ms cost)"
    by (rule plan_cases [OF p(1)]) blast
  have "\<exists>rs' k. execute_plan X en (limited_node (qe_planner X) q sim wm) qv user = Inr rs' \<and> rs = take k rs'"
  proof (cases "plan = limited_node (qe_planner X) q sim wm")
    case True
    then show ?thesis using p(2) by (intro exI [of _ rs] exI [of _ "length rs"]) simp
  next
    case False
    then obtain ms cost where d: "plan = Deadline (limited_node (qe_planner X) q sim wm) ms cost" using s(2) by blast
    then obtain rs' where "execute_plan X en (limited_node (qe_planner X) q sim wm) qv user = Inr rs'"
        "rs = cut_to_budget ms (qe_elapsed X (limited_node (qe_planner X) q sim wm)) rs'"
      using p(2) by (auto simp: rbind_eq_Inr)
    then show ?thesis using cut_to_budget_take by metis
  qed
  then obtain rs' k where k: "execute_plan X en (limited_node (qe_planner X) q sim wm) qv user = Inr rs'" "rs = take k rs'" by blast
  have "\<exists>k. qr_results res = take k rs'" "qr_total res = length (qr_results res)" using p(3) k(2) by auto
  then show thesis by (rule that [OF s(1) k(1)])
qed

section \<open>Filters\<close>

text \<open>A predicate that holds without looking at the metadata: an empty conjunction.\<close>

fun vacuous :: "predicate \<Rightarrow> bool" where
  "vacuous (And ps) = list_all vacuous ps"
| "vacuous _ = False"

lemma no_metadata: "sr_metadata r = None \<Longrightarrow> evaluate_predicate p r = vacuous p"
  by (induction p) (auto simp: extract_field_value_def list_all_iff)

lemma dedup_ids_set: "set (dedup_ids rs) \<subseteq> set rs"
  by (induction rs rule: dedup_ids.induct) auto

lemma base_no_metadata:
  assumes "execute_plan X en (base_node P q sim wm) qv user = Inr rs"
  shows "\<forall>r\<in>set rs. sr_metadata r = None"
proof -
  have scan: "\<forall>r\<in>set rs. sr_metadata r = None" if "ann_scan X en ef wm bfs alpha qv user = Inr rs" for ef bfs alpha rs
    using that by (auto simp: ann_scan_def Let_def rbind_eq_Inr)
  have "set (merge_branches n xs) \<subseteq> set xs" for n xs
    using dedup_ids_set [of "score_desc xs"] by (auto simp: merge_branches_def score_desc_def dest!: in_set_takeD)
  then show ?thesis using assms scan by (fastforce simp: base_node_def Let_def rbind_eq_Inr split: if_splits)
qed

lemma filtered_empty:
  assumes "q_metadata_where q = Some ps" "\<not> list_all vacuous ps" "\<not> already_covered (extract_bias_filters (Some ps)) ps"
    and "execute_plan X en (limited_node P q sim wm) qv user = Inr rs"
  shows "rs = []"
proof -
  let ?f = "add_filter (extract_bias_filters (Some ps)) (Some ps) (base_node P q sim wm)"
  have ne: "ps \<noteq> []" using assms(2) by auto
  let ?p = "if length ps = 1 then hd ps else And ps"
  have nv: "\<not> vacuous ?p" using assms(2) ne by (cases ps) auto
  have f: "?f = Filter (base_node P q sim wm) ?p" using ne assms(3) by (simp add: add_filter_def)
  have e: "length xs \<le> 0" if "execute_plan X en ?f qv user = Inr xs" for qv xs
    using that nv base_no_metadata [of X en P q sim wm qv user] unfolding f by (auto simp: rbind_eq_Inr filter_empty_conv no_metadata)
  obtain rs' where r: "execute_plan X en (add_sort (q_order_by q) (add_bias (q_bias q) ?f)) qv user = Inr rs'" "rs = take (query_limit q) (drop (query_offset q) rs')"
    using execute_Limit assms(4) unfolding limited_node_def assms(1) by blast
  have "length rs' \<le> 0" by (rule wrappers_length(3) [OF wrappers_length(2) r(1)]) (rule e)
  then show ?thesis using r(2) by simp
qed

section \<open>The properties of the query language\<close>

text \<open>
  C34. \<open>LIKE\<close> against the usual meaning of a pattern: when \<open>%\<close> occurs at most as the first and the last character and the pattern is not
  \<open>%%\<close>, a value matches exactly when the pattern does with \<open>%\<close> standing for any text.
\<close>

theorem like_match_is_glob:
  assumes "CHR ''%'' \<notin> set (butlast (tl p))" and "p \<noteq> ''%%''"
  shows "like_match v p \<longleftrightarrow> glob p v"
  using like_match_glob assms by blast

theorem like_match_is_glob_witness: "like_match ''tesseract'' ''%sera%'' \<longleftrightarrow> glob ''%sera%'' ''tesseract''"
  by (rule like_match_is_glob) simp_all

text \<open>
  C32. An answered query has at most \<open>LIMIT\<close> results (10 without the clause) and reports their number as the total. Without the Merkle tier
  the limit is also cut by the search width: there are never more than \<open>ef_search\<close> results before the offset is skipped,
  so a larger \<open>LIMIT\<close> is not honoured.
\<close>

theorem query_result_bounds:
  assumes "execute_query X en timed_out q user = Inr res"
  shows "qr_total res = length (qr_results res) \<and> length (qr_results res) \<le> query_limit q \<and>
    (\<not> merkle_enabled (qe_planner X) \<longrightarrow> length (qr_results res) \<le> compute_ef_search (qe_planner X) (q_within q) - query_offset q)"
proof -
  obtain sim wm qv rs where r: "execute_plan X en (limited_node (qe_planner X) q sim wm) qv user = Inr rs"
      "\<exists>k. qr_results res = take k rs" "qr_total res = length (qr_results res)"
    by (rule execute_limited [OF assms])
  then have "length (qr_results res) \<le> length rs" by auto
  then show ?thesis using limited_result [OF r(1)] r(3) by (auto intro: order_trans)
qed

text \<open>An executor over no footprints and two queries on the buffered engine.\<close>

definition demo_executor :: query_executor where
  "demo_executor = \<lparr>qe_planner = default_planner_config, qe_libm = ev_libm demo_env, qe_embed = (\<lambda>_ _. Inl IoError), qe_episodic = [], qe_elapsed = (\<lambda>_. Num 0)\<rparr>"

definition demo_query :: "predicate list option \<Rightarrow> query" where
  "demo_query w = \<lparr>q_find = ''docs'', q_similarity = Some \<lparr>se_field = ''body'', se_query_text = [], se_vector = Some []\<rparr>, q_metadata_where = w,
     q_project_on = None, q_bias = None, q_order_by = None, q_limit = Some 1, q_offset = None, q_within = None\<rparr>"

lemma demo_plan:
  "plan_to_tree (ev_libm demo_env) default_planner_config (demo_query None) = Inr (limited_node default_planner_config (demo_query None) \<lparr>se_field = ''body'', se_query_text = [], se_vector = Some []\<rparr> None)"
  by (simp add: plan_to_tree_def demo_query_def derive_weight_mask_def)

lemma demo_answer: "execute_query demo_executor demo_buffered False (demo_query None) None = Inr \<lparr>qr_results = [\<lparr>sr_id = 3, sr_score = Num 1, sr_metadata = None\<rparr>], qr_total = 1\<rparr>"
proof -
  have p: "qe_planner demo_executor = default_planner_config" "qe_libm demo_executor = ev_libm demo_env" by (simp_all add: demo_executor_def)
  have e: "compute_ef_search default_planner_config None = 50" by (simp add: compute_ef_search_def default_planner_config_def)
  have "\<not> merkle_enabled default_planner_config" by (simp add: default_planner_config_def)
  then show ?thesis
    unfolding execute_query_def p demo_plan
    by (simp add: resolve_query_vector_def limited_node_def base_node_def add_sort_def add_bias_def add_filter_def ann_scan_def personal_vector_def
        extract_bias_filters_def query_limit_def query_offset_def e demo_query_def demo_search)
qed

theorem query_result_bounds_witness:
  "\<exists>res. execute_query demo_executor demo_buffered False (demo_query None) None = Inr res \<and> length (qr_results res) \<le> query_limit (demo_query None)"
  using query_result_bounds [OF demo_answer] demo_answer by blast

text \<open>
  C33. A \<open>WHERE\<close> clause empties the answer. The scan returns no metadata, so unless the planner drops the filter because the bias filters cover
  every predicate, a query whose clause has a predicate that looks at a field returns no result at all, whatever is stored.
\<close>

theorem where_clause_empties:
  assumes "execute_query X en timed_out q user = Inr res" and "q_metadata_where q = Some ps"
    and "\<not> list_all vacuous ps" and "\<not> already_covered (extract_bias_filters (Some ps)) ps"
  shows "qr_results res = [] \<and> qr_total res = 0"
proof -
  obtain sim wm qv rs where r: "execute_plan X en (limited_node (qe_planner X) q sim wm) qv user = Inr rs"
      "\<exists>k. qr_results res = take k rs" "qr_total res = length (qr_results res)"
    by (rule execute_limited [OF assms(1)])
  then show ?thesis using filtered_empty [OF assms(2-4) r(1)] by auto
qed

lemma demo_between:
  fixes ps defines "ps \<equiv> [Between ''year'' (LInteger 1) (LInteger 2)]"
  shows "q_metadata_where (demo_query (Some ps)) = Some ps" "\<not> list_all vacuous ps" "\<not> already_covered (extract_bias_filters (Some ps)) ps"
    "\<exists>res. execute_query demo_executor demo_buffered False (demo_query (Some ps)) None = Inr res"
proof -
  have p: "qe_planner demo_executor = default_planner_config" "qe_libm demo_executor = ev_libm demo_env" by (simp_all add: demo_executor_def)
  have e: "compute_ef_search default_planner_config None = 50" by (simp add: compute_ef_search_def default_planner_config_def)
  have b: "extract_bias_filters (Some ps) = []" by (simp add: extract_bias_filters_def ps_def List.map_filter_def)
  show c: "\<not> already_covered (extract_bias_filters (Some ps)) ps" by (simp add: b already_covered_def topological_predicate_def)
  have "\<not> merkle_enabled default_planner_config" by (simp add: default_planner_config_def)
  then show "\<exists>res. execute_query demo_executor demo_buffered False (demo_query (Some ps)) None = Inr res"
    unfolding execute_query_def p
    by (simp add: plan_to_tree_def resolve_query_vector_def limited_node_def base_node_def add_sort_def add_bias_def add_filter_def ann_scan_def personal_vector_def
        derive_weight_mask_def b [unfolded ps_def] already_covered_def topological_predicate_def query_limit_def query_offset_def e demo_query_def demo_search ps_def)
qed (simp_all add: demo_query_def ps_def)

theorem where_clause_empties_witness:
  "\<exists>res. execute_query demo_executor demo_buffered False (demo_query (Some [Between ''year'' (LInteger 1) (LInteger 2)])) None = Inr res \<and>
     qr_results res = []"
proof -
  obtain res where r: "execute_query demo_executor demo_buffered False (demo_query (Some [Between ''year'' (LInteger 1) (LInteger 2)])) None = Inr res"
    using demo_between(4) by blast
  show ?thesis using where_clause_empties [OF r demo_between(1-3)] r by blast
qed

end
