(* ===== verification/Vql_Grammar.thy ===== *)
theory Vql_Grammar
  imports Vql_Ast
begin

text \<open>
  The grammar of the query language, \<open>tesseract-vql/src/grammar.rs\<close>, and the entry point \<open>parser.rs\<close>.

  The grammar is written with the combinators of the crate \<open>nom\<close> on the located spans of \<open>nom_locate\<close>. Both crates are a parameter, the record
  \<open>nom\<close>: one field for every instance of a combinator that the grammar uses, those that differ only in their result type grouped in \<open>nom_at\<close>. A span is a slice
  of the input with the text before it. What the theorems rely on is \<open>nom_ok\<close>: every combinator does what its documentation says, up to the contents of a recoverable
  error. Strings are their UTF-8 bytes; the character classes and delimiters of the grammar are ASCII, so bytes and characters agree.
\<close>

section \<open>The parser library\<close>

record span =
  sp_before :: string
  fragment :: string

text \<open>\<open>nom::Err\<close> with \<open>nom::error::Error\<close>; an \<open>ErrorKind\<close> is its name.\<close>

type_synonym error_kind = string

datatype nom_err = Incomplete | NomError span error_kind | NomFailure span error_kind

type_synonym 'a iresult = "nom_err + span \<times> 'a"
type_synonym 'a parser = "span \<Rightarrow> 'a iresult"

text \<open>Rust's \<open>?\<close> operator on a parser's result.\<close>

definition pbind :: "'a iresult \<Rightarrow> (span \<Rightarrow> 'a \<Rightarrow> 'b iresult) \<Rightarrow> 'b iresult" where
  "pbind r f = (case r of Inl e \<Rightarrow> Inl e | Inr (s, x) \<Rightarrow> f s x)"

record 'a nom_at =
  alt :: "'a parser list \<Rightarrow> 'a parser"
  value_p :: "'a \<Rightarrow> span parser \<Rightarrow> 'a parser"
  map_res :: "span parser \<Rightarrow> (span \<Rightarrow> 'a option) \<Rightarrow> 'a parser"
  recognize :: "'a parser \<Rightarrow> span parser"
  opt :: "'a parser \<Rightarrow> 'a option parser"
  many0 :: "'a parser \<Rightarrow> 'a list parser"
  separated_list0 :: "(span \<times> span \<times> span) parser \<Rightarrow> 'a parser \<Rightarrow> 'a list parser"
  separated_list1 :: "(span \<times> span \<times> span) parser \<Rightarrow> 'a parser \<Rightarrow> 'a list parser"
  delimited :: "span parser \<Rightarrow> 'a parser \<Rightarrow> span parser \<Rightarrow> 'a parser"
  preceded :: "span parser \<Rightarrow> 'a parser \<Rightarrow> 'a parser"

type_synonym ('a, 'b) map_p = "'a parser \<Rightarrow> ('a \<Rightarrow> 'b) \<Rightarrow> 'b parser"

text \<open>The clauses after \<open>FIND\<close>.\<close>

datatype parsed_clause =
    MetadataWhere "predicate list"
  | ProjectOn "projection list"
  | BiasClause bias_clause
  | OrderBy order_by
  | LimitClause u64
  | OffsetClause u64
  | Within u64

record nom =
  location_line :: "span \<Rightarrow> nat"
  get_column :: "span \<Rightarrow> nat"
  debug_error :: "span \<Rightarrow> error_kind \<Rightarrow> string"
  multispace0 :: "span parser"
  alpha1 :: "span parser"
  alphanumeric1 :: "span parser"
  digit1 :: "span parser"
  tag :: "string \<Rightarrow> span parser"
  take_while :: "(char \<Rightarrow> bool) \<Rightarrow> span parser"
  at_span :: "span nom_at"
  at_word :: "(span \<times> span list) nom_at"
  at_spans :: "(span \<times> span \<times> span) nom_at"
  at_string :: "string nom_at"
  at_strings :: "string list nom_at"
  at_bool :: "bool nom_at"
  at_i64 :: "int nom_at"
  at_u64 :: "u64 nom_at"
  at_f64 :: "f64 nom_at"
  at_literal :: "literal nom_at"
  at_literals :: "literal list nom_at"
  at_op :: "comparison_op nom_at"
  at_predicate :: "predicate nom_at"
  at_source :: "(string \<times> f64 list option) nom_at"
  at_projection :: "projection nom_at"
  at_clause :: "parsed_clause nom_at"
  map_span_string :: "(span, string) map_p"
  map_string_literal :: "(string, literal) map_p"
  map_bool_literal :: "(bool, literal) map_p"
  map_f64_literal :: "(f64, literal) map_p"
  map_i64_literal :: "(int, literal) map_p"
  map_vector_source :: "(f64 list, string \<times> f64 list option) map_p"
  map_string_source :: "(string, string \<times> f64 list option) map_p"
  map_call_projection :: "(string \<times> span \<times> string \<times> span, projection) map_p"
  map_alias_projection :: "(string \<times> span \<times> string, projection) map_p"
  map_string_projection :: "(string, projection) map_p"
  map_where_clause :: "(predicate list, parsed_clause) map_p"
  map_project_clause :: "(projection list, parsed_clause) map_p"
  map_bias_clause :: "(bias_clause, parsed_clause) map_p"
  map_order_clause :: "(order_by, parsed_clause) map_p"
  map_u64_clause :: "(u64, parsed_clause) map_p"
  tuple_word :: "span parser \<Rightarrow> span list parser \<Rightarrow> (span \<times> span list) parser"
  tuple_spans :: "span parser \<Rightarrow> span parser \<Rightarrow> span parser \<Rightarrow> (span \<times> span \<times> span) parser"
  tuple_call :: "string parser \<Rightarrow> span parser \<Rightarrow> string parser \<Rightarrow> span parser \<Rightarrow> (string \<times> span \<times> string \<times> span) parser"
  tuple_alias :: "string parser \<Rightarrow> span parser \<Rightarrow> string parser \<Rightarrow> (string \<times> span \<times> string) parser"

section \<open>Numbers of the standard library\<close>

text \<open>\<open>str::parse\<close> for \<open>i64\<close>, for \<open>u64\<close>, and for \<open>f64\<close> on the texts that reach it, digits with a point between them: the nearest float.\<close>

definition parse_i64 :: "string \<Rightarrow> int option" where
  "parse_i64 s = (if s \<noteq> [] \<and> hd s = CHR ''-''
     then (if tl s \<noteq> [] \<and> list_all is_digit (tl s) \<and> digits_val (tl s) \<le> 2 ^ 63 then Some (- int (digits_val (tl s))) else None)
     else map_option int (parse_unsigned 63 s))"

definition parse_u64 :: "string \<Rightarrow> u64 option" where
  "parse_u64 s = map_option word_of_nat (parse_unsigned 64 s)"

definition parse_f64 :: "string \<Rightarrow> f64 option" where
  "parse_f64 s = (let whole = takeWhile is_digit s; frac = drop (Suc (length whole)) s in
     if whole \<noteq> [] \<and> frac \<noteq> [] \<and> list_all is_digit frac \<and> s = whole @ ''.'' @ frac
     then Some (fround F64 (of_nat (digits_val (whole @ frac)) / 10 ^ length frac)) else None)"

section \<open>Tokens and literals\<close>

definition ws :: "nom \<Rightarrow> span parser" where
  "ws N = multispace0 N"

definition identifier_p :: "nom \<Rightarrow> string parser" where
  "identifier_p N = map_span_string N (recognize (at_word N) (tuple_word N (alt (at_span N) [alpha1 N, tag N ''_''])
     (many0 (at_span N) (alt (at_span N) [alphanumeric1 N, tag N ''_''])))) fragment"

definition string_literal :: "nom \<Rightarrow> string parser" where
  "string_literal N input =
     pbind (tag N [CHR 0x27] input) (\<lambda>input _.
     pbind (take_while N (\<lambda>c. c \<noteq> CHR 0x27) input) (\<lambda>input content.
     pbind (tag N [CHR 0x27] input) (\<lambda>input _. Inr (input, fragment content))))"

definition integer_literal :: "nom \<Rightarrow> int parser" where
  "integer_literal N = map_res (at_i64 N) (recognize (at_span N) (digit1 N)) (\<lambda>s. parse_i64 (fragment s))"

definition float_literal :: "nom \<Rightarrow> f64 parser" where
  "float_literal N = map_res (at_f64 N) (recognize (at_spans N) (tuple_spans N (digit1 N) (tag N ''.'') (digit1 N))) (\<lambda>s. parse_f64 (fragment s))"

definition boolean_literal :: "nom \<Rightarrow> bool parser" where
  "boolean_literal N = alt (at_bool N) [value_p (at_bool N) True (tag N ''true''), value_p (at_bool N) False (tag N ''false'')]"

definition null_literal :: "nom \<Rightarrow> literal parser" where
  "null_literal N = value_p (at_literal N) LNull (tag N ''null'')"

definition literal_p :: "nom \<Rightarrow> literal parser" where
  "literal_p N = alt (at_literal N) [map_string_literal N (string_literal N) LString, map_bool_literal N (boolean_literal N) LBoolean,
     map_f64_literal N (float_literal N) LFloat, map_i64_literal N (integer_literal N) LInteger, null_literal N]"

definition order_by_arg :: "nom \<Rightarrow> string parser" where
  "order_by_arg N = alt (at_string N) [string_literal N, identifier_p N]"

definition u64_literal :: "nom \<Rightarrow> u64 parser" where
  "u64_literal N = map_res (at_u64 N) (recognize (at_span N) (digit1 N)) (\<lambda>s. parse_u64 (fragment s))"

text \<open>The separators \<open>,\<close> and \<open>AND\<close> with white space around them.\<close>

definition separator :: "nom \<Rightarrow> string \<Rightarrow> (span \<times> span \<times> span) parser" where
  "separator N t = tuple_spans N (ws N) (tag N t) (ws N)"

section \<open>Predicates\<close>

definition comparison_op_p :: "nom \<Rightarrow> comparison_op parser" where
  "comparison_op_p N = alt (at_op N) [value_p (at_op N) CNeq (tag N ''!=''), value_p (at_op N) CLte (tag N ''<=''), value_p (at_op N) CGte (tag N ''>=''),
     value_p (at_op N) CEq (tag N ''=''), value_p (at_op N) CLt (tag N ''<''), value_p (at_op N) CGt (tag N ''>'')]"

definition comparison_predicate :: "nom \<Rightarrow> predicate parser" where
  "comparison_predicate N input =
     pbind (identifier_p N input) (\<lambda>input field.
     pbind (ws N input) (\<lambda>input _.
     pbind (comparison_op_p N input) (\<lambda>input op.
     pbind (ws N input) (\<lambda>input _.
     pbind (literal_p N input) (\<lambda>input v. Inr (input, Comparison field op v))))))"

definition in_predicate :: "nom \<Rightarrow> predicate parser" where
  "in_predicate N input =
     pbind (identifier_p N input) (\<lambda>input field.
     pbind (ws N input) (\<lambda>input _.
     pbind (tag N ''IN'' input) (\<lambda>input _.
     pbind (ws N input) (\<lambda>input _.
     pbind (delimited (at_literals N) (tag N ''('') (separated_list0 (at_literal N) (separator N '','') (literal_p N)) (tag N '')'') input) (\<lambda>input vals.
       Inr (input, In field vals))))))"

definition between_predicate :: "nom \<Rightarrow> predicate parser" where
  "between_predicate N input =
     pbind (identifier_p N input) (\<lambda>input field.
     pbind (ws N input) (\<lambda>input _.
     pbind (tag N ''BETWEEN'' input) (\<lambda>input _.
     pbind (ws N input) (\<lambda>input _.
     pbind (literal_p N input) (\<lambda>input low.
     pbind (ws N input) (\<lambda>input _.
     pbind (tag N ''AND'' input) (\<lambda>input _.
     pbind (ws N input) (\<lambda>input _.
     pbind (literal_p N input) (\<lambda>input high. Inr (input, Between field low high))))))))))"

definition like_predicate :: "nom \<Rightarrow> predicate parser" where
  "like_predicate N input =
     pbind (identifier_p N input) (\<lambda>input field.
     pbind (ws N input) (\<lambda>input _.
     pbind (tag N ''LIKE'' input) (\<lambda>input _.
     pbind (ws N input) (\<lambda>input _.
     pbind (string_literal N input) (\<lambda>input pattern. Inr (input, Like field pattern))))))"

definition and_expression :: "nom \<Rightarrow> predicate parser" where
  "and_expression N input =
     pbind (separated_list1 (at_predicate N) (separator N ''AND'')
       (alt (at_predicate N) [in_predicate N, between_predicate N, like_predicate N, comparison_predicate N]) input) (\<lambda>input predicates.
     if length predicates = 1 then Inr (input, hd predicates) else Inr (input, And predicates))"

section \<open>Clauses\<close>

definition vector_literal :: "nom \<Rightarrow> f64 list parser" where
  "vector_literal N input =
     pbind (tag N ''VECTOR'' input) (\<lambda>input _.
     pbind (ws N input) (\<lambda>input _.
     pbind (tag N ''('' input) (\<lambda>input _.
     pbind (ws N input) (\<lambda>input _.
     pbind (separated_list0 (at_f64 N) (separator N '','') (float_literal N) input) (\<lambda>input vals.
     pbind (ws N input) (\<lambda>input _.
     pbind (tag N '')'' input) (\<lambda>input _. Inr (input, vals))))))))"

definition find_expr :: "nom \<Rightarrow> (string \<times> similarity_expr) parser" where
  "find_expr N input =
     pbind (alt (at_string N) [value_p (at_string N) ''SIMILARITY'' (tag N ''SIMILARITY''), value_p (at_string N) ''SEMANTIC'' (tag N ''SEMANTIC'')] input) (\<lambda>input find_type.
     pbind (tag N ''('' input) (\<lambda>input _.
     pbind (ws N input) (\<lambda>input _.
     pbind (identifier_p N input) (\<lambda>input field.
     pbind (ws N input) (\<lambda>input _.
     pbind (tag N '','' input) (\<lambda>input _.
     pbind (ws N input) (\<lambda>input _.
     pbind (alt (at_source N) [map_vector_source N (vector_literal N) (\<lambda>v. ([], Some v)), map_string_source N (string_literal N) (\<lambda>s. (s, None))] input) (\<lambda>input (query_text, vector).
     pbind (ws N input) (\<lambda>input _.
     pbind (tag N '')'' input) (\<lambda>input _.
       Inr (input, (find_type, \<lparr>se_field = field, se_query_text = query_text, se_vector = vector\<rparr>))))))))))))"

definition metadata_where_clause :: "nom \<Rightarrow> predicate list parser" where
  "metadata_where_clause N input =
     pbind (tag N ''WITH'' input) (\<lambda>input _.
     pbind (ws N input) (\<lambda>input _.
     pbind (tag N ''METADATA'' input) (\<lambda>input _.
     pbind (ws N input) (\<lambda>input _.
     pbind (tag N ''WHERE'' input) (\<lambda>input _.
     pbind (ws N input) (\<lambda>input _.
     pbind (and_expression N input) (\<lambda>input predicate. Inr (input, [predicate]))))))))"

definition order_by_clause :: "nom \<Rightarrow> order_by parser" where
  "order_by_clause N input =
     pbind (tag N ''ORDER'' input) (\<lambda>input _.
     pbind (ws N input) (\<lambda>input _.
     pbind (tag N ''BY'' input) (\<lambda>input _.
     pbind (ws N input) (\<lambda>input _.
     pbind (identifier_p N input) (\<lambda>input scoring_fn.
     pbind (delimited (at_strings N) (tag N ''('') (separated_list0 (at_string N) (separator N '','') (order_by_arg N)) (tag N '')'') input) (\<lambda>input args.
     pbind (opt (at_bool N) (preceded (at_bool N) (ws N) (alt (at_bool N)
         [value_p (at_bool N) True (tag N ''DESC''), value_p (at_bool N) False (tag N ''ASC'')])) input) (\<lambda>input direction.
       Inr (input, \<lparr>ob_scoring_fn = scoring_fn, ob_args = args, ob_descending = (case direction of Some d \<Rightarrow> d | None \<Rightarrow> False)\<rparr>))))))))"

definition limit_clause :: "nom \<Rightarrow> u64 parser" where
  "limit_clause N input =
     pbind (tag N ''LIMIT'' input) (\<lambda>input _. pbind (ws N input) (\<lambda>input _. pbind (u64_literal N input) (\<lambda>input count. Inr (input, count))))"

definition offset_clause :: "nom \<Rightarrow> u64 parser" where
  "offset_clause N input =
     pbind (tag N ''OFFSET'' input) (\<lambda>input _. pbind (ws N input) (\<lambda>input _. pbind (u64_literal N input) (\<lambda>input count. Inr (input, count))))"

definition within_clause :: "nom \<Rightarrow> u64 parser" where
  "within_clause N input =
     pbind (tag N ''WITHIN'' input) (\<lambda>input _. pbind (ws N input) (\<lambda>input _. pbind (u64_literal N input) (\<lambda>input millis.
     pbind (tag N ''ms'' input) (\<lambda>input _. Inr (input, millis)))))"

definition en_clause :: "nom \<Rightarrow> u64 parser" where
  "en_clause N input =
     pbind (tag N ''EN'' input) (\<lambda>input _. pbind (ws N input) (\<lambda>input _. pbind (u64_literal N input) (\<lambda>input millis.
     pbind (tag N ''ms'' input) (\<lambda>input _. Inr (input, millis)))))"

definition projection_p :: "nom \<Rightarrow> projection parser" where
  "projection_p N = preceded (at_projection N) (ws N) (alt (at_projection N)
     [map_call_projection N (tuple_call N (identifier_p N) (preceded (at_span N) (ws N) (tag N ''(''))
        (preceded (at_string N) (ws N) (identifier_p N)) (preceded (at_span N) (ws N) (tag N '')''))) (\<lambda>(name, _, field, _). PFunction name field),
      map_alias_projection N (tuple_alias N (identifier_p N) (preceded (at_span N) (ws N) (tag N ''AS''))
        (preceded (at_string N) (ws N) (identifier_p N))) (\<lambda>(field, _, alias). PAliased field alias),
      map_string_projection N (identifier_p N) PField])"

definition project_on_clause :: "nom \<Rightarrow> projection list parser" where
  "project_on_clause N input =
     pbind (tag N ''PROJECT'' input) (\<lambda>input _.
     pbind (ws N input) (\<lambda>input _.
     pbind (tag N ''ON'' input) (\<lambda>input _.
     pbind (ws N input) (\<lambda>input _.
     pbind (separated_list1 (at_projection N) (separator N '','') (projection_p N) input) (\<lambda>input projections. Inr (input, projections))))))"

definition bias_clause_p :: "nom \<Rightarrow> bias_clause parser" where
  "bias_clause_p N input =
     pbind (tag N ''BIAS'' input) (\<lambda>input _.
     pbind (ws N input) (\<lambda>input _.
     pbind (identifier_p N input) (\<lambda>input scoring_fn.
     pbind (delimited (at_strings N) (tag N ''('') (separated_list0 (at_string N) (separator N '','') (identifier_p N)) (tag N '')'') input) (\<lambda>input args.
       Inr (input, \<lparr>bc_scoring_fn = scoring_fn, bc_args = args\<rparr>)))))"

definition parse_any_clause :: "nom \<Rightarrow> parsed_clause parser" where
  "parse_any_clause N = alt (at_clause N)
     [map_where_clause N (metadata_where_clause N) MetadataWhere, map_project_clause N (project_on_clause N) ProjectOn,
      map_bias_clause N (bias_clause_p N) BiasClause, map_order_clause N (order_by_clause N) OrderBy, map_u64_clause N (limit_clause N) LimitClause,
      map_u64_clause N (offset_clause N) OffsetClause, map_u64_clause N (within_clause N) Within, map_u64_clause N (en_clause N) Within]"

section \<open>The query\<close>

text \<open>
  The optional variables of \<open>query\<close> are the fields of the query under construction: whether the variable of a clause is set already, and setting it.
\<close>

fun clause_is_some :: "parsed_clause \<Rightarrow> query \<Rightarrow> bool" where
  "clause_is_some (MetadataWhere v) q = (q_metadata_where q \<noteq> None)"
| "clause_is_some (ProjectOn v) q = (q_project_on q \<noteq> None)"
| "clause_is_some (BiasClause v) q = (q_bias q \<noteq> None)"
| "clause_is_some (OrderBy v) q = (q_order_by q \<noteq> None)"
| "clause_is_some (LimitClause v) q = (q_limit q \<noteq> None)"
| "clause_is_some (OffsetClause v) q = (q_offset q \<noteq> None)"
| "clause_is_some (Within v) q = (q_within q \<noteq> None)"

fun set_clause :: "parsed_clause \<Rightarrow> query \<Rightarrow> query" where
  "set_clause (MetadataWhere v) q = q\<lparr>q_metadata_where := Some v\<rparr>"
| "set_clause (ProjectOn v) q = q\<lparr>q_project_on := Some v\<rparr>"
| "set_clause (BiasClause v) q = q\<lparr>q_bias := Some v\<rparr>"
| "set_clause (OrderBy v) q = q\<lparr>q_order_by := Some v\<rparr>"
| "set_clause (LimitClause v) q = q\<lparr>q_limit := Some v\<rparr>"
| "set_clause (OffsetClause v) q = q\<lparr>q_offset := Some v\<rparr>"
| "set_clause (Within v) q = q\<lparr>q_within := Some v\<rparr>"

text \<open>The loop over the clauses; it ends only if every clause consumes input.\<close>

partial_function (option) clause_loop :: "nom \<Rightarrow> span \<Rightarrow> query \<Rightarrow> query iresult option" where
  "clause_loop N remaining q = (case ws N remaining of
       Inl e \<Rightarrow> Some (Inl e)
     | Inr (rest, _) \<Rightarrow>
         if fragment rest = [] then Some (Inr (remaining, q))
         else (case parse_any_clause N rest of
             Inr (rest2, c) \<Rightarrow> if clause_is_some c q then Some (Inl (NomError rest ''Alt'')) else clause_loop N rest2 (set_clause c q)
           | Inl (NomError _ _) \<Rightarrow> Some (Inr (remaining, q))
           | Inl e \<Rightarrow> Some (Inl e)))"

definition no_clauses :: "string \<times> similarity_expr \<Rightarrow> query" where
  "no_clauses = (\<lambda>(find_type, similarity). \<lparr>q_find = find_type, q_similarity = Some similarity, q_metadata_where = None, q_project_on = None, q_bias = None,
     q_order_by = None, q_limit = None, q_offset = None, q_within = None\<rparr>)"

definition query_p :: "nom \<Rightarrow> span \<Rightarrow> query iresult option" where
  "query_p N input = (case pbind (tag N ''FIND'' input) (\<lambda>input _. pbind (ws N input) (\<lambda>input _. find_expr N input)) of
       Inl e \<Rightarrow> Some (Inl e)
     | Inr (input, found) \<Rightarrow> map_option (\<lambda>r.
         pbind r (\<lambda>remaining q.
         pbind (ws N remaining) (\<lambda>remaining _.
           if fragment remaining \<noteq> [] then Inl (NomError remaining ''Eof'')
           else if q_offset q \<noteq> None \<and> q_limit q = None then Inl (NomError remaining ''Fail'')
           else Inr (remaining, q)))) (clause_loop N input (no_clauses found)))"

definition parse :: "nom \<Rightarrow> string \<Rightarrow> query result option" where
  "parse N input = map_option (\<lambda>r. case r of
       Inr (_, q) \<Rightarrow> Inr q
     | Inl (NomError s k) \<Rightarrow> Inl (ParseError (location_line N s) (get_column N s) (debug_error N s k))
     | Inl (NomFailure s k) \<Rightarrow> Inl (ParseError (location_line N s) (get_column N s) (debug_error N s k))
     | Inl Incomplete \<Rightarrow> Inl (ParseError 0 0 ''Incomplete input'')) (query_p N \<lparr>sp_before = [], fragment = input\<rparr>)"

section \<open>What the parser library is documented to do\<close>

text \<open>
  The documentation of the combinators as functions. They are not part of the model, which takes the library as the parameter \<open>nom\<close>; they state the
  hypothesis \<open>nom_ok\<close>, and as an instance of the parameter they show that it can hold. The text of a recoverable error is left open: \<open>agree\<close> compares results
  up to it.
\<close>

fun soft :: "'a iresult \<Rightarrow> bool" where
  "soft (Inl (NomError s k)) = True"
| "soft _ = False"

definition agree :: "'a iresult \<Rightarrow> 'a iresult \<Rightarrow> bool" where
  "agree r r' \<longleftrightarrow> r = r' \<or> soft r \<and> soft r'"

definition fail_at :: "span \<Rightarrow> 'a iresult" where
  "fail_at s = Inl (NomError s [])"

text \<open>What is left of a span after \<open>n\<close> bytes, and taking them.\<close>

definition advance :: "nat \<Rightarrow> span \<Rightarrow> span" where
  "advance n s = \<lparr>sp_before = sp_before s @ take n (fragment s), fragment = drop n (fragment s)\<rparr>"

definition take_p :: "nat \<Rightarrow> span parser" where
  "take_p n s = Inr (advance n s, s\<lparr>fragment := take n (fragment s)\<rparr>)"

definition doc_tag :: "string \<Rightarrow> span parser" where
  "doc_tag t s = (if starts_with (fragment s) t then take_p (length t) s else fail_at s)"

definition doc_while :: "(char \<Rightarrow> bool) \<Rightarrow> span parser" where
  "doc_while P s = take_p (length (takeWhile P (fragment s))) s"

definition doc_while1 :: "(char \<Rightarrow> bool) \<Rightarrow> span parser" where
  "doc_while1 P s = (if takeWhile P (fragment s) = [] then fail_at s else doc_while P s)"

fun doc_alt :: "'a parser list \<Rightarrow> 'a parser" where
  "doc_alt [] s = fail_at s"
| "doc_alt (p # ps) s = (if soft (p s) then doc_alt ps s else p s)"

definition doc_map :: "('a, 'b) map_p" where
  "doc_map p f s = pbind (p s) (\<lambda>t x. Inr (t, f x))"

definition doc_map_res :: "span parser \<Rightarrow> (span \<Rightarrow> 'a option) \<Rightarrow> 'a parser" where
  "doc_map_res p f s = pbind (p s) (\<lambda>t x. case f x of Some y \<Rightarrow> Inr (t, y) | None \<Rightarrow> fail_at s)"

definition doc_recognize :: "'a parser \<Rightarrow> span parser" where
  "doc_recognize p s = pbind (p s) (\<lambda>t _. Inr (t, s\<lparr>fragment := take (length (fragment s) - length (fragment t)) (fragment s)\<rparr>))"

definition doc_opt :: "'a parser \<Rightarrow> 'a option parser" where
  "doc_opt p s = (if soft (p s) then Inr (s, None) else pbind (p s) (\<lambda>t x. Inr (t, Some x)))"

definition cons_p :: "'a \<Rightarrow> 'a list iresult \<Rightarrow> 'a list iresult" where
  "cons_p x r = pbind r (\<lambda>t xs. Inr (t, x # xs))"

text \<open>The repetitions: as long as the parser succeeds, and an error when it succeeds without consuming anything. The bound is the length of the input and more.\<close>

fun many_upto :: "nat \<Rightarrow> 'a parser \<Rightarrow> 'a list parser" where
  "many_upto 0 p s = Inr (s, [])"
| "many_upto (Suc n) p s = (if soft (p s) then Inr (s, []) else pbind (p s) (\<lambda>t x.
     if length (fragment t) < length (fragment s) then cons_p x (many_upto n p t) else fail_at s))"

definition doc_many0 :: "'a parser \<Rightarrow> 'a list parser" where
  "doc_many0 p s = many_upto (Suc (length (fragment s))) p s"

definition doc_preceded :: "'a parser \<Rightarrow> 'b parser \<Rightarrow> 'b parser" where
  "doc_preceded p q s = pbind (p s) (\<lambda>t _. q t)"

definition doc_separated_list1 :: "'s parser \<Rightarrow> 'a parser \<Rightarrow> 'a list parser" where
  "doc_separated_list1 sep p s = pbind (p s) (\<lambda>t x. cons_p x (doc_many0 (doc_preceded sep p) t))"

definition doc_separated_list0 :: "'s parser \<Rightarrow> 'a parser \<Rightarrow> 'a list parser" where
  "doc_separated_list0 sep p s = (if soft (p s) then Inr (s, []) else doc_separated_list1 sep p s)"

definition doc_delimited :: "'a parser \<Rightarrow> 'b parser \<Rightarrow> 'c parser \<Rightarrow> 'b parser" where
  "doc_delimited p q r s = pbind (p s) (\<lambda>t _. pbind (q t) (\<lambda>u x. pbind (r u) (\<lambda>v _. Inr (v, x))))"

definition doc_tuple2 :: "'a parser \<Rightarrow> 'b parser \<Rightarrow> ('a \<times> 'b) parser" where
  "doc_tuple2 p q s = pbind (p s) (\<lambda>t x. pbind (q t) (\<lambda>u y. Inr (u, (x, y))))"

definition doc_tuple3 :: "'a parser \<Rightarrow> 'b parser \<Rightarrow> 'c parser \<Rightarrow> ('a \<times> 'b \<times> 'c) parser" where
  "doc_tuple3 p q r = doc_tuple2 p (doc_tuple2 q r)"

definition doc_tuple4 :: "'a parser \<Rightarrow> 'b parser \<Rightarrow> 'c parser \<Rightarrow> 'd parser \<Rightarrow> ('a \<times> 'b \<times> 'c \<times> 'd) parser" where
  "doc_tuple4 p q r w = doc_tuple2 p (doc_tuple3 q r w)"

text \<open>A parser leaves a rest of its input; one that consumes leaves less.\<close>

definition leaves :: "span \<Rightarrow> span \<Rightarrow> bool" where
  "leaves s t \<longleftrightarrow> (\<exists>n\<le>length (fragment s). t = advance n s)"

definition advancing :: "'a parser \<Rightarrow> bool" where
  "advancing p \<longleftrightarrow> (\<forall>s t x. p s = Inr (t, x) \<longrightarrow> leaves s t)"

definition consuming :: "'a parser \<Rightarrow> bool" where
  "consuming p \<longleftrightarrow> (\<forall>s t x. p s = Inr (t, x) \<longrightarrow> leaves s t \<and> length (fragment t) < length (fragment s))"

definition is_space :: "char \<Rightarrow> bool" where
  "is_space c \<longleftrightarrow> c \<in> {CHR '' '', CHR 0x09, CHR 0x0A, CHR 0x0D}"

definition is_alpha :: "char \<Rightarrow> bool" where
  "is_alpha c \<longleftrightarrow> (let n = of_char c :: nat in 65 \<le> n \<and> n \<le> 90 \<or> 97 \<le> n \<and> n \<le> 122)"

definition is_alnum :: "char \<Rightarrow> bool" where
  "is_alnum c \<longleftrightarrow> is_alpha c \<or> is_digit c"

definition at_ok :: "'a nom_at \<Rightarrow> bool" where
  "at_ok A \<longleftrightarrow>
     (\<forall>ps s. ps \<noteq> [] \<longrightarrow> agree (alt A ps s) (doc_alt ps s)) \<and>
     (\<forall>v p s. agree (value_p A v p s) (doc_map p (\<lambda>_. v) s)) \<and>
     (\<forall>p f s. agree (map_res A p f s) (doc_map_res p f s)) \<and>
     (\<forall>p s. advancing p \<longrightarrow> agree (recognize A p s) (doc_recognize p s)) \<and>
     (\<forall>p s. agree (opt A p s) (doc_opt p s)) \<and>
     (\<forall>p s. advancing p \<longrightarrow> agree (many0 A p s) (doc_many0 p s)) \<and>
     (\<forall>sep p s. consuming sep \<and> advancing p \<longrightarrow> agree (separated_list0 A sep p s) (doc_separated_list0 sep p s)) \<and>
     (\<forall>sep p s. consuming sep \<and> advancing p \<longrightarrow> agree (separated_list1 A sep p s) (doc_separated_list1 sep p s)) \<and>
     (\<forall>p q r s. agree (delimited A p q r s) (doc_delimited p q r s)) \<and>
     (\<forall>p q s. agree (preceded A p q s) (doc_preceded p q s))"

definition map_ok :: "('a, 'b) map_p \<Rightarrow> bool" where
  "map_ok M \<longleftrightarrow> (\<forall>p f s. agree (M p f s) (doc_map p f s))"

definition nom_ok :: "nom \<Rightarrow> bool" where
  "nom_ok N \<longleftrightarrow>
     (\<forall>s. agree (multispace0 N s) (doc_while is_space s)) \<and> (\<forall>s. agree (alpha1 N s) (doc_while1 is_alpha s)) \<and>
     (\<forall>s. agree (alphanumeric1 N s) (doc_while1 is_alnum s)) \<and> (\<forall>s. agree (digit1 N s) (doc_while1 is_digit s)) \<and>
     (\<forall>t s. agree (tag N t s) (doc_tag t s)) \<and> (\<forall>P s. agree (take_while N P s) (doc_while P s)) \<and>
     at_ok (at_span N) \<and> at_ok (at_word N) \<and> at_ok (at_spans N) \<and> at_ok (at_string N) \<and> at_ok (at_strings N) \<and> at_ok (at_bool N) \<and>
     at_ok (at_i64 N) \<and> at_ok (at_u64 N) \<and> at_ok (at_f64 N) \<and> at_ok (at_literal N) \<and> at_ok (at_literals N) \<and> at_ok (at_op N) \<and>
     at_ok (at_predicate N) \<and> at_ok (at_source N) \<and> at_ok (at_projection N) \<and> at_ok (at_clause N) \<and>
     map_ok (map_span_string N) \<and> map_ok (map_string_literal N) \<and> map_ok (map_bool_literal N) \<and> map_ok (map_f64_literal N) \<and> map_ok (map_i64_literal N) \<and>
     map_ok (map_vector_source N) \<and> map_ok (map_string_source N) \<and> map_ok (map_call_projection N) \<and> map_ok (map_alias_projection N) \<and>
     map_ok (map_string_projection N) \<and> map_ok (map_where_clause N) \<and> map_ok (map_project_clause N) \<and> map_ok (map_bias_clause N) \<and>
     map_ok (map_order_clause N) \<and> map_ok (map_u64_clause N) \<and>
     (\<forall>p q s. agree (tuple_word N p q s) (doc_tuple2 p q s)) \<and> (\<forall>p q r s. agree (tuple_spans N p q r s) (doc_tuple3 p q r s)) \<and>
     (\<forall>p q r w s. agree (tuple_call N p q r w s) (doc_tuple4 p q r w s)) \<and> (\<forall>p q r s. agree (tuple_alias N p q r s) (doc_tuple3 p q r s))"

definition doc_at :: "'a nom_at" where
  "doc_at = \<lparr>alt = doc_alt, value_p = (\<lambda>v p. doc_map p (\<lambda>_. v)), map_res = doc_map_res, recognize = doc_recognize, opt = doc_opt, many0 = doc_many0,
     separated_list0 = doc_separated_list0, separated_list1 = doc_separated_list1, delimited = doc_delimited, preceded = doc_preceded\<rparr>"

text \<open>The instance that does what is documented; lines and columns count from one.\<close>

definition doc_nom :: nom where
  "doc_nom = \<lparr>location_line = (\<lambda>s. Suc (length (filter (\<lambda>c. c = CHR 0x0A) (sp_before s)))),
     get_column = (\<lambda>s. Suc (length (takeWhile (\<lambda>c. c \<noteq> CHR 0x0A) (rev (sp_before s))))), debug_error = (\<lambda>s k. k @ '' at '' @ fragment s),
     multispace0 = doc_while is_space, alpha1 = doc_while1 is_alpha, alphanumeric1 = doc_while1 is_alnum, digit1 = doc_while1 is_digit, tag = doc_tag,
     take_while = doc_while, at_span = doc_at, at_word = doc_at, at_spans = doc_at, at_string = doc_at, at_strings = doc_at, at_bool = doc_at, at_i64 = doc_at,
     at_u64 = doc_at, at_f64 = doc_at, at_literal = doc_at, at_literals = doc_at, at_op = doc_at, at_predicate = doc_at, at_source = doc_at, at_projection = doc_at,
     at_clause = doc_at, map_span_string = doc_map, map_string_literal = doc_map, map_bool_literal = doc_map, map_f64_literal = doc_map, map_i64_literal = doc_map,
     map_vector_source = doc_map, map_string_source = doc_map, map_call_projection = doc_map, map_alias_projection = doc_map, map_string_projection = doc_map,
     map_where_clause = doc_map, map_project_clause = doc_map, map_bias_clause = doc_map, map_order_clause = doc_map, map_u64_clause = doc_map,
     tuple_word = doc_tuple2, tuple_spans = doc_tuple3, tuple_call = doc_tuple4, tuple_alias = doc_tuple3\<rparr>"

lemma agree_refl [simp]: "agree r r"
  by (simp add: agree_def)

lemma doc_nom_ok: "nom_ok doc_nom"
  by (simp add: nom_ok_def doc_nom_def at_ok_def map_ok_def doc_at_def)

end
