(* ===== verification/Vql_Rules.thy ===== *)
theory Vql_Rules
  imports Vql_Grammar
begin

text \<open>
  The rules of the grammar over any parser library that keeps to its documentation. Agreement with the documented library is a congruence, so every rule
  of the grammar agrees with itself over \<open>doc_nom\<close> (\<open>sim_rules\<close>); over \<open>doc_nom\<close> every rule fails softly or leaves a rest of its input and gives a well-formed tree
  (\<open>token_gives\<close> and the lemmas that end in \<open>eats\<close>).
\<close>

section \<open>Spans and results\<close>

lemma soft_iff: "soft r \<longleftrightarrow> (\<exists>s k. r = Inl (NomError s k))"
  by (cases r rule: soft.cases) auto

lemma soft_simps [simp]: "soft (fail_at s)" "fail_at s \<noteq> Inr y" "Inr y \<noteq> fail_at s"
  by (simp_all add: fail_at_def)

lemma pbind_simps [simp]: "pbind (Inr (s, x)) f = f s x" "pbind (Inl e) f = Inl e" "soft r \<Longrightarrow> soft (pbind r f)"
  by (auto simp: pbind_def soft_iff)

lemma pbind_Inr: "pbind r f = Inr y \<longleftrightarrow> (\<exists>s x. r = Inr (s, x) \<and> f s x = Inr y)"
  by (cases r) (auto simp: pbind_def)

lemma advance_simps [simp]: "fragment (advance n s) = drop n (fragment s)" "advance 0 s = s" "advance a (advance b s) = advance (b + a) s"
  by (simp_all add: advance_def take_add) (simp add: add.commute)

lemma leaves_refl [simp]: "leaves s s"
  unfolding leaves_def by (rule exI [of _ 0]) simp

lemma leaves_trans: "leaves s t \<Longrightarrow> leaves t u \<Longrightarrow> leaves s u"
proof -
  assume "leaves s t" "leaves t u"
  then obtain a b where "a \<le> length (fragment s)" "t = advance a s" "b \<le> length (fragment t)" "u = advance b t" by (auto simp: leaves_def)
  then show ?thesis unfolding leaves_def by (intro exI [of _ "a + b"]) auto
qed

lemma leaves_advance: "n \<le> length (fragment s) \<Longrightarrow> leaves s (advance n s)"
  unfolding leaves_def by blast

lemma leaves_length: "leaves s t \<Longrightarrow> length (fragment t) \<le> length (fragment s)"
  by (auto simp: leaves_def)

section \<open>Agreement is a congruence\<close>

named_theorems sim_intros "agreement of a library with its documentation"

definition sim :: "'a parser \<Rightarrow> 'a parser \<Rightarrow> bool" where
  "sim p p' \<longleftrightarrow> (\<forall>s. agree (p s) (p' s))"

lemma agree_soft: "agree r r' \<Longrightarrow> soft r \<longleftrightarrow> soft r'"
  by (auto simp: agree_def)

lemma agree_Inr: "agree r r' \<Longrightarrow> r = Inr x \<longleftrightarrow> r' = Inr x"
  by (auto simp: agree_def)

lemma agree_hard: "agree r r' \<Longrightarrow> \<not> soft r \<Longrightarrow> r = r'"
  by (auto simp: agree_def)

lemma agree_trans: "agree r r' \<Longrightarrow> agree r' r'' \<Longrightarrow> agree r r''"
  by (auto simp: agree_def)

lemma simD: "sim p p' \<Longrightarrow> agree (p s) (p' s)"
  by (simp add: sim_def)

lemma agree_pbind [sim_intros]: "agree r r' \<Longrightarrow> (\<And>s x. agree (f s x) (f' s x)) \<Longrightarrow> agree (pbind r f) (pbind r' f')"
  by (cases r) (auto simp: agree_def pbind_def soft_iff split: sum.split)

lemma agree_if [sim_intros]: "agree r r' \<Longrightarrow> agree q q' \<Longrightarrow> agree (if b then r else q) (if b then r' else q')"
  by simp

lemma agree_case_prod [sim_intros]: "(\<And>a b. agree (f a b) (f' a b)) \<Longrightarrow> agree (case x of (a, b) \<Rightarrow> f a b) (case x of (a, b) \<Rightarrow> f' a b)"
  by (cases x) simp

lemma sim_advancing: "sim p p' \<Longrightarrow> advancing p' \<Longrightarrow> advancing p"
  unfolding sim_def advancing_def by (metis agree_Inr)

lemma sim_consuming: "sim p p' \<Longrightarrow> consuming p' \<Longrightarrow> consuming p"
  unfolding sim_def consuming_def by (metis agree_Inr)

lemma agree_doc_alt: "list_all2 sim ps ps' \<Longrightarrow> agree (doc_alt ps s) (doc_alt ps' s)"
proof (induction rule: list_all2_induct)
  case (Cons p ps p' ps')
  from Cons(1) have "agree (p s) (p' s)" by (rule simD)
  then show ?case using Cons(3) agree_soft by fastforce
qed simp

lemma agree_soft_if: "agree r r' \<Longrightarrow> agree a a' \<Longrightarrow> (\<not> soft r \<Longrightarrow> agree b b') \<Longrightarrow> agree (if soft r then a else b) (if soft r' then a' else b')"
  using agree_soft by auto

lemma agree_many_upto: "sim p p' \<Longrightarrow> agree (many_upto n p s) (many_upto n p' s)"
  by (induction n arbitrary: s) (simp_all add: cons_p_def sim_def agree_soft_if agree_pbind)

lemma agree_doc [sim_intros]:
  "sim p p' \<Longrightarrow> agree (doc_map p f s) (doc_map p' f s)"
  "sim q q' \<Longrightarrow> agree (doc_map_res q g s) (doc_map_res q' g s)"
  "sim p p' \<Longrightarrow> agree (doc_recognize p s) (doc_recognize p' s)"
  "sim p p' \<Longrightarrow> agree (doc_opt p s) (doc_opt p' s)"
  "sim p p' \<Longrightarrow> agree (doc_many0 p s) (doc_many0 p' s)"
  "sim p p' \<Longrightarrow> sim r r' \<Longrightarrow> agree (doc_preceded p r s) (doc_preceded p' r' s)"
  "sim p p' \<Longrightarrow> sim r r' \<Longrightarrow> sim w w' \<Longrightarrow> agree (doc_delimited p r w s) (doc_delimited p' r' w' s)"
  "sim p p' \<Longrightarrow> sim r r' \<Longrightarrow> agree (doc_tuple2 p r s) (doc_tuple2 p' r' s)"
  unfolding doc_map_def doc_map_res_def doc_recognize_def doc_opt_def doc_many0_def doc_preceded_def doc_delimited_def doc_tuple2_def
  by (simp_all add: agree_many_upto agree_pbind agree_soft_if simD del: many_upto.simps)

lemma sim_doc_tuple [sim_intros]:
  "sim p p' \<Longrightarrow> sim q q' \<Longrightarrow> sim r r' \<Longrightarrow> agree (doc_tuple3 p q r s) (doc_tuple3 p' q' r' s)"
  "sim p p' \<Longrightarrow> sim q q' \<Longrightarrow> sim r r' \<Longrightarrow> sim w w' \<Longrightarrow> agree (doc_tuple4 p q r w s) (doc_tuple4 p' q' r' w' s)"
  unfolding doc_tuple3_def doc_tuple4_def by (auto intro!: agree_doc simp: sim_def)

lemma agree_separated:
  assumes "sim sep sep'" "sim p p'"
  shows "agree (doc_separated_list1 sep p s) (doc_separated_list1 sep' p' s)" "agree (doc_separated_list0 sep p s) (doc_separated_list0 sep' p' s)"
proof -
  have "sim (doc_preceded sep p) (doc_preceded sep' p')" using assms by (simp add: sim_def [of "doc_preceded sep p"] agree_doc)
  then show l: "agree (doc_separated_list1 sep p s) (doc_separated_list1 sep' p' s)" for s
    unfolding doc_separated_list1_def cons_p_def by (intro agree_pbind agree_doc agree_refl) (simp_all add: simD assms)
  then show "agree (doc_separated_list0 sep p s) (doc_separated_list0 sep' p' s)"
    unfolding doc_separated_list0_def by (intro agree_soft_if agree_refl) (simp_all add: simD assms)
qed

lemma doc_simps:
  "multispace0 doc_nom = doc_while is_space" "alpha1 doc_nom = doc_while1 is_alpha" "alphanumeric1 doc_nom = doc_while1 is_alnum"
  "digit1 doc_nom = doc_while1 is_digit" "tag doc_nom = doc_tag" "take_while doc_nom = doc_while" "at_span doc_nom = doc_at" "at_word doc_nom = doc_at"
  "at_spans doc_nom = doc_at" "at_string doc_nom = doc_at" "at_strings doc_nom = doc_at" "at_bool doc_nom = doc_at" "at_i64 doc_nom = doc_at"
  "at_u64 doc_nom = doc_at" "at_f64 doc_nom = doc_at" "at_literal doc_nom = doc_at" "at_literals doc_nom = doc_at" "at_op doc_nom = doc_at"
  "at_predicate doc_nom = doc_at" "at_source doc_nom = doc_at" "at_projection doc_nom = doc_at" "at_clause doc_nom = doc_at"
  "map_span_string doc_nom = doc_map" "map_string_literal doc_nom = doc_map" "map_bool_literal doc_nom = doc_map" "map_f64_literal doc_nom = doc_map"
  "map_i64_literal doc_nom = doc_map" "map_vector_source doc_nom = doc_map" "map_string_source doc_nom = doc_map" "map_call_projection doc_nom = doc_map"
  "map_alias_projection doc_nom = doc_map" "map_string_projection doc_nom = doc_map" "map_where_clause doc_nom = doc_map" "map_project_clause doc_nom = doc_map"
  "map_bias_clause doc_nom = doc_map" "map_order_clause doc_nom = doc_map" "map_u64_clause doc_nom = doc_map" "tuple_word doc_nom = doc_tuple2"
  "tuple_spans doc_nom = doc_tuple3" "tuple_call doc_nom = doc_tuple4" "tuple_alias doc_nom = doc_tuple3"
  "alt doc_at = doc_alt" "value_p doc_at = (\<lambda>v p. doc_map p (\<lambda>_. v))" "map_res doc_at = doc_map_res" "recognize doc_at = doc_recognize" "opt doc_at = doc_opt"
  "many0 doc_at = doc_many0" "separated_list0 doc_at = doc_separated_list0" "separated_list1 doc_at = doc_separated_list1"
  "delimited doc_at = doc_delimited" "preceded doc_at = doc_preceded"
  by (simp_all add: doc_nom_def doc_at_def)

lemma sim_at:
  assumes "at_ok A"
  shows "list_all2 sim ps ps' \<Longrightarrow> ps \<noteq> [] \<Longrightarrow> sim (alt A ps) (doc_alt ps')"
    and "sim q q' \<Longrightarrow> sim (value_p A v q) (doc_map q' (\<lambda>_. v))"
    and "sim q q' \<Longrightarrow> sim (map_res A q f) (doc_map_res q' f)"
    and "advancing p' \<Longrightarrow> sim p p' \<Longrightarrow> sim (recognize A p) (doc_recognize p')"
    and "sim p p' \<Longrightarrow> sim (opt A p) (doc_opt p')"
    and "advancing p' \<Longrightarrow> sim p p' \<Longrightarrow> sim (many0 A p) (doc_many0 p')"
    and "consuming sep' \<Longrightarrow> advancing p' \<Longrightarrow> sim sep sep' \<Longrightarrow> sim p p' \<Longrightarrow> sim (separated_list0 A sep p) (doc_separated_list0 sep' p')"
    and "consuming sep' \<Longrightarrow> advancing p' \<Longrightarrow> sim sep sep' \<Longrightarrow> sim p p' \<Longrightarrow> sim (separated_list1 A sep p) (doc_separated_list1 sep' p')"
    and "sim q q' \<Longrightarrow> sim p p' \<Longrightarrow> sim w w' \<Longrightarrow> sim (delimited A q p w) (doc_delimited q' p' w')"
    and "sim q q' \<Longrightarrow> sim p p' \<Longrightarrow> sim (preceded A q p) (doc_preceded q' p')"
  using assms unfolding at_ok_def sim_def [of "alt A ps"] sim_def [of "value_p A v q"] sim_def [of "map_res A q f"] sim_def [of "recognize A p"]
    sim_def [of "opt A p"] sim_def [of "many0 A p"] sim_def [of "separated_list0 A sep p"] sim_def [of "separated_list1 A sep p"]
    sim_def [of "delimited A q p w"] sim_def [of "preceded A q p"]
  by (meson agree_trans agree_doc_alt agree_doc agree_separated sim_advancing sim_consuming)+

lemma sim_map: "map_ok M \<Longrightarrow> sim p p' \<Longrightarrow> sim (M p f) (doc_map p' f)"
  unfolding map_ok_def sim_def [of "M p f"] by (meson agree_trans agree_doc)

lemma sim_tuple:
  assumes "nom_ok N"
  shows "sim a a' \<Longrightarrow> sim b b' \<Longrightarrow> sim (tuple_word N a b) (doc_tuple2 a' b')"
    and "sim c c' \<Longrightarrow> sim d d' \<Longrightarrow> sim e e' \<Longrightarrow> sim (tuple_spans N c d e) (doc_tuple3 c' d' e')"
    and "sim f f' \<Longrightarrow> sim g g' \<Longrightarrow> sim h h' \<Longrightarrow> sim k k' \<Longrightarrow> sim (tuple_call N f g h k) (doc_tuple4 f' g' h' k')"
    and "sim f f' \<Longrightarrow> sim g g' \<Longrightarrow> sim h h' \<Longrightarrow> sim (tuple_alias N f g h) (doc_tuple3 f' g' h')"
  using assms unfolding nom_ok_def sim_def [of "tuple_word N a b"] sim_def [of "tuple_spans N c d e"] sim_def [of "tuple_call N f g h k"]
    sim_def [of "tuple_alias N f g h"]
  by (meson agree_trans agree_doc sim_doc_tuple)+

lemma sim_tokens:
  assumes "nom_ok N"
  shows "sim (multispace0 N) (doc_while is_space)" "sim (alpha1 N) (doc_while1 is_alpha)" "sim (alphanumeric1 N) (doc_while1 is_alnum)"
    "sim (digit1 N) (doc_while1 is_digit)" "sim (tag N t) (doc_tag t)" "sim (take_while N P) (doc_while P)"
  using assms by (simp_all add: nom_ok_def sim_def)

section \<open>What the parsers can return\<close>

text \<open>
  \<open>gives s P r\<close>: from the span \<open>s\<close> the result \<open>r\<close> is a recoverable error, or a value with \<open>P\<close> and a rest of \<open>s\<close>; \<open>eats\<close>: the rest is shorter.
\<close>

named_theorems gives_intros "results of the documented combinators"

definition gives :: "span \<Rightarrow> ('a \<Rightarrow> bool) \<Rightarrow> 'a iresult \<Rightarrow> bool" where
  "gives s P r \<longleftrightarrow> soft r \<or> (\<exists>t x. r = Inr (t, x) \<and> leaves s t \<and> P x)"

definition eats :: "span \<Rightarrow> ('a \<Rightarrow> bool) \<Rightarrow> 'a iresult \<Rightarrow> bool" where
  "eats s P r \<longleftrightarrow> soft r \<or> (\<exists>t x. r = Inr (t, x) \<and> leaves s t \<and> length (fragment t) < length (fragment s) \<and> P x)"

lemma eats_gives: "eats s P r \<Longrightarrow> gives s P r"
  by (auto simp: eats_def gives_def)

lemma gives_soft [simp]: "soft r \<Longrightarrow> gives s P r" "soft r \<Longrightarrow> eats s P r"
  by (simp_all add: gives_def eats_def)

lemma gives_Inr [simp]: "gives s P (Inr (t, x)) \<longleftrightarrow> leaves s t \<and> P x"
  "eats s P (Inr (t, x)) \<longleftrightarrow> leaves s t \<and> length (fragment t) < length (fragment s) \<and> P x"
  by (auto simp: gives_def eats_def)

lemma gives_weaken: "gives s P r \<Longrightarrow> (\<And>x. P x \<Longrightarrow> Q x) \<Longrightarrow> gives s Q r"
  "eats s P r \<Longrightarrow> (\<And>x. P x \<Longrightarrow> Q x) \<Longrightarrow> eats s Q r"
  by (auto simp: gives_def eats_def)

lemma gives_pbind:
  assumes "gives s P r" "\<And>t x. P x \<Longrightarrow> gives t Q (f t x)"
  shows "gives s Q (pbind r f)"
proof (cases "soft r")
  case False
  then obtain t x where r: "r = Inr (t, x)" "leaves s t" "P x" using assms(1) by (auto simp: gives_def)
  then show ?thesis using assms(2) [OF r(3), of t] leaves_trans [OF r(2)] by (auto simp: gives_def)
qed simp

lemma eats_pbind:
  assumes "eats s P r" "\<And>t x. P x \<Longrightarrow> gives t Q (f t x)"
  shows "eats s Q (pbind r f)"
proof (cases "soft r")
  case False
  then obtain t x where r: "r = Inr (t, x)" "leaves s t" "length (fragment t) < length (fragment s)" "P x" using assms(1) by (auto simp: eats_def)
  then show ?thesis using assms(2) [OF r(4), of t] leaves_trans [OF r(2)] leaves_length
    by (fastforce simp: gives_def eats_def)
qed simp

lemma eats_pbind_late:
  assumes "gives s P r" "\<And>t x. P x \<Longrightarrow> eats t Q (f t x)"
  shows "eats s Q (pbind r f)"
proof (cases "soft r")
  case False
  then obtain t x where r: "r = Inr (t, x)" "leaves s t" "P x" using assms(1) by (auto simp: gives_def)
  then show ?thesis using assms(2) [OF r(3), of t] leaves_trans [OF r(2)] leaves_length [OF r(2)]
    by (fastforce simp: eats_def)
qed simp

lemma shorter: "xs \<noteq> [] \<Longrightarrow> length xs \<le> n \<Longrightarrow> n - length xs < n"
  by (cases xs) auto

lemma advancing_iff: "(\<And>s. gives s P (p s)) \<Longrightarrow> advancing p"
  unfolding gives_def advancing_def by (metis Inr_inject Pair_inject soft.simps(4))

lemma consuming_iff: "(\<And>s. eats s P (p s)) \<Longrightarrow> consuming p"
  unfolding eats_def consuming_def by (metis Inr_inject Pair_inject soft.simps(4))

lemma gives_doc_alt: "(\<And>p. p \<in> set ps \<Longrightarrow> gives s P (p s)) \<Longrightarrow> gives s P (doc_alt ps s)"
  by (induction ps) auto

lemma eats_doc_alt: "(\<And>p. p \<in> set ps \<Longrightarrow> eats s P (p s)) \<Longrightarrow> eats s P (doc_alt ps s)"
  by (induction ps) auto

lemma gives_doc_map: "gives s P (p s) \<Longrightarrow> (\<And>x. P x \<Longrightarrow> Q (f x)) \<Longrightarrow> gives s Q (doc_map p f s)"
  "eats s P (p s) \<Longrightarrow> (\<And>x. P x \<Longrightarrow> Q (f x)) \<Longrightarrow> eats s Q (doc_map p f s)"
  unfolding doc_map_def by (auto intro: gives_pbind eats_pbind)

lemma gives_doc_opt: "gives s P (p s) \<Longrightarrow> gives s (\<lambda>y. \<forall>x. y = Some x \<longrightarrow> P x) (doc_opt p s)"
  unfolding doc_opt_def by (auto intro: gives_pbind)

lemma gives_doc_preceded: "(\<And>s. gives s (\<lambda>_. True) (q s)) \<Longrightarrow> (\<And>s. gives s P (p s)) \<Longrightarrow> gives s P (doc_preceded q p s)"
  "(\<And>s. gives s (\<lambda>_. True) (q s)) \<Longrightarrow> (\<And>s. eats s P (p s)) \<Longrightarrow> eats s P (doc_preceded q p s)"
  unfolding doc_preceded_def
  subgoal by (rule gives_pbind [where P = "\<lambda>_. True"]) simp_all
  subgoal by (rule eats_pbind_late [where P = "\<lambda>_. True"]) simp_all
  done

lemma gives_doc_many0:
  assumes "\<And>s. gives s P (p s)"
  shows "gives s (list_all P) (doc_many0 p s)"
proof -
  have "gives s (list_all P) (many_upto n p s)" for n
  proof (induction n arbitrary: s)
    case (Suc n)
    show ?case using Suc.IH
      by (auto intro!: gives_pbind [OF assms] gives_pbind [where P = "list_all P"] simp: cons_p_def)
  qed simp
  then show ?thesis by (simp add: doc_many0_def del: many_upto.simps)
qed

lemma gives_doc_separated:
  assumes "\<And>s. gives s (\<lambda>_. True) (sep s)" "\<And>s. eats s P (p s)"
  shows "eats s (\<lambda>xs. xs \<noteq> [] \<and> list_all P xs) (doc_separated_list1 sep p s)" "gives s (list_all P) (doc_separated_list0 sep p s)"
proof -
  have "gives s (list_all P) (doc_many0 (doc_preceded sep p) s)" for s
    by (intro gives_doc_many0 gives_doc_preceded(1) assms(1) eats_gives [OF assms(2)])
  then show l: "eats s (\<lambda>xs. xs \<noteq> [] \<and> list_all P xs) (doc_separated_list1 sep p s)" for s
    unfolding doc_separated_list1_def cons_p_def by (auto intro!: eats_pbind [OF assms(2)] gives_pbind [where P = "list_all P"])
  show "gives s (list_all P) (doc_separated_list0 sep p s)"
    using gives_weaken(1) [OF eats_gives [OF l]] by (auto simp: doc_separated_list0_def)
qed

lemma gives_doc_delimited:
  "(\<And>s. eats s (\<lambda>_. True) (p s)) \<Longrightarrow> (\<And>s. gives s P (q s)) \<Longrightarrow> (\<And>s. gives s (\<lambda>_. True) (r s)) \<Longrightarrow> eats s P (doc_delimited p q r s)"
  unfolding doc_delimited_def by (rule eats_pbind, assumption, rule gives_pbind, assumption, rule gives_pbind, assumption) simp

lemma gives_doc_tuple2:
  "(\<And>s. gives s P (p s)) \<Longrightarrow> (\<And>s. gives s Q (q s)) \<Longrightarrow> gives s (\<lambda>(x, y). P x \<and> Q y) (doc_tuple2 p q s)"
  "(\<And>s. eats s P (p s)) \<Longrightarrow> (\<And>s. gives s Q (q s)) \<Longrightarrow> eats s (\<lambda>(x, y). P x \<and> Q y) (doc_tuple2 p q s)"
  unfolding doc_tuple2_def by (rule gives_pbind eats_pbind, assumption, rule gives_pbind, assumption, simp)+

section \<open>Tokens\<close>

definition is_word :: "char \<Rightarrow> bool" where
  "is_word c \<longleftrightarrow> is_alnum c \<or> c = CHR ''_''"

definition is_start :: "char \<Rightarrow> bool" where
  "is_start c \<longleftrightarrow> is_alpha c \<or> c = CHR ''_''"

definition ident :: "string \<Rightarrow> bool" where
  "ident w \<longleftrightarrow> w \<noteq> [] \<and> is_start (hd w) \<and> list_all is_word w"

lemma doc_tag_eats: "t \<noteq> [] \<Longrightarrow> eats s (\<lambda>_. True) (doc_tag t s)"
proof (cases "starts_with (fragment s) t")
  case True
  assume t: "t \<noteq> []"
  from True have "length t \<le> length (fragment s)" by (metis length_take min.cobounded1 starts_with_def)
  then show ?thesis using True t by (auto simp: doc_tag_def take_p_def leaves_advance shorter)
qed (simp add: doc_tag_def)

lemma doc_while_gives: "gives s (\<lambda>w. list_all P (fragment w)) (doc_while P s)"
  by (auto simp: doc_while_def take_p_def takeWhile_eq_take [symmetric] list_all_iff length_takeWhile_le intro!: leaves_advance dest: set_takeWhileD)

lemma doc_while1_eats: "eats s (\<lambda>w. fragment w \<noteq> [] \<and> list_all P (fragment w)) (doc_while1 P s)"
  by (auto simp: shorter doc_while1_def doc_while_def take_p_def takeWhile_eq_take [symmetric] list_all_iff length_takeWhile_le intro!: leaves_advance dest: set_takeWhileD)

declare doc_alt.simps [simp del]

text \<open>An identifier is the longest run of word characters, if it starts like one.\<close>

lemma take_length_takeWhile: "take (length (takeWhile P xs)) xs = takeWhile P xs"
  by (metis takeWhile_eq_take)

lemma takeWhile_step: "(\<And>c. P c \<Longrightarrow> Q c) \<Longrightarrow> takeWhile Q xs = takeWhile P xs @ takeWhile Q (dropWhile P xs)"
  by (induction xs) auto

lemma many_word:
  "length (fragment s) < n \<Longrightarrow>
    \<exists>xs. many_upto n (doc_alt [doc_while1 is_alnum, doc_tag ''_'']) s = Inr (advance (length (takeWhile is_word (fragment s))) s, xs)"
proof (induction n arbitrary: s)
  case (Suc n)
  let ?p = "doc_alt [doc_while1 is_alnum, doc_tag ''_'']"
  consider (alnum) "takeWhile is_alnum (fragment s) \<noteq> []" | (under) "takeWhile is_alnum (fragment s) = []" "starts_with (fragment s) ''_''"
    | (none) "takeWhile is_alnum (fragment s) = []" "\<not> starts_with (fragment s) ''_''" by blast
  then show ?case
  proof cases
    case alnum
    let ?k = "length (takeWhile is_alnum (fragment s))"
    have k: "0 < ?k" "?k \<le> length (fragment s)" using alnum by (simp_all add: length_takeWhile_le)
    then have "length (fragment s) - ?k < n" using Suc.prems by linarith
    then obtain xs where "many_upto n ?p (advance ?k s) = Inr (advance (length (takeWhile is_word (drop ?k (fragment s)))) (advance ?k s), xs)"
      using Suc.IH [of "advance ?k s"] by auto
    moreover have "takeWhile is_word (fragment s) = takeWhile is_alnum (fragment s) @ takeWhile is_word (drop ?k (fragment s))"
      using takeWhile_step [of is_alnum is_word "fragment s"] by (simp add: is_word_def dropWhile_eq_drop)
    moreover have "?p s = Inr (advance ?k s, s\<lparr>fragment := takeWhile is_alnum (fragment s)\<rparr>)"
      using alnum by (simp add: doc_alt.simps doc_while1_def doc_while_def take_p_def take_length_takeWhile)
    ultimately show ?thesis using k alnum by (simp add: cons_p_def shorter)
  next
    case under
    then obtain f where f: "fragment s = CHR ''_'' # f" by (cases "fragment s") (auto simp: starts_with_def)
    then obtain xs where "many_upto n ?p (advance 1 s) = Inr (advance (length (takeWhile is_word f)) (advance 1 s), xs)"
      using Suc.IH [of "advance 1 s"] Suc.prems by auto
    moreover have "?p s = Inr (advance 1 s, s\<lparr>fragment := ''_''\<rparr>)"
      using under f by (simp add: doc_alt.simps doc_while1_def doc_tag_def take_p_def)
    moreover have "is_word (CHR ''_'')" by (simp add: is_word_def)
    ultimately show ?thesis using f by (simp add: cons_p_def)
  next
    case none
    then have "takeWhile is_word (fragment s) = []"
      by (cases "fragment s") (auto simp: is_word_def starts_with_def split: if_splits)
    moreover have "soft (?p s)" using none by (simp add: doc_alt.simps doc_while1_def doc_tag_def)
    ultimately show ?thesis by simp
  qed
qed simp

lemma many_word_doc: "\<exists>xs. doc_many0 (doc_alt [doc_while1 is_alnum, doc_tag ''_'']) s = Inr (advance (length (takeWhile is_word (fragment s))) s, xs)"
  unfolding doc_many0_def by (rule many_word) simp

lemma is_start_word: "is_start c \<Longrightarrow> is_word c" "is_alpha c \<Longrightarrow> is_word c"
  by (auto simp: is_start_def is_word_def is_alnum_def)

text \<open>Reading a word from position \<open>k\<close> on, after its first part.\<close>

lemma word_from:
  assumes "k \<le> length f" "list_all is_word (take k f)"
  shows "takeWhile is_word f = take k f @ takeWhile is_word (drop k f)"
  using assms by (metis append_take_drop_id list_all_iff takeWhile_append2)

lemma identifier_ok:
  assumes w: "fragment s \<noteq> []" "is_start (hd (fragment s))"
  shows "identifier_p doc_nom s = Inr (advance (length (takeWhile is_word (fragment s))) s, takeWhile is_word (fragment s))"
proof -
  let ?first = "doc_alt [doc_while1 is_alpha, doc_tag ''_'']" and ?w = "takeWhile is_word (fragment s)"
  obtain k where k: "?first s = Inr (advance k s, s\<lparr>fragment := take k (fragment s)\<rparr>)" "k \<le> length (fragment s)" "list_all is_word (take k (fragment s))"
  proof (cases "takeWhile is_alpha (fragment s) = []")
    case True
    then have "starts_with (fragment s) ''_''" using w by (cases "fragment s") (auto simp: is_start_def starts_with_def split: if_splits)
    then show ?thesis using True w by (intro that [of 1]) (auto simp: doc_alt.simps doc_while1_def doc_tag_def take_p_def starts_with_def is_word_def Suc_le_eq)
  next
    case False
    then show ?thesis using is_start_word
      by (intro that [of "length (takeWhile is_alpha (fragment s))"])
        (auto simp: doc_alt.simps doc_while1_def doc_while_def take_p_def length_takeWhile_le take_length_takeWhile list_all_iff dest: set_takeWhileD)
  qed
  obtain xs where m: "doc_many0 (doc_alt [doc_while1 is_alnum, doc_tag ''_'']) (advance k s) =
      Inr (advance (k + length (takeWhile is_word (drop k (fragment s)))) s, xs)" using many_word_doc [of "advance k s"] by auto
  have len: "k + length (takeWhile is_word (drop k (fragment s))) = length ?w" using word_from [OF k(2,3)] k(2) by simp
  have "length ?w \<le> length (fragment s)" by (rule length_takeWhile_le)
  then show ?thesis using k(1) m unfolding len
    by (simp add: identifier_p_def doc_simps doc_map_def doc_recognize_def doc_tuple2_def take_length_takeWhile)
qed

lemma identifier_fail:
  assumes "fragment s = [] \<or> \<not> is_start (hd (fragment s))"
  shows "soft (identifier_p doc_nom s)"
proof -
  have "soft (doc_alt [doc_while1 is_alpha, doc_tag ''_''] s)"
    using assms by (cases "fragment s") (auto simp: doc_alt.simps doc_while1_def doc_tag_def starts_with_def is_start_def)
  then show ?thesis by (simp add: identifier_p_def doc_simps doc_map_def doc_recognize_def doc_tuple2_def)
qed

lemma identifier_eats: "eats s ident (identifier_p doc_nom s)"
proof (cases "fragment s = [] \<or> \<not> is_start (hd (fragment s))")
  case False
  have "takeWhile is_word (fragment s) \<noteq> []" "hd (takeWhile is_word (fragment s)) = hd (fragment s)"
    using False is_start_word(1) by (cases "fragment s"; simp)+
  then show ?thesis using False identifier_ok [of s]
    by (auto simp: ident_def list_all_iff length_takeWhile_le shorter leaves_advance dest: set_takeWhileD)
qed (simp add: identifier_fail)

lemma ws_gives: "gives s (\<lambda>_. True) (ws doc_nom s)"
  using doc_while_gives by (auto simp: ws_def doc_simps intro: gives_weaken)

section \<open>Well-formed syntax trees\<close>

text \<open>What a query looks like that comes out of the parser.\<close>

fun fnonneg :: "f64 \<Rightarrow> bool" where
  "fnonneg (Num q) = (0 \<le> q)"
| "fnonneg (Infty s) = (\<not> s)"
| "fnonneg _ = False"

definition no_quote :: "string \<Rightarrow> bool" where
  "no_quote s \<longleftrightarrow> CHR 0x27 \<notin> set s"

fun wf_literal :: "literal \<Rightarrow> bool" where
  "wf_literal (LString s) = no_quote s"
| "wf_literal (LInteger i) = (0 \<le> i \<and> i < 2 ^ 63)"
| "wf_literal (LFloat x) = fnonneg x"
| "wf_literal _ = True"

fun simple_pred :: "predicate \<Rightarrow> bool" where
  "simple_pred (Comparison f op v) = (ident f \<and> wf_literal v)"
| "simple_pred (In f vs) = (ident f \<and> list_all wf_literal vs)"
| "simple_pred (Between f l h) = (ident f \<and> wf_literal l \<and> wf_literal h)"
| "simple_pred (Like f p) = (ident f \<and> no_quote p)"
| "simple_pred (And ps) = False"

fun wf_pred :: "predicate \<Rightarrow> bool" where
  "wf_pred (And ps) = (2 \<le> length ps \<and> list_all simple_pred ps)"
| "wf_pred p = simple_pred p"

fun wf_projection :: "projection \<Rightarrow> bool" where
  "wf_projection (PField n) = ident n"
| "wf_projection (PAliased f a) = (ident f \<and> ident a)"
| "wf_projection (PFunction n f) = (ident n \<and> ident f)"

definition wf_source :: "string \<times> f64 list option \<Rightarrow> bool" where
  "wf_source = (\<lambda>(text, vector). case vector of None \<Rightarrow> no_quote text | Some v \<Rightarrow> text = [] \<and> list_all fnonneg v)"

fun wf_clause :: "parsed_clause \<Rightarrow> bool" where
  "wf_clause (MetadataWhere ps) = (\<exists>p. ps = [p] \<and> wf_pred p)"
| "wf_clause (ProjectOn ps) = (ps \<noteq> [] \<and> list_all wf_projection ps)"
| "wf_clause (BiasClause b) = (ident (bc_scoring_fn b) \<and> list_all ident (bc_args b))"
| "wf_clause (OrderBy ob) = (ident (ob_scoring_fn ob) \<and> list_all no_quote (ob_args ob))"
| "wf_clause _ = True"

definition wf_found :: "string \<times> similarity_expr \<Rightarrow> bool" where
  "wf_found = (\<lambda>(find_type, se). find_type \<in> {''SIMILARITY'', ''SEMANTIC''} \<and> ident (se_field se) \<and> wf_source (se_query_text se, se_vector se))"

section \<open>What each rule of the grammar gives\<close>

lemma gives_Inr_same: "Q x \<Longrightarrow> gives t Q (Inr (t, x))"
  by simp

lemma gives_case_prod: "(\<And>a b. x = (a, b) \<Longrightarrow> gives s P (f a b)) \<Longrightarrow> gives s P (case x of (a, b) \<Rightarrow> f a b)"
  by (cases x) simp

named_theorems token_gives "results of the rules already treated"

lemmas [token_gives] = ws_gives identifier_eats identifier_eats [THEN eats_gives]

lemma tag_eats [token_gives]: "t \<noteq> [] \<Longrightarrow> eats s (\<lambda>_. True) (tag doc_nom t s)" "t \<noteq> [] \<Longrightarrow> gives s (\<lambda>_. True) (tag doc_nom t s)"
  by (simp_all add: doc_simps doc_tag_eats eats_gives)

lemma take_while_gives [token_gives]: "gives s (\<lambda>w. list_all P (fragment w)) (take_while doc_nom P s)"
  by (simp add: doc_simps doc_while_gives)

lemma separator_gives [token_gives]: "t \<noteq> [] \<Longrightarrow> gives s (\<lambda>_. True) (separator doc_nom t s)"
  unfolding separator_def doc_simps doc_tuple3_def doc_tuple2_def
  by (rule gives_pbind [OF ws_gives gives_pbind, OF gives_pbind, OF eats_gives, OF doc_tag_eats gives_pbind, OF _ ws_gives]) simp_all

lemma separator_consuming: "t \<noteq> [] \<Longrightarrow> consuming (separator doc_nom t)"
  unfolding separator_def doc_simps doc_tuple3_def doc_tuple2_def
  by (rule consuming_iff [where P = "\<lambda>_. True"], rule eats_pbind_late [OF ws_gives eats_pbind, OF eats_pbind, OF doc_tag_eats gives_pbind, OF _ ws_gives]) simp_all

lemma string_literal_eats [token_gives]: "eats s no_quote (string_literal doc_nom s)"
  unfolding string_literal_def
  by (rule eats_pbind [OF tag_eats(1)], simp, rule gives_pbind [OF take_while_gives], rule gives_pbind [OF tag_eats(2)])
    (auto simp: no_quote_def list_all_iff)

lemma doc_map_res_eats: "eats s P (p s) \<Longrightarrow> (\<And>x y. P x \<Longrightarrow> f x = Some y \<Longrightarrow> Q y) \<Longrightarrow> eats s Q (doc_map_res p f s)"
  unfolding doc_map_res_def by (rule eats_pbind, assumption) (auto split: option.split)

lemma doc_recognize_gives:
  assumes "\<And>s. eats s P (p s)"
  shows "eats s (\<lambda>_. True) (doc_recognize p s)"
  unfolding doc_recognize_def by (rule eats_pbind [OF assms]) (simp add: gives_def)

lemma doc_recognize_while1: "doc_recognize (doc_while1 P) = doc_while1 P"
  by (rule ext) (simp add: doc_recognize_def doc_while1_def doc_while_def take_p_def length_takeWhile_le fail_at_def)

lemma fround_nonneg: "0 \<le> r \<Longrightarrow> fnonneg (fround F r)"
  using rne_ge [of 0 "r / pow2 (ulp_exp F r)"] less_imp_le [OF pow2_pos]
  by (auto simp: fround_def round_mag_def fzero_def Let_def zero_le_mult_iff)

lemma parse_f64_nonneg: "parse_f64 t = Some x \<Longrightarrow> fnonneg x"
  by (auto simp: parse_f64_def Let_def fround_nonneg split: if_splits)

lemma parse_i64_digits: "list_all is_digit t \<Longrightarrow> parse_i64 t = Some i \<Longrightarrow> 0 \<le> i \<and> i < 2 ^ 63"
  by (cases t) (auto simp: parse_i64_def parse_unsigned_def Let_def is_digit_def split: if_splits)

lemma integer_literal_eats [token_gives]: "eats s (\<lambda>i. 0 \<le> i \<and> i < 2 ^ 63) (integer_literal doc_nom s)"
  unfolding integer_literal_def doc_simps doc_recognize_while1
  by (rule doc_map_res_eats [OF doc_while1_eats]) (use parse_i64_digits in blast)

lemma u64_literal_eats [token_gives]: "eats s (\<lambda>_. True) (u64_literal doc_nom s)"
  unfolding u64_literal_def doc_simps doc_recognize_while1 by (rule doc_map_res_eats [OF doc_while1_eats]) simp

lemma number_text_eats: "eats s (\<lambda>_. True) (doc_tuple3 (doc_while1 is_digit) (doc_tag ''.'') (doc_while1 is_digit) s)"
  unfolding doc_tuple3_def
  by (rule gives_weaken(2) [OF gives_doc_tuple2(2) [OF doc_while1_eats gives_doc_tuple2(1), OF eats_gives eats_gives, OF doc_tag_eats doc_while1_eats]]) simp_all

lemma float_literal_eats [token_gives]: "eats s fnonneg (float_literal doc_nom s)"
  unfolding float_literal_def doc_simps
  by (rule doc_map_res_eats [OF doc_recognize_gives [OF number_text_eats]]) (simp add: parse_f64_nonneg)

lemma value_tag_eats: "t \<noteq> [] \<Longrightarrow> P v \<Longrightarrow> eats s P (doc_map (doc_tag t) (\<lambda>_. v) s)"
  by (rule gives_doc_map(2) [OF doc_tag_eats]) simp_all

lemma boolean_literal_eats [token_gives]: "eats s (\<lambda>_. True) (boolean_literal doc_nom s)"
  unfolding boolean_literal_def doc_simps by (rule eats_doc_alt) (auto intro!: value_tag_eats)

lemma literal_eats [token_gives]: "eats s wf_literal (literal_p doc_nom s)"
  unfolding literal_p_def null_literal_def doc_simps
  by (rule eats_doc_alt)
    (auto intro: value_tag_eats gives_doc_map(2) [OF string_literal_eats] gives_doc_map(2) [OF boolean_literal_eats] gives_doc_map(2) [OF float_literal_eats]
      gives_doc_map(2) [OF integer_literal_eats])

lemma ident_no_quote: "ident w \<Longrightarrow> no_quote w"
  by (auto simp: ident_def no_quote_def list_all_iff is_word_def is_alnum_def is_alpha_def is_digit_def Let_def dest: bspec)

lemma order_by_arg_eats [token_gives]: "eats s no_quote (order_by_arg doc_nom s)"
  unfolding order_by_arg_def doc_simps
  by (rule eats_doc_alt) (auto intro: string_literal_eats gives_weaken(2) [OF identifier_eats ident_no_quote])

lemma comparison_op_eats [token_gives]: "eats s (\<lambda>_. True) (comparison_op_p doc_nom s)"
  unfolding comparison_op_p_def doc_simps by (rule eats_doc_alt) (auto intro!: value_tag_eats)

lemma delimited_list_eats:
  assumes "\<And>s. eats s P (p s)"
  shows "eats s (list_all P) (doc_delimited (doc_tag ''('') (doc_separated_list0 (separator doc_nom '','') p) (doc_tag '')'') s)"
  by (rule gives_doc_delimited) (auto intro!: doc_tag_eats eats_gives [OF doc_tag_eats] gives_doc_separated(2) separator_gives assms)

lemmas [token_gives] = string_literal_eats [THEN eats_gives] literal_eats [THEN eats_gives] comparison_op_eats [THEN eats_gives] u64_literal_eats [THEN eats_gives]

lemma lists_give [token_gives]:
  "gives s (list_all wf_literal) (delimited (at_literals doc_nom) (tag doc_nom ''('') (separated_list0 (at_literal doc_nom) (separator doc_nom '','') (literal_p doc_nom)) (tag doc_nom '')'') s)"
  "gives s (list_all no_quote) (delimited (at_strings doc_nom) (tag doc_nom ''('') (separated_list0 (at_string doc_nom) (separator doc_nom '','') (order_by_arg doc_nom)) (tag doc_nom '')'') s)"
  "gives s (list_all ident) (delimited (at_strings doc_nom) (tag doc_nom ''('') (separated_list0 (at_string doc_nom) (separator doc_nom '','') (identifier_p doc_nom)) (tag doc_nom '')'') s)"
  "gives s (list_all fnonneg) (separated_list0 (at_f64 doc_nom) (separator doc_nom '','') (float_literal doc_nom) s)"
  by (simp_all only: doc_simps delimited_list_eats [THEN eats_gives] literal_eats order_by_arg_eats identifier_eats
    gives_doc_separated(2) [OF separator_gives float_literal_eats] list.distinct not_False_eq_True)

lemmas seq_gives = eats_pbind gives_pbind gives_case_prod gives_Inr_same

lemma predicates_eat:
  "eats s simple_pred (comparison_predicate doc_nom s)" "eats s simple_pred (in_predicate doc_nom s)"
  "eats s simple_pred (between_predicate doc_nom s)" "eats s simple_pred (like_predicate doc_nom s)"
  unfolding comparison_predicate_def in_predicate_def between_predicate_def like_predicate_def
  by ((rule seq_gives token_gives | simp; fail)+)

lemma conjuncts_eat: "eats s (\<lambda>ps. ps \<noteq> [] \<and> list_all simple_pred ps) (separated_list1 (at_predicate doc_nom) (separator doc_nom ''AND'')
    (alt (at_predicate doc_nom) [in_predicate doc_nom, between_predicate doc_nom, like_predicate doc_nom, comparison_predicate doc_nom]) s)"
proof -
  have "eats s simple_pred (doc_alt [in_predicate doc_nom, between_predicate doc_nom, like_predicate doc_nom, comparison_predicate doc_nom] s)" for s
    by (rule eats_doc_alt) (auto simp: predicates_eat)
  then show ?thesis unfolding doc_simps by (intro gives_doc_separated(1) separator_gives) simp_all
qed

lemma wf_pred_simple: "simple_pred p \<Longrightarrow> wf_pred p"
  by (cases p) auto

lemma and_expression_eats [token_gives]: "eats s wf_pred (and_expression doc_nom s)"
  unfolding and_expression_def
proof (rule eats_pbind [OF conjuncts_eat])
  fix t and ps assume "ps \<noteq> [] \<and> list_all simple_pred ps"
  then show "gives t wf_pred (if length ps = 1 then Inr (t, hd ps) else Inr (t, And ps))"
    using wf_pred_simple by (cases ps) (auto simp: Suc_le_eq)
qed

lemma vector_literal_eats [token_gives]: "eats s (list_all fnonneg) (vector_literal doc_nom s)"
  unfolding vector_literal_def by ((rule seq_gives token_gives | simp; fail)+)

lemma source_gives [token_gives]: "gives s wf_source (alt (at_source doc_nom) [map_vector_source doc_nom (vector_literal doc_nom) (\<lambda>v. ([], Some v)),
    map_string_source doc_nom (string_literal doc_nom) (\<lambda>t. (t, None))] s)"
  unfolding doc_simps
  by (rule gives_doc_alt) (auto simp: wf_source_def intro: gives_doc_map(1) [OF eats_gives [OF vector_literal_eats]] gives_doc_map(1) [OF eats_gives [OF string_literal_eats]])

lemma find_type_eats [token_gives]: "eats s (\<lambda>t. t \<in> {''SIMILARITY'', ''SEMANTIC''}) (alt (at_string doc_nom)
    [value_p (at_string doc_nom) ''SIMILARITY'' (tag doc_nom ''SIMILARITY''), value_p (at_string doc_nom) ''SEMANTIC'' (tag doc_nom ''SEMANTIC'')] s)"
  unfolding doc_simps by (rule eats_doc_alt) (auto intro!: value_tag_eats)

lemma find_expr_eats: "eats s wf_found (find_expr doc_nom s)"
  unfolding find_expr_def by ((rule seq_gives token_gives | simp add: wf_found_def; fail)+)

lemmas [token_gives] = and_expression_eats [THEN eats_gives]

lemma direction_gives [token_gives]: "gives s (\<lambda>_. True) (opt (at_bool doc_nom) (preceded (at_bool doc_nom) (ws doc_nom) (alt (at_bool doc_nom)
    [value_p (at_bool doc_nom) True (tag doc_nom ''DESC''), value_p (at_bool doc_nom) False (tag doc_nom ''ASC'')])) s)"
proof -
  have "gives s (\<lambda>_. True) (doc_alt [doc_map (doc_tag ''DESC'') (\<lambda>_. True), doc_map (doc_tag ''ASC'') (\<lambda>_. False)] s)" for s
    by (rule gives_doc_alt) (auto intro: value_tag_eats [THEN eats_gives])
  then show ?thesis unfolding doc_simps
    by (intro gives_weaken(1) [OF gives_doc_opt [OF gives_doc_preceded(1) [OF ws_gives]]]) simp_all
qed

lemma projection_eats [token_gives]: "eats s wf_projection (projection_p doc_nom s)"
proof -
  have i: "gives s ident (doc_preceded (ws doc_nom) (identifier_p doc_nom) s)" for s
    by (rule gives_doc_preceded(1) [OF ws_gives eats_gives [OF identifier_eats]])
  have t: "gives s (\<lambda>_. True) (doc_preceded (ws doc_nom) (doc_tag t) s)" if "t \<noteq> []" for t s
    by (rule gives_doc_preceded(1) [OF ws_gives eats_gives [OF doc_tag_eats [OF that]]])
  have c: "eats s wf_projection (doc_map (doc_tuple4 (identifier_p doc_nom) (doc_preceded (ws doc_nom) (doc_tag ''(''))
      (doc_preceded (ws doc_nom) (identifier_p doc_nom)) (doc_preceded (ws doc_nom) (doc_tag '')''))) (\<lambda>(name, _, field, _). PFunction name field) s)" for s
    unfolding doc_tuple4_def doc_tuple3_def
    by (rule gives_doc_map(2) [OF gives_doc_tuple2(2) [OF identifier_eats gives_doc_tuple2(1) [OF t gives_doc_tuple2(1) [OF i t]]]]) auto
  have a: "eats s wf_projection (doc_map (doc_tuple3 (identifier_p doc_nom) (doc_preceded (ws doc_nom) (doc_tag ''AS''))
      (doc_preceded (ws doc_nom) (identifier_p doc_nom))) (\<lambda>(field, _, alias). PAliased field alias) s)" for s
    unfolding doc_tuple3_def by (rule gives_doc_map(2) [OF gives_doc_tuple2(2) [OF identifier_eats gives_doc_tuple2(1) [OF t i]]]) auto
  have f: "eats s wf_projection (doc_map (identifier_p doc_nom) PField s)" for s by (rule gives_doc_map(2) [OF identifier_eats]) simp
  show ?thesis unfolding projection_p_def doc_simps
    by (rule gives_doc_preceded(2) [OF ws_gives]) (auto intro!: eats_doc_alt simp: c a f)
qed

lemma projections_give [token_gives]: "gives s (\<lambda>ps. ps \<noteq> [] \<and> list_all wf_projection ps)
    (separated_list1 (at_projection doc_nom) (separator doc_nom '','') (projection_p doc_nom) s)"
  unfolding doc_simps by (rule eats_gives [OF gives_doc_separated(1) [OF separator_gives projection_eats]]) simp

lemma clauses_eat:
  "eats s (\<lambda>v. wf_clause (MetadataWhere v)) (metadata_where_clause doc_nom s)" "eats s (\<lambda>v. wf_clause (ProjectOn v)) (project_on_clause doc_nom s)"
  "eats s (\<lambda>v. wf_clause (BiasClause v)) (bias_clause_p doc_nom s)" "eats s (\<lambda>v. wf_clause (OrderBy v)) (order_by_clause doc_nom s)"
  "eats s (\<lambda>v. True) (limit_clause doc_nom s)" "eats s (\<lambda>v. True) (offset_clause doc_nom s)" "eats s (\<lambda>v. True) (within_clause doc_nom s)"
  "eats s (\<lambda>v. True) (en_clause doc_nom s)"
  unfolding metadata_where_clause_def project_on_clause_def bias_clause_p_def order_by_clause_def limit_clause_def offset_clause_def within_clause_def en_clause_def
  by ((rule seq_gives token_gives | simp; fail)+)

lemma any_clause_eats: "eats s wf_clause (parse_any_clause doc_nom s)"
  unfolding parse_any_clause_def doc_simps
  by (rule eats_doc_alt)
    (auto intro: clauses_eat(1-4) [THEN gives_doc_map(2)] clauses_eat(5-8) [THEN gives_doc_map(2)])

section \<open>The grammar over any library that keeps to its documentation\<close>

lemma nom_okD:
  assumes "nom_ok N"
  shows "at_ok (at_span N)" "at_ok (at_word N)" "at_ok (at_spans N)" "at_ok (at_string N)" "at_ok (at_strings N)" "at_ok (at_bool N)" "at_ok (at_i64 N)"
    "at_ok (at_u64 N)" "at_ok (at_f64 N)" "at_ok (at_literal N)" "at_ok (at_literals N)" "at_ok (at_op N)" "at_ok (at_predicate N)" "at_ok (at_source N)"
    "at_ok (at_projection N)" "at_ok (at_clause N)" "map_ok (map_span_string N)" "map_ok (map_string_literal N)" "map_ok (map_bool_literal N)"
    "map_ok (map_f64_literal N)" "map_ok (map_i64_literal N)" "map_ok (map_vector_source N)" "map_ok (map_string_source N)" "map_ok (map_call_projection N)"
    "map_ok (map_alias_projection N)" "map_ok (map_string_projection N)" "map_ok (map_where_clause N)" "map_ok (map_project_clause N)"
    "map_ok (map_bias_clause N)" "map_ok (map_order_clause N)" "map_ok (map_u64_clause N)"
  using assms by (simp_all add: nom_ok_def)

lemmas sim_combinators = sim_at sim_map sim_tuple sim_tokens nom_okD list.rel_intros

lemma advancing_parts:
  "advancing (doc_while1 P)" "advancing (doc_tuple3 (doc_while1 is_digit) (doc_tag ''.'') (doc_while1 is_digit))"
  "advancing (doc_alt [doc_while1 is_alnum, doc_tag ''_''])"
  "advancing (doc_tuple2 (doc_alt [doc_while1 is_alpha, doc_tag ''_'']) (doc_many0 (doc_alt [doc_while1 is_alnum, doc_tag ''_''])))"
proof -
  have a: "gives s (\<lambda>_. True) (doc_alt [doc_while1 P, doc_tag ''_''] s)" for s P
    by (rule gives_doc_alt) (auto intro: gives_weaken(1) [OF eats_gives [OF doc_while1_eats]] eats_gives [OF doc_tag_eats])
  show "advancing (doc_while1 P)" by (rule advancing_iff [OF eats_gives [OF doc_while1_eats]])
  show "advancing (doc_tuple3 (doc_while1 is_digit) (doc_tag ''.'') (doc_while1 is_digit))" by (rule advancing_iff [OF eats_gives [OF number_text_eats]])
  show "advancing (doc_alt [doc_while1 is_alnum, doc_tag ''_''])" by (rule advancing_iff [OF a])
  show "advancing (doc_tuple2 (doc_alt [doc_while1 is_alpha, doc_tag ''_'']) (doc_many0 (doc_alt [doc_while1 is_alnum, doc_tag ''_''])))"
    by (rule advancing_iff [OF gives_doc_tuple2(1) [OF a gives_doc_many0 [OF a]]])
qed

named_theorems sim_rules "agreement of the rules of the grammar"

lemma sim_identifier [sim_rules]: "nom_ok N \<Longrightarrow> sim (identifier_p N) (identifier_p doc_nom)"
  unfolding identifier_p_def doc_simps by (rule sim_combinators advancing_parts | simp; fail)+

lemma sim_ws [sim_rules]: "nom_ok N \<Longrightarrow> sim (ws N) (ws doc_nom)"
  unfolding ws_def doc_simps by (rule sim_tokens)

lemma sim_separator [sim_rules]: "nom_ok N \<Longrightarrow> sim (separator N t) (separator doc_nom t)"
  unfolding separator_def doc_simps by (rule sim_combinators sim_rules | simp; fail)+

lemma sim_tag [sim_rules]: "nom_ok N \<Longrightarrow> sim (tag N t) (tag doc_nom t)" "nom_ok N \<Longrightarrow> sim (take_while N P) (take_while doc_nom P)"
  unfolding doc_simps by (rule sim_tokens; assumption)+

lemma sim_string_literal [sim_rules]: "nom_ok N \<Longrightarrow> sim (string_literal N) (string_literal doc_nom)"
  unfolding sim_def string_literal_def by (intro allI agree_pbind agree_refl sim_rules [THEN simD])

lemma sim_numbers [sim_rules]: "nom_ok N \<Longrightarrow> sim (integer_literal N) (integer_literal doc_nom)" "nom_ok N \<Longrightarrow> sim (u64_literal N) (u64_literal doc_nom)"
    "nom_ok N \<Longrightarrow> sim (float_literal N) (float_literal doc_nom)"
  unfolding integer_literal_def u64_literal_def float_literal_def doc_simps by (rule sim_combinators advancing_parts | simp; fail)+

lemma sim_boolean [sim_rules]: "nom_ok N \<Longrightarrow> sim (boolean_literal N) (boolean_literal doc_nom)"
  unfolding boolean_literal_def doc_simps by (rule sim_combinators | simp; fail)+

lemma sim_null [sim_rules]: "nom_ok N \<Longrightarrow> sim (null_literal N) (null_literal doc_nom)"
  unfolding null_literal_def doc_simps by (rule sim_combinators | simp; fail)+

lemma sim_literal [sim_rules]: "nom_ok N \<Longrightarrow> sim (literal_p N) (literal_p doc_nom)"
  unfolding literal_p_def doc_simps by (rule sim_rules sim_combinators | simp; fail)+

lemma sim_order_by_arg [sim_rules]: "nom_ok N \<Longrightarrow> sim (order_by_arg N) (order_by_arg doc_nom)"
  unfolding order_by_arg_def doc_simps by (rule sim_rules sim_combinators | simp; fail)+

lemma sim_comparison_op [sim_rules]: "nom_ok N \<Longrightarrow> sim (comparison_op_p N) (comparison_op_p doc_nom)"
  unfolding comparison_op_p_def doc_simps by (rule sim_combinators | simp; fail)+

lemma regular_rules: "t \<noteq> [] \<Longrightarrow> consuming (separator doc_nom t)" "advancing (literal_p doc_nom)" "advancing (order_by_arg doc_nom)"
    "advancing (identifier_p doc_nom)" "advancing (float_literal doc_nom)" "advancing (projection_p doc_nom)"
    "advancing (doc_alt [in_predicate doc_nom, between_predicate doc_nom, like_predicate doc_nom, comparison_predicate doc_nom])"
  by (simp_all add: separator_consuming advancing_iff [OF eats_gives [OF literal_eats]] advancing_iff [OF eats_gives [OF order_by_arg_eats]]
    advancing_iff [OF eats_gives [OF identifier_eats]] advancing_iff [OF eats_gives [OF float_literal_eats]] advancing_iff [OF eats_gives [OF projection_eats]])
    (rule advancing_iff [OF gives_doc_alt], use predicates_eat [THEN eats_gives] in auto)

lemma sim_lists [sim_rules]:
  "nom_ok N \<Longrightarrow> sim (delimited (at_literals N) (tag N ''('') (separated_list0 (at_literal N) (separator N '','') (literal_p N)) (tag N '')''))
     (delimited (at_literals doc_nom) (tag doc_nom ''('') (separated_list0 (at_literal doc_nom) (separator doc_nom '','') (literal_p doc_nom)) (tag doc_nom '')''))"
  "nom_ok N \<Longrightarrow> sim (delimited (at_strings N) (tag N ''('') (separated_list0 (at_string N) (separator N '','') (order_by_arg N)) (tag N '')''))
     (delimited (at_strings doc_nom) (tag doc_nom ''('') (separated_list0 (at_string doc_nom) (separator doc_nom '','') (order_by_arg doc_nom)) (tag doc_nom '')''))"
  "nom_ok N \<Longrightarrow> sim (delimited (at_strings N) (tag N ''('') (separated_list0 (at_string N) (separator N '','') (identifier_p N)) (tag N '')''))
     (delimited (at_strings doc_nom) (tag doc_nom ''('') (separated_list0 (at_string doc_nom) (separator doc_nom '','') (identifier_p doc_nom)) (tag doc_nom '')''))"
  "nom_ok N \<Longrightarrow> sim (separated_list0 (at_f64 N) (separator N '','') (float_literal N))
     (separated_list0 (at_f64 doc_nom) (separator doc_nom '','') (float_literal doc_nom))"
  unfolding doc_simps by (rule sim_rules sim_combinators regular_rules | simp; fail)+

lemma sim_predicates [sim_rules]:
  "nom_ok N \<Longrightarrow> sim (comparison_predicate N) (comparison_predicate doc_nom)" "nom_ok N \<Longrightarrow> sim (in_predicate N) (in_predicate doc_nom)"
  "nom_ok N \<Longrightarrow> sim (between_predicate N) (between_predicate doc_nom)" "nom_ok N \<Longrightarrow> sim (like_predicate N) (like_predicate doc_nom)"
  unfolding sim_def comparison_predicate_def in_predicate_def between_predicate_def like_predicate_def
  by ((intro allI agree_pbind agree_refl sim_rules [THEN simD]; assumption)+)

lemma sim_conjuncts [sim_rules]: "nom_ok N \<Longrightarrow> sim (separated_list1 (at_predicate N) (separator N ''AND'')
    (alt (at_predicate N) [in_predicate N, between_predicate N, like_predicate N, comparison_predicate N]))
  (separated_list1 (at_predicate doc_nom) (separator doc_nom ''AND'')
    (alt (at_predicate doc_nom) [in_predicate doc_nom, between_predicate doc_nom, like_predicate doc_nom, comparison_predicate doc_nom]))"
  unfolding doc_simps by (rule sim_rules sim_combinators regular_rules | simp; fail)+

lemma sim_and_expression [sim_rules]: "nom_ok N \<Longrightarrow> sim (and_expression N) (and_expression doc_nom)"
  unfolding sim_def and_expression_def by (intro allI agree_pbind agree_refl agree_if sim_rules [THEN simD])

lemma sim_vector_literal [sim_rules]: "nom_ok N \<Longrightarrow> sim (vector_literal N) (vector_literal doc_nom)"
  unfolding sim_def vector_literal_def by (intro allI agree_pbind agree_refl sim_rules [THEN simD])

lemma sim_sources [sim_rules]:
  "nom_ok N \<Longrightarrow> sim (alt (at_source N) [map_vector_source N (vector_literal N) (\<lambda>v. ([], Some v)), map_string_source N (string_literal N) (\<lambda>t. (t, None))])
     (alt (at_source doc_nom) [map_vector_source doc_nom (vector_literal doc_nom) (\<lambda>v. ([], Some v)), map_string_source doc_nom (string_literal doc_nom) (\<lambda>t. (t, None))])"
  "nom_ok N \<Longrightarrow> sim (alt (at_string N) [value_p (at_string N) ''SIMILARITY'' (tag N ''SIMILARITY''), value_p (at_string N) ''SEMANTIC'' (tag N ''SEMANTIC'')])
     (alt (at_string doc_nom) [value_p (at_string doc_nom) ''SIMILARITY'' (tag doc_nom ''SIMILARITY''), value_p (at_string doc_nom) ''SEMANTIC'' (tag doc_nom ''SEMANTIC'')])"
  "nom_ok N \<Longrightarrow> sim (opt (at_bool N) (preceded (at_bool N) (ws N) (alt (at_bool N) [value_p (at_bool N) True (tag N ''DESC''), value_p (at_bool N) False (tag N ''ASC'')])))
     (opt (at_bool doc_nom) (preceded (at_bool doc_nom) (ws doc_nom) (alt (at_bool doc_nom) [value_p (at_bool doc_nom) True (tag doc_nom ''DESC''), value_p (at_bool doc_nom) False (tag doc_nom ''ASC'')])))"
  unfolding doc_simps by (rule sim_rules sim_combinators | simp; fail)+

lemma sim_find_expr [sim_rules]: "nom_ok N \<Longrightarrow> sim (find_expr N) (find_expr doc_nom)"
  unfolding sim_def find_expr_def by (intro allI agree_pbind agree_refl agree_case_prod sim_rules [THEN simD])

lemma sim_projection [sim_rules]: "nom_ok N \<Longrightarrow> sim (projection_p N) (projection_p doc_nom)"
  unfolding projection_p_def doc_simps by (rule sim_rules sim_combinators | simp; fail)+

lemma sim_projections [sim_rules]: "nom_ok N \<Longrightarrow> sim (separated_list1 (at_projection N) (separator N '','') (projection_p N))
    (separated_list1 (at_projection doc_nom) (separator doc_nom '','') (projection_p doc_nom))"
  unfolding doc_simps by (rule sim_rules sim_combinators regular_rules | simp; fail)+

lemma sim_clauses [sim_rules]:
  "nom_ok N \<Longrightarrow> sim (metadata_where_clause N) (metadata_where_clause doc_nom)" "nom_ok N \<Longrightarrow> sim (project_on_clause N) (project_on_clause doc_nom)"
  "nom_ok N \<Longrightarrow> sim (bias_clause_p N) (bias_clause_p doc_nom)" "nom_ok N \<Longrightarrow> sim (order_by_clause N) (order_by_clause doc_nom)"
  "nom_ok N \<Longrightarrow> sim (limit_clause N) (limit_clause doc_nom)" "nom_ok N \<Longrightarrow> sim (offset_clause N) (offset_clause doc_nom)"
  "nom_ok N \<Longrightarrow> sim (within_clause N) (within_clause doc_nom)" "nom_ok N \<Longrightarrow> sim (en_clause N) (en_clause doc_nom)"
  unfolding sim_def metadata_where_clause_def project_on_clause_def bias_clause_p_def order_by_clause_def limit_clause_def offset_clause_def within_clause_def en_clause_def
  by ((intro allI agree_pbind agree_refl sim_rules [THEN simD]; assumption)+)

lemma sim_any_clause [sim_rules]: "nom_ok N \<Longrightarrow> sim (parse_any_clause N) (parse_any_clause doc_nom)"
  unfolding parse_any_clause_def doc_simps by (rule sim_rules sim_combinators | simp; fail)+

end
