(* ===== verification/Vql_Parser.thy ===== *)
theory Vql_Parser
  imports Vql_Rules
begin

text \<open>
  What the parser of the query language guarantees: it always returns, it accepts only well-formed queries, and the text that \<open>Display\<close> prints for a
  query is read back as this query, with its clauses in any order.
\<close>

section \<open>Parsing ends, and gives well-formed queries\<close>

lemma any_clause_consuming: "consuming (parse_any_clause doc_nom)"
  by (rule consuming_iff [OF any_clause_eats])

lemma loop_agree:
  assumes ok: "nom_ok N"
  shows "\<exists>r r'. clause_loop N s q = Some r \<and> clause_loop doc_nom s q = Some r' \<and> agree r r'"
proof (induction "length (fragment s)" arbitrary: s q rule: less_induct)
  case less
  have w: "agree (ws N s) (ws doc_nom s)" by (rule sim_ws [THEN simD, OF ok])
  obtain t u where t: "ws doc_nom s = Inr (t, u)" "leaves s t"
    using ws_gives [of s] by (auto simp: gives_def ws_def doc_simps doc_while_def take_p_def)
  have wN: "ws N s = Inr (t, u)" using agree_Inr [OF w] t by blast
  have c: "agree (parse_any_clause N t) (parse_any_clause doc_nom t)" by (rule sim_any_clause [THEN simD, OF ok])
  show ?case
  proof (cases "fragment t = []")
    case True
    then show ?thesis using t wN by (simp add: clause_loop.simps [of _ s])
  next
    case False
    show ?thesis
    proof (cases "soft (parse_any_clause doc_nom t)")
      case True
      then obtain a b c' d where "parse_any_clause doc_nom t = Inl (NomError a b)" "parse_any_clause N t = Inl (NomError c' d)"
        using agree_soft [OF c] by (auto simp: soft_iff)
      then show ?thesis using t wN False by (simp add: clause_loop.simps [of _ s])
    next
      case hard: False
      then obtain v x where v: "parse_any_clause doc_nom t = Inr (v, x)" using any_clause_eats [of t] by (auto simp: eats_def)
      then have "parse_any_clause N t = Inr (v, x)" using agree_Inr [OF c] by blast
      moreover have "length (fragment v) < length (fragment s)"
        using v any_clause_consuming leaves_length [OF t(2)] by (fastforce simp: consuming_def)
      ultimately show ?thesis using t wN False v less by (simp add: clause_loop.simps [of _ s])
    qed
  qed
qed

lemma query_agree:
  assumes ok: "nom_ok N"
  shows "\<exists>r r'. query_p N s = Some r \<and> query_p doc_nom s = Some r' \<and> agree r r'"
proof -
  let ?f = "\<lambda>N. pbind (tag N ''FIND'' s) (\<lambda>input _. pbind (ws N input) (\<lambda>input _. find_expr N input))"
  have a: "agree (?f N) (?f doc_nom)" by (intro agree_pbind sim_rules [THEN simD] ok)
  show ?thesis
  proof (cases "?f doc_nom")
    case (Inl e)
    then have "agree (?f N) (Inl e)" using a by simp
    then show ?thesis using Inl by (cases "?f N") (auto simp: query_p_def agree_def soft_iff)
  next
    case (Inr y)
    obtain t found where y: "y = (t, found)" by (cases y)
    have N: "?f N = Inr (t, found)" using agree_Inr [OF a] Inr y by simp
    obtain r r' where r: "clause_loop N t (no_clauses found) = Some r" "clause_loop doc_nom t (no_clauses found) = Some r'" "agree r r'"
      using loop_agree [OF ok] by blast
    then show ?thesis using Inr N y by (auto simp: query_p_def intro!: agree_pbind sim_ws [THEN simD] ok)
  qed
qed

text \<open>The clauses a query has, in the order in which they are displayed.\<close>

fun opt_list :: "'a option \<Rightarrow> 'a list" where
  "opt_list None = []"
| "opt_list (Some x) = [x]"

definition clauses_of :: "query \<Rightarrow> parsed_clause list" where
  "clauses_of q = opt_list (map_option MetadataWhere (q_metadata_where q)) @ opt_list (map_option ProjectOn (q_project_on q)) @
     opt_list (map_option BiasClause (q_bias q)) @ opt_list (map_option OrderBy (q_order_by q)) @ opt_list (map_option LimitClause (q_limit q)) @
     opt_list (map_option OffsetClause (q_offset q)) @ opt_list (map_option Within (q_within q))"

definition wf_query :: "query \<Rightarrow> bool" where
  "wf_query q \<longleftrightarrow> (case q_similarity q of None \<Rightarrow> False | Some se \<Rightarrow> wf_found (q_find q, se)) \<and> list_all wf_clause (clauses_of q) \<and>
     (q_offset q \<noteq> None \<longrightarrow> q_limit q \<noteq> None)"

lemma clauses_set: "\<not> clause_is_some c q \<Longrightarrow> set (clauses_of (set_clause c q)) = insert c (set (clauses_of q))"
  by (cases c) (auto simp: clauses_of_def)

lemma set_clause_head [simp]: "q_similarity (set_clause c q) = q_similarity q" "q_find (set_clause c q) = q_find q"
  by (cases c; simp)+

lemma no_clauses_simps [simp]: "clauses_of (no_clauses x) = []" "q_find (no_clauses x) = fst x" "q_similarity (no_clauses x) = Some (snd x)"
  by (cases x; simp add: no_clauses_def clauses_of_def)+

lemma loop_wf: "clause_loop doc_nom s q = Some (Inr (t, q')) \<Longrightarrow> list_all wf_clause (clauses_of q) \<Longrightarrow>
    list_all wf_clause (clauses_of q') \<and> q_find q' = q_find q \<and> q_similarity q' = q_similarity q"
proof (induction "length (fragment s)" arbitrary: s q rule: less_induct)
  case less
  obtain u x where u: "ws doc_nom s = Inr (u, x)" "leaves s u"
    using ws_gives [of s] by (auto simp: gives_def ws_def doc_simps doc_while_def take_p_def)
  show ?case
  proof (cases "fragment u = [] \<or> soft (parse_any_clause doc_nom u)")
    case True
    then show ?thesis using less.prems u by (auto simp: clause_loop.simps [of _ s] soft_iff split: if_splits)
  next
    case False
    then obtain v c where v: "parse_any_clause doc_nom u = Inr (v, c)" "length (fragment v) < length (fragment u)" "wf_clause c"
      using any_clause_eats [of u] by (auto simp: eats_def)
    then have n: "\<not> clause_is_some c q" "clause_loop doc_nom v (set_clause c q) = Some (Inr (t, q'))"
      using less.prems(1) u False by (auto simp: clause_loop.simps [of _ s] split: if_splits)
    show ?thesis using less.hyps [OF _ n(2)] v leaves_length [OF u(2)] less.prems(2) n(1)
      by (auto simp: list_all_iff clauses_set)
  qed
qed

lemma query_wf: "query_p doc_nom s = Some (Inr (t, q)) \<Longrightarrow> wf_query q"
proof -
  assume a: "query_p doc_nom s = Some (Inr (t, q))"
  let ?f = "pbind (tag doc_nom ''FIND'' s) (\<lambda>input _. pbind (ws doc_nom input) (\<lambda>input _. find_expr doc_nom input))"
  have "eats s wf_found ?f" by (rule seq_gives token_gives find_expr_eats eats_gives [OF find_expr_eats] | simp; fail)+
  moreover from a obtain i found where f: "?f = Inr (i, found)" by (cases ?f) (auto simp: query_p_def)
  ultimately have "wf_found found" by simp
  moreover from a f obtain v where "clause_loop doc_nom i (no_clauses found) = Some (Inr (v, q))" "q_offset q \<noteq> None \<longrightarrow> q_limit q \<noteq> None"
    by (auto simp: query_p_def pbind_Inr split: if_splits)
  ultimately show ?thesis using loop_wf [of i "no_clauses found" v q] by (auto simp: wf_query_def)
qed

text \<open>
  C36. The parser always returns, and what it accepts is well formed: for every input the loop over the clauses ends; a query that is returned has
  a known search kind with identifiers, texts without quotes and non-negative finite or infinite numbers in all places, at least one projection, one predicate or a
  conjunction of two or more, and a limit whenever it has an offset; every error is a parse error.
\<close>

theorem parse_total:
  assumes "nom_ok N"
  shows "\<exists>r. parse N input = Some r \<and> (case r of Inr q \<Rightarrow> wf_query q | Inl e \<Rightarrow> \<exists>line col msg. e = ParseError line col msg)"
proof -
  obtain r r' where r: "query_p N \<lparr>sp_before = [], fragment = input\<rparr> = Some r" "query_p doc_nom \<lparr>sp_before = [], fragment = input\<rparr> = Some r'" "agree r r'"
    using query_agree [OF assms] by blast
  show ?thesis
  proof (cases r)
    case (Inr y)
    then have "r' = Inr y" using agree_Inr [OF r(3)] by simp
    then show ?thesis using r(1,2) Inr query_wf by (cases y) (auto simp: parse_def)
  next
    case (Inl e)
    then show ?thesis using r(1) by (cases e) (auto simp: parse_def)
  qed
qed

theorem parse_total_witness: "nom_ok doc_nom \<and> (\<exists>r. parse doc_nom ''FIND SIMILARITY(a, VECTOR(1.0)) OFFSET 1'' = Some r \<and>
    (case r of Inr q \<Rightarrow> wf_query q | Inl e \<Rightarrow> \<exists>line col msg. e = ParseError line col msg))"
  using parse_total [OF doc_nom_ok] doc_nom_ok by blast

section \<open>Reading back what is printed\<close>

abbreviation sp :: "string \<Rightarrow> string \<Rightarrow> span" where
  "sp b f \<equiv> \<lparr>sp_before = b, fragment = f\<rparr>"

definition head_not :: "(char \<Rightarrow> bool) \<Rightarrow> string \<Rightarrow> bool" where
  "head_not P k \<longleftrightarrow> k = [] \<or> \<not> P (hd k)"

text \<open>What may follow a printed token: nothing, white space, a comma or a closing parenthesis.\<close>

definition ends :: "string \<Rightarrow> bool" where
  "ends k \<longleftrightarrow> k = [] \<or> hd k \<in> {CHR '' '', CHR 0x0A, CHR '','', CHR '')''}"

lemma head_not_simps [simp]: "head_not P []" "head_not P (c # k) \<longleftrightarrow> \<not> P c"
  by (auto simp: head_not_def)

lemma ends_simps [simp]: "ends []" "ends (c # k) \<longleftrightarrow> c \<in> {CHR '' '', CHR 0x0A, CHR '','', CHR '')''}"
  by (auto simp: ends_def)

lemma head_not_while: "head_not P k \<Longrightarrow> takeWhile P k = [] \<and> dropWhile P k = k"
  by (cases k) auto

lemma while_append: "list_all P w \<Longrightarrow> head_not P k \<Longrightarrow> takeWhile P (w @ k) = w \<and> dropWhile P (w @ k) = k"
  by (induction w) (auto simp: head_not_while)

lemmas char_class_defs = is_word_def is_start_def is_alnum_def is_alpha_def is_digit_def is_space_def Let_def

lemma ends_head_not: "ends k \<Longrightarrow> head_not is_word k" "ends k \<Longrightarrow> head_not is_digit k"
  by (cases k; auto simp: char_class_defs)+

lemma start_not_space: "is_start c \<Longrightarrow> \<not> is_space c" "is_digit c \<Longrightarrow> \<not> is_space c"
  by (auto simp: char_class_defs)

lemma advance_sp: "advance (length w) (sp b (w @ k)) = sp (b @ w) k"
  by (simp add: advance_def)

lemma tag_sp: "tag doc_nom t (sp b f) = (if starts_with f t then Inr (sp (b @ t) (drop (length t) f), sp b t) else fail_at (sp b f))"
  by (simp add: doc_simps doc_tag_def take_p_def advance_def starts_with_def)

lemmas doc_tag_sp = tag_sp [unfolded doc_simps]

lemma while_sp: "doc_while P (sp b f) = Inr (sp (b @ takeWhile P f) (dropWhile P f), sp b (takeWhile P f))"
  by (simp add: doc_while_def take_p_def advance_def take_length_takeWhile dropWhile_eq_drop)

lemma while1_sp: "doc_while1 P (sp b f) = (if takeWhile P f = [] then fail_at (sp b f) else Inr (sp (b @ takeWhile P f) (dropWhile P f), sp b (takeWhile P f)))"
  by (simp add: doc_while1_def while_sp)

lemma ws_sp: "ws doc_nom (sp b f) = Inr (sp (b @ takeWhile is_space f) (dropWhile is_space f), sp b (takeWhile is_space f))"
  by (simp add: ws_def doc_simps while_sp)

lemma ident_reads: "ident w \<Longrightarrow> head_not is_word k \<Longrightarrow> identifier_p doc_nom (sp b (w @ k)) = Inr (sp (b @ w) k, w)"
  using while_append [of is_word w k] identifier_ok [of "sp b (w @ k)"] advance_sp [of w b k] by (auto simp: ident_def)

lemma ident_fails: "head_not is_start f \<Longrightarrow> soft (identifier_p doc_nom (sp b f))"
  by (rule identifier_fail) (auto simp: head_not_def)

lemma head_not_append: "w \<noteq> [] \<Longrightarrow> head_not P (w @ k) \<longleftrightarrow> \<not> P (hd w)"
  by (simp add: head_not_def)

lemma ident_head [simp]: "ident w \<Longrightarrow> head_not is_space (w @ k)"
  using start_not_space by (auto simp: ident_def head_not_append)

lemma quoted_reads: "no_quote s \<Longrightarrow> string_literal doc_nom (sp b (quoted s @ k)) = Inr (sp (b @ quoted s) k, s)"
proof -
  assume "no_quote s"
  then have "takeWhile (\<lambda>c. c \<noteq> CHR 0x27) (s @ CHR 0x27 # k) = s \<and> dropWhile (\<lambda>c. c \<noteq> CHR 0x27) (s @ CHR 0x27 # k) = CHR 0x27 # k"
    by (intro while_append) (auto simp: no_quote_def list_all_iff)
  then show ?thesis by (simp add: string_literal_def quoted_def tag_sp starts_with_def while_sp doc_simps(6))
qed

lemma quoted_fails: "head_not (\<lambda>c. c = CHR 0x27) f \<Longrightarrow> soft (string_literal doc_nom (sp b f))"
  by (cases f) (auto simp: string_literal_def tag_sp starts_with_def)

subsection \<open>Numbers\<close>

lemma digits_reads: "w \<noteq> [] \<Longrightarrow> list_all is_digit w \<Longrightarrow> head_not is_digit k \<Longrightarrow> doc_while1 is_digit (sp b (w @ k)) = Inr (sp (b @ w) k, sp b w)"
  using while_append [of is_digit w k] by (simp add: while1_sp)

lemma show_nat_head: "is_digit (hd (show_nat n))"
  using show_nat_digits [of n] show_nat_nonempty [of n] by (cases "show_nat n") auto

lemma parse_unsigned_show: "n < 2 ^ w \<Longrightarrow> parse_unsigned w (show_nat n) = Some n"
  using show_nat_head [of n] show_nat_digits [of n] by (auto simp: parse_unsigned_def digits_val_show_nat is_digit_def Let_def)

lemma parse_u64_show: "parse_u64 (show_nat (unat n)) = Some n"
  using parse_unsigned_show [of "unat n" 64] unsigned_less [of n, where ?'a = nat] by (simp add: parse_u64_def)

lemma u64_reads: "head_not is_digit k \<Longrightarrow> u64_literal doc_nom (sp b (show_nat (unat n) @ k)) = Inr (sp (b @ show_nat (unat n)) k, n)"
  unfolding u64_literal_def doc_simps doc_recognize_while1 doc_map_res_def
  by (simp add: digits_reads show_nat_digits parse_u64_show)

lemma parse_i64_show: "n < 2 ^ 63 \<Longrightarrow> parse_i64 (show_nat n) = Some (int n)"
  using parse_unsigned_show [of n 63] show_nat_head [of n] by (auto simp: parse_i64_def is_digit_def)

lemma digits_val_append: "digits_val (a @ b) = digits_val a * 10 ^ length b + digits_val b"
proof (induction b rule: rev_induct)
  case (snoc c b)
  have "digits_val (a @ b @ [c]) = 10 * digits_val (a @ b) + (of_char c - 48)" using digits_val_snoc [of "a @ b" c] by simp
  then show ?case using snoc by (simp add: digits_val_snoc algebra_simps)
qed (simp add: digits_val_def)

lemma digits_val_zeros: "digits_val (replicate k (CHR ''0'')) = 0"
  by (induction k) (simp_all add: digits_val_def)

lemma length_show_nat: "n < 10 ^ Suc k \<Longrightarrow> length (show_nat n) \<le> Suc k"
proof (induction k arbitrary: n)
  case (Suc k)
  then have "n div 10 < 10 ^ Suc k" by (simp add: less_mult_imp_div_less)
  then show ?case using Suc.IH [of "n div 10"] by (subst show_nat.simps) auto
qed (subst show_nat.simps; simp)

lemma strip_zeros_spec: "strip_zeros mant n = (mt, k) \<Longrightarrow> k \<le> n \<and> mant = mt * 10 ^ (n - k)"
proof (induction n arbitrary: mant)
  case (Suc n)
  then show ?case
  proof (cases "mant mod 10 = 0")
    case True
    then have "k \<le> n \<and> mant div 10 = mt * 10 ^ (n - k)" using Suc by simp
    then show ?thesis using True by (auto simp: Suc_diff_le)
  next
    case False
    then show ?thesis using Suc.prems by auto
  qed
qed simp

definition point_text :: "string \<Rightarrow> string \<Rightarrow> string" where
  "point_text whole fr = whole @ CHR ''.'' # fr"

lemma no_point_digits: "list_all is_digit s \<Longrightarrow> CHR ''.'' \<notin> set s"
  by (auto simp: list_all_iff is_digit_def dest!: bspec)

text \<open>A printed number with a point reads as the number it stands for.\<close>

lemma show_scaled_point:
  assumes "CHR ''.'' \<in> set (show_scaled mant u)"
  obtains whole fr where "show_scaled mant u = point_text whole fr" "whole \<noteq> []" "fr \<noteq> []" "list_all is_digit whole" "list_all is_digit fr"
    "rat_of_nat (digits_val (whole @ fr)) / 10 ^ length fr = of_nat mant * ten_pow u"
proof -
  have u: "u < 0" using assms no_point_digits [OF show_nat_digits] by (auto simp: show_scaled_def split: if_splits)
  obtain mt k where z: "strip_zeros mant (nat (- u)) = (mt, k)" by (cases "strip_zeros mant (nat (- u))")
  have k: "k \<noteq> 0" using assms u z no_point_digits [OF show_nat_digits] by (auto simp: show_scaled_def split: if_splits)
  let ?dg = "show_nat (mt mod 10 ^ k)"
  let ?fr = "replicate (k - length ?dg) (CHR ''0'') @ ?dg" and ?whole = "show_nat (mt div 10 ^ k)"
  have t: "show_scaled mant u = point_text ?whole ?fr" using u z k by (simp add: show_scaled_def point_text_def Let_def)
  obtain j where j: "k = Suc j" using k by (cases k) auto
  have len: "length ?fr = k" using length_show_nat [of "mt mod 10 ^ k" j] j by simp
  have dig: "list_all is_digit ?fr" using show_nat_digits [of "mt mod 10 ^ k"] by (auto simp: list_all_iff is_digit_def)
  have "digits_val (?whole @ ?fr) = mt div 10 ^ k * 10 ^ k + mt mod 10 ^ k"
    by (subst digits_val_append, subst len) (simp add: digits_val_append digits_val_zeros digits_val_show_nat)
  then have val: "digits_val (?whole @ ?fr) = mt" by (metis div_mult_mod_eq)
  have s: "k \<le> nat (- u)" "mant = mt * 10 ^ (nat (- u) - k)" using strip_zeros_spec [OF z] by auto
  have "rat_of_nat mt / 10 ^ k = of_nat mant * ten_pow u"
  proof -
    have "(10 :: rat) ^ nat (- u) = 10 ^ k * 10 ^ (nat (- u) - k)" using s(1) by (simp flip: power_add)
    then show ?thesis using u by (simp add: ten_pow_def s(2))
  qed
  then show ?thesis using that [OF t _ _ show_nat_digits dig] len val by simp
qed

lemma show_magnitude_reads:
  assumes "0 < q" "CHR ''.'' \<in> set (show_magnitude q)"
  obtains whole fr where "show_magnitude q = point_text whole fr" "whole \<noteq> []" "fr \<noteq> []" "list_all is_digit whole" "list_all is_digit fr"
    "parse_f64 (show_magnitude q) = Some (Num q)"
proof -
  obtain mant u where m: "(mant, u) \<in> set (List.map_filter (digits_try q) [1..<18])" "show_magnitude q = show_scaled mant u"
    using assms(2) by (cases "List.map_filter (digits_try q) [1..<18]") (auto simp: show_magnitude_def)
  then obtain n where n: "digits_try q n = Some (mant, u)" by (auto simp: List.map_filter_def)
  have pos: "0 \<le> q / ten_pow u" for u using assms(1) by (simp add: ten_pow_def)
  have "fround F64 (of_nat mant * ten_pow u) = Num q"
    using n pos [of u] by (auto simp: digits_try_def Let_def split: if_splits)
  moreover obtain whole fr where w: "show_scaled mant u = point_text whole fr" "whole \<noteq> []" "fr \<noteq> []" "list_all is_digit whole" "list_all is_digit fr"
    "rat_of_nat (digits_val (whole @ fr)) / 10 ^ length fr = of_nat mant * ten_pow u"
    using show_scaled_point assms(2) m(2) by metis
  moreover have "takeWhile is_digit (whole @ CHR ''.'' # fr) = whole" using while_append [of is_digit whole "CHR ''.'' # fr"] w(4) by (simp add: is_digit_def)
  ultimately have "parse_f64 (show_magnitude q) = Some (Num q)" using m(2) by (simp add: parse_f64_def point_text_def Let_def)
  then show ?thesis using that w m(2) by metis
qed

subsection \<open>Literals\<close>

text \<open>A float is printed in a form that the grammar takes for a float only if its text has a point.\<close>

definition has_point :: "f64 \<Rightarrow> bool" where
  "has_point x \<longleftrightarrow> CHR ''.'' \<in> set (show_f64 x)"

fun printable_literal :: "literal \<Rightarrow> bool" where
  "printable_literal (LFloat x) = (fnonneg x \<and> has_point x)"
| "printable_literal v = wf_literal v"

lemma keyword_fails:
  assumes "is_digit (hd f)" "f \<noteq> []"
  shows "soft (string_literal doc_nom (sp b f))" "soft (boolean_literal doc_nom (sp b f))" "soft (null_literal doc_nom (sp b f))"
proof -
  obtain c g where f: "f = c # g" "is_digit c" using assms by (cases f) auto
  then have "c \<noteq> CHR 0x27" "c \<noteq> CHR ''t''" "c \<noteq> CHR ''f''" "c \<noteq> CHR ''n''" by (auto simp: is_digit_def)
  then show "soft (string_literal doc_nom (sp b f))" "soft (boolean_literal doc_nom (sp b f))" "soft (null_literal doc_nom (sp b f))"
    unfolding f(1) by (simp_all add: quoted_fails boolean_literal_def null_literal_def doc_simps doc_alt.simps doc_map_def doc_tag_sp starts_with_def)
qed

lemma float_reads:
  assumes "whole \<noteq> []" "fr \<noteq> []" "list_all is_digit whole" "list_all is_digit fr" "head_not is_digit k"
    "parse_f64 (point_text whole fr) = Some x"
  shows "float_literal doc_nom (sp b (point_text whole fr @ k)) = Inr (sp (b @ point_text whole fr) k, x)"
proof -
  have "doc_while1 is_digit (sp b (whole @ CHR ''.'' # fr @ k)) = Inr (sp (b @ whole) (CHR ''.'' # fr @ k), sp b whole)"
    by (rule digits_reads) (use assms in \<open>simp_all add: is_digit_def\<close>)
  moreover have "doc_while1 is_digit (sp (b @ whole @ ''.'') (fr @ k)) = Inr (sp (b @ whole @ ''.'' @ fr) k, sp (b @ whole @ ''.'') fr)"
    using digits_reads [OF assms(2,4,5), of "b @ whole @ ''.''"] by simp
  ultimately show ?thesis using assms(6)
    by (simp add: float_literal_def doc_simps doc_map_res_def doc_recognize_def doc_tuple3_def doc_tuple2_def doc_tag_sp starts_with_def point_text_def)
qed

lemma float_fails:
  assumes "w \<noteq> []" "list_all is_digit w" "head_not is_digit k" "head_not (\<lambda>c. c = CHR ''.'') k"
  shows "soft (float_literal doc_nom (sp b (w @ k)))"
  using digits_reads [OF assms(1-3), of b] assms(4)
  by (cases k) (auto simp: float_literal_def doc_simps doc_map_res_def doc_recognize_def doc_tuple3_def doc_tuple2_def doc_tag_sp starts_with_def)

lemma number_fails: "head_not is_digit f \<Longrightarrow> soft (float_literal doc_nom (sp b f))" "head_not is_digit f \<Longrightarrow> soft (integer_literal doc_nom (sp b f))"
  using head_not_while [of is_digit f]
  by (simp_all add: float_literal_def integer_literal_def doc_simps doc_map_res_def doc_recognize_def doc_tuple3_def doc_tuple2_def while1_sp)

lemma literal_alts: "literal_p doc_nom s =
    doc_alt [doc_map (string_literal doc_nom) LString, doc_map (boolean_literal doc_nom) LBoolean, doc_map (float_literal doc_nom) LFloat,
      doc_map (integer_literal doc_nom) LInteger, null_literal doc_nom] s"
  by (simp add: literal_p_def doc_simps)

lemma soft_map [simp]: "soft (p s) \<Longrightarrow> soft (doc_map p f s)"
  by (simp add: doc_map_def)

lemma map_Inr: "p s = Inr (t, x) \<Longrightarrow> doc_map p f s = Inr (t, f x)"
  by (simp add: doc_map_def)

lemma literal_reads:
  assumes "printable_literal v" "ends k"
  shows "literal_p doc_nom (sp b (show_literal v @ k)) = Inr (sp (b @ show_literal v) k, v)"
proof (cases v)
  case (LString s)
  then show ?thesis using assms quoted_reads [of s b k] by (simp add: literal_alts doc_alt.simps map_Inr)
next
  case (LInteger i)
  let ?w = "show_nat (nat i)"
  have k: "head_not is_digit k" "head_not (\<lambda>c. c = CHR ''.'') k"
    using ends_head_not(2) [OF assms(2)] assms(2) by (simp, cases k, auto)
  have h: "is_digit (hd (?w @ k))" using show_nat_head by simp
  have i: "0 \<le> i" "nat i < 2 ^ 63" using assms(1) LInteger by auto
  have "integer_literal doc_nom (sp b (?w @ k)) = Inr (sp (b @ ?w) k, i)"
    unfolding integer_literal_def doc_simps doc_recognize_while1 doc_map_res_def
    using i by (simp add: digits_reads show_nat_digits k parse_i64_show)
  then show ?thesis using LInteger i keyword_fails [OF h, of b] float_fails [OF show_nat_nonempty show_nat_digits k, of b]
    by (simp add: literal_alts doc_alt.simps map_Inr show_int_def)
next
  case (LFloat x)
  then have x: "fnonneg x" "has_point x" using assms(1) by auto
  then obtain q where q: "x = Num q" "0 < q" by (cases x) (auto simp: has_point_def split: if_splits)
  then have p: "CHR ''.'' \<in> set (show_magnitude q)" using x by (simp add: has_point_def)
  obtain whole fr where w: "show_magnitude q = point_text whole fr" "whole \<noteq> []" "fr \<noteq> []" "list_all is_digit whole" "list_all is_digit fr"
    "parse_f64 (show_magnitude q) = Some (Num q)" using show_magnitude_reads [OF q(2) p] .
  have "is_digit (hd (point_text whole fr @ k))" using w(2,4) by (cases whole) (auto simp: point_text_def)
  then show ?thesis using LFloat q w keyword_fails [of "point_text whole fr @ k" b] float_reads [OF w(2-5), of k x b] ends_head_not(2) [OF assms(2)]
    by (simp add: literal_alts doc_alt.simps map_Inr point_text_def)
next
  case (LBoolean t)
  have "boolean_literal doc_nom (sp b (show_literal v @ k)) = Inr (sp (b @ show_literal v) k, t)"
    using LBoolean by (cases t) (simp_all add: boolean_literal_def doc_simps doc_alt.simps doc_map_def doc_tag_sp starts_with_def)
  then show ?thesis using LBoolean quoted_fails [of "show_literal v @ k" b] by (cases t) (simp_all add: literal_alts doc_alt.simps map_Inr)
next
  case LNull
  then show ?thesis using quoted_fails [of "''null'' @ k" b] number_fails [of "''null'' @ k" b]
    by (simp add: literal_alts doc_alt.simps is_digit_def null_literal_def boolean_literal_def doc_simps doc_map_def doc_tag_sp starts_with_def)
qed

subsection \<open>Lists\<close>

lemma char_facts [simp]:
  "\<not> is_word (CHR '' '')" "\<not> is_word (CHR '','')" "\<not> is_word (CHR '')'')" "\<not> is_word (CHR ''('')" "\<not> is_word (CHR 0x0A)"
  "is_space (CHR '' '')" "is_space (CHR 0x0A)" "\<not> is_space (CHR '','')" "\<not> is_space (CHR '')'')" "\<not> is_space (CHR ''('')" "\<not> is_space (CHR 0x27)"
  "\<not> is_start (CHR '')'')" "\<not> is_digit (CHR '')'')" "\<not> is_digit (CHR 0x0A)" "\<not> is_digit (CHR ''m'')"
  by (simp_all add: char_class_defs)

lemma ws_none: "head_not is_space f \<Longrightarrow> ws doc_nom (sp b f) = Inr (sp b f, sp b [])"
  using head_not_while [of is_space f] by (simp add: ws_sp)

lemma ws_one: "head_not is_space f \<Longrightarrow> ws doc_nom (sp b (CHR '' '' # f)) = Inr (sp (b @ '' '') f, sp b '' '')"
  using head_not_while [of is_space f] by (simp add: ws_sp)

lemma comma_reads: "head_not is_space f \<Longrightarrow> \<exists>y. separator doc_nom '','' (sp b ('', '' @ f)) = Inr (sp (b @ '', '') f, y)"
  by (simp add: separator_def doc_simps doc_tuple3_def doc_tuple2_def doc_tag_sp starts_with_def ws_none ws_one)

lemma and_reads: "head_not is_space f \<Longrightarrow> \<exists>y. separator doc_nom ''AND'' (sp b ('' AND '' @ f)) = Inr (sp (b @ '' AND '') f, y)"
  by (simp add: separator_def doc_simps doc_tuple3_def doc_tuple2_def doc_tag_sp starts_with_def ws_one char_class_defs)

lemma many_reads:
  assumes el: "\<And>x r b. x \<in> set xs \<Longrightarrow> stop r \<Longrightarrow> p (sp b (s x @ r)) = Inr (sp (b @ s x) r, x)"
    and sep: "\<And>x r b. x \<in> set xs \<Longrightarrow> \<exists>y. sep (sp b (g @ s x @ r)) = Inr (sp (b @ g) (s x @ r), y)"
    and g: "\<And>r. stop (g @ r)" "stop k" "g \<noteq> []"
    and fin: "\<And>b. soft (doc_preceded sep p (sp b k))"
  shows "doc_many0 (doc_preceded sep p) (sp b (concat (map (\<lambda>x. g @ s x) xs) @ k)) = Inr (sp (b @ concat (map (\<lambda>x. g @ s x) xs)) k, xs)"
proof -
  have "length xs < n \<Longrightarrow> many_upto n (doc_preceded sep p) (sp b (concat (map (\<lambda>x. g @ s x) xs) @ k)) = Inr (sp (b @ concat (map (\<lambda>x. g @ s x) xs)) k, xs)" for n
    using el sep
  proof (induction xs arbitrary: b n)
    case Nil
    then show ?case using fin by (cases n) auto
  next
    case (Cons x xs)
    obtain m where n: "n = Suc m" using Cons.prems(1) by (cases n) auto
    let ?r = "concat (map (\<lambda>x. g @ s x) xs) @ k"
    have r: "stop ?r" using g by (cases xs) auto
    obtain y where "sep (sp b (g @ s x @ ?r)) = Inr (sp (b @ g) (s x @ ?r), y)" using Cons.prems(3) by fastforce
    then have "doc_preceded sep p (sp b (g @ s x @ ?r)) = Inr (sp (b @ g @ s x) ?r, x)"
      using Cons.prems(2) [of x ?r "b @ g"] r by (simp add: doc_preceded_def)
    then show ?case using n g(3) Cons.IH [of m "b @ g @ s x"] Cons.prems by (simp add: cons_p_def)
  qed
  moreover from g(3) have "0 < length g" by simp
  then have "length xs \<le> length (concat (map (\<lambda>x. g @ s x) xs))" by (induction xs) (simp_all del: length_greater_0_conv)
  ultimately show ?thesis by (simp add: doc_many0_def del: many_upto.simps)
qed

lemma join_simps [simp]: "join g [] = []" "join g (y # map s xs) = y @ concat (map (\<lambda>x. g @ s x) xs)"
  by (simp_all add: join_def comp_def)

lemma list1_reads:
  assumes el: "\<And>x r b. x \<in> set xs \<Longrightarrow> stop r \<Longrightarrow> p (sp b (s x @ r)) = Inr (sp (b @ s x) r, x)"
    and sep: "\<And>x r b. x \<in> set xs \<Longrightarrow> \<exists>y. sep (sp b (g @ s x @ r)) = Inr (sp (b @ g) (s x @ r), y)"
    and g: "\<And>r. stop (g @ r)" "stop k" "g \<noteq> []"
    and fin: "\<And>b. soft (doc_preceded sep p (sp b k))" and "xs \<noteq> []"
  shows "doc_separated_list1 sep p (sp b (join g (map s xs) @ k)) = Inr (sp (b @ join g (map s xs)) k, xs)"
proof -
  obtain x ys where xs: "xs = x # ys" using assms(7) by (cases xs) auto
  let ?r = "concat (map (\<lambda>x. g @ s x) ys) @ k"
  have "stop ?r" using g by (cases ys) auto
  then have "p (sp b (s x @ ?r)) = Inr (sp (b @ s x) ?r, x)" using el xs by simp
  moreover have "doc_many0 (doc_preceded sep p) (sp (b @ s x) ?r) = Inr (sp ((b @ s x) @ concat (map (\<lambda>x. g @ s x) ys)) k, ys)"
    by (rule many_reads [where stop = stop]) (use assms xs in auto)
  ultimately show ?thesis using xs by (simp add: doc_separated_list1_def cons_p_def)
qed

text \<open>A list in parentheses.\<close>

lemma parens_reads:
  assumes el: "\<And>x r b. x \<in> set xs \<Longrightarrow> ends r \<Longrightarrow> p (sp b (s x @ r)) = Inr (sp (b @ s x) r, x)"
    and sep: "\<And>x r. x \<in> set xs \<Longrightarrow> head_not is_space (s x @ r)"
    and fin: "\<And>b r. soft (p (sp b (CHR '')'' # r)))"
  shows "doc_delimited (doc_tag ''('') (doc_separated_list0 (separator doc_nom '','') p) (doc_tag '')'') (sp b (CHR ''('' # join '', '' (map s xs) @ CHR '')'' # k)) =
    Inr (sp (b @ ''('' @ join '', '' (map s xs) @ '')'') k, xs)"
proof -
  have no: "soft (doc_preceded (separator doc_nom '','') p (sp b (CHR '')'' # r)))" for b r
    by (simp add: doc_preceded_def separator_def doc_simps doc_tuple3_def doc_tuple2_def doc_tag_sp starts_with_def ws_none)
  have "doc_separated_list0 (separator doc_nom '','') p (sp b (join '', '' (map s xs) @ CHR '')'' # k)) = Inr (sp (b @ join '', '' (map s xs)) (CHR '')'' # k), xs)" for b
  proof (cases "xs = []")
    case True
    then show ?thesis using fin by (simp add: doc_separated_list0_def)
  next
    case False
    have l: "doc_separated_list1 (separator doc_nom '','') p (sp b (join '', '' (map s xs) @ CHR '')'' # k)) = Inr (sp (b @ join '', '' (map s xs)) (CHR '')'' # k), xs)"
      by (rule list1_reads [where stop = ends]) (use el sep no False comma_reads in auto)
    then have "\<not> soft (p (sp b (join '', '' (map s xs) @ CHR '')'' # k)))" by (metis doc_separated_list1_def pbind_simps(3) soft.simps(4))
    then show ?thesis using l by (simp add: doc_separated_list0_def)
  qed
  then show ?thesis by (simp add: doc_delimited_def doc_tag_sp starts_with_def)
qed

subsection \<open>Predicates\<close>

fun printable_simple :: "predicate \<Rightarrow> bool" where
  "printable_simple (Comparison f op v) = (ident f \<and> printable_literal v)"
| "printable_simple (In f vs) = (ident f \<and> list_all printable_literal vs)"
| "printable_simple (Between f l h) = (ident f \<and> printable_literal l \<and> printable_literal h)"
| "printable_simple (Like f p) = (ident f \<and> no_quote p)"
| "printable_simple (And ps) = False"

fun printable_pred :: "predicate \<Rightarrow> bool" where
  "printable_pred (And ps) = (2 \<le> length ps \<and> list_all printable_simple ps)"
| "printable_pred p = printable_simple p"

lemma printable_float_text:
  assumes "fnonneg x" "has_point x"
  shows "show_f64 x \<noteq> [] \<and> is_digit (hd (show_f64 x))"
proof -
  obtain q where q: "x = Num q" "0 < q" using assms by (cases x) (auto simp: has_point_def split: if_splits)
  then have p: "CHR ''.'' \<in> set (show_magnitude q)" using assms by (simp add: has_point_def)
  obtain whole fr where "show_magnitude q = point_text whole fr" "whole \<noteq> []" "list_all is_digit whole" using show_magnitude_reads [OF q(2) p] .
  then show ?thesis using q by (cases whole) (auto simp: point_text_def)
qed

lemma literal_head: "printable_literal v \<Longrightarrow> head_not is_space (show_literal v @ k)"
proof (cases v)
  case (LFloat x)
  assume "printable_literal v"
  then show ?thesis using LFloat printable_float_text [of x] start_not_space(2) by (auto simp: head_not_append)
next
  case (LInteger i)
  assume "printable_literal v"
  then show ?thesis using LInteger show_nat_head start_not_space(2) by (auto simp: show_int_def head_not_append)
qed (auto simp: quoted_def char_class_defs)

lemma literal_fails_paren: "soft (literal_p doc_nom (sp b (CHR '')'' # r)))"
  using quoted_fails [of "CHR '')'' # r" b] number_fails [of "CHR '')'' # r" b]
  by (simp add: literal_alts doc_alt.simps null_literal_def boolean_literal_def doc_simps doc_map_def doc_tag_sp starts_with_def)

lemma literals_read:
  assumes "list_all printable_literal vs"
  shows "delimited (at_literals doc_nom) (tag doc_nom ''('') (separated_list0 (at_literal doc_nom) (separator doc_nom '','') (literal_p doc_nom)) (tag doc_nom '')'')
      (sp b (CHR ''('' # join '', '' (map show_literal vs) @ CHR '')'' # k)) = Inr (sp (b @ ''('' @ join '', '' (map show_literal vs) @ '')'') k, vs)"
  unfolding doc_simps by (rule parens_reads) (use assms in \<open>auto simp: literal_reads literal_head literal_fails_paren list_all_iff\<close>)

lemma op_reads: "comparison_op_p doc_nom (sp b (show_op op @ CHR '' '' # k)) = Inr (sp (b @ show_op op) (CHR '' '' # k), op)"
  by (cases op) (simp_all add: comparison_op_p_def doc_simps doc_alt.simps doc_map_def doc_tag_sp starts_with_def)

lemma op_head: "head_not is_space (show_op op @ k)" "\<not> starts_with (show_op op @ k) ''IN''" "\<not> starts_with (show_op op @ k) ''BETWEEN''"
    "\<not> starts_with (show_op op @ k) ''LIKE''"
  by (cases op; simp add: char_class_defs starts_with_def)+

text \<open>A field name and the space after it.\<close>

lemma field_reads: "ident f \<Longrightarrow> head_not is_space k \<Longrightarrow>
    pbind (identifier_p doc_nom (sp b (f @ CHR '' '' # k))) (\<lambda>input field. pbind (ws doc_nom input) (\<lambda>input _. g input field)) = g (sp (b @ f @ '' '') k) f"
  by (simp add: ident_reads ws_one)

definition predicate_p :: "predicate parser" where
  "predicate_p = doc_alt [in_predicate doc_nom, between_predicate doc_nom, like_predicate doc_nom, comparison_predicate doc_nom]"

lemma predicate_head: "printable_simple p \<Longrightarrow> head_not is_space (show_predicate p @ k)"
  by (cases p) auto

lemma predicate_reads:
  assumes "printable_simple p" "ends k"
  shows "predicate_p (sp b (show_predicate p @ k)) = Inr (sp (b @ show_predicate p) k, p)"
proof (cases p)
  case (Comparison f op v)
  let ?s = "sp b (f @ CHR '' '' # show_op op @ CHR '' '' # show_literal v @ k)"
  have "soft (in_predicate doc_nom ?s)" "soft (between_predicate doc_nom ?s)" "soft (like_predicate doc_nom ?s)"
    using assms Comparison by (simp_all add: in_predicate_def between_predicate_def like_predicate_def field_reads op_head tag_sp)
  moreover have "comparison_predicate doc_nom ?s = Inr (sp (b @ show_predicate p) k, p)"
    using assms Comparison by (simp add: comparison_predicate_def field_reads op_head op_reads ws_one literal_head literal_reads)
  ultimately show ?thesis using Comparison by (simp add: predicate_p_def doc_alt.simps)
next
  case (In f vs)
  then have "in_predicate doc_nom (sp b (show_predicate p @ k)) = Inr (sp (b @ show_predicate p) k, p)"
    using assms literals_read [of vs] by (simp add: in_predicate_def field_reads tag_sp starts_with_def ws_one char_class_defs)
  then show ?thesis by (simp add: predicate_p_def doc_alt.simps)
next
  case (Between f l h)
  let ?s = "sp b (show_predicate p @ k)"
  have "soft (in_predicate doc_nom ?s)"
    using assms Between by (simp add: in_predicate_def field_reads tag_sp starts_with_def char_class_defs)
  moreover have "between_predicate doc_nom ?s = Inr (sp (b @ show_predicate p) k, p)"
    using assms Between by (simp add: between_predicate_def field_reads tag_sp starts_with_def ws_one literal_head literal_reads char_class_defs)
  ultimately show ?thesis by (simp add: predicate_p_def doc_alt.simps)
next
  case (Like f t)
  let ?s = "sp b (show_predicate p @ k)"
  have q: "head_not is_space (quoted t @ k)" by (simp add: quoted_def)
  have "soft (in_predicate doc_nom ?s)" "soft (between_predicate doc_nom ?s)"
    using assms Like by (simp_all add: in_predicate_def between_predicate_def field_reads tag_sp starts_with_def char_class_defs)
  moreover have "like_predicate doc_nom ?s = Inr (sp (b @ show_predicate p) k, p)"
    using assms Like q by (simp add: like_predicate_def field_reads tag_sp starts_with_def ws_one quoted_reads char_class_defs)
  ultimately show ?thesis by (simp add: predicate_p_def doc_alt.simps)
qed (use assms in simp)

subsection \<open>Clauses\<close>

fun show_clause :: "parsed_clause \<Rightarrow> string" where
  "show_clause (MetadataWhere ps) = clause ''WITH METADATA WHERE'' show_where (Some ps)"
| "show_clause (ProjectOn ps) = clause ''PROJECT ON'' show_project_on (Some ps)"
| "show_clause (BiasClause v) = clause ''BIAS'' show_bias (Some v)"
| "show_clause (OrderBy v) = clause ''ORDER BY'' show_order_by (Some v)"
| "show_clause (LimitClause n) = clause ''LIMIT'' (\<lambda>n. show_nat (unat n)) (Some n)"
| "show_clause (OffsetClause n) = clause ''OFFSET'' (\<lambda>n. show_nat (unat n)) (Some n)"
| "show_clause (Within n) = clause ''WITHIN'' (\<lambda>n. show_nat (unat n) @ ''ms'') (Some n)"

fun printable_clause :: "parsed_clause \<Rightarrow> bool" where
  "printable_clause (MetadataWhere ps) = (case ps of [p] \<Rightarrow> printable_pred p | _ \<Rightarrow> False)"
| "printable_clause (OrderBy v) = (ident (ob_scoring_fn v) \<and> list_all ident (ob_args v))"
| "printable_clause c = wf_clause c"

text \<open>What follows a clause: nothing, or the line of the next clause, which starts with one of five letters.\<close>

definition next_clause :: "string \<Rightarrow> bool" where
  "next_clause k \<longleftrightarrow> k = [] \<or> (\<exists>c r. k = [CHR 0x0A, CHR '' '', CHR '' '', c] @ r \<and> c \<in> {CHR ''W'', CHR ''P'', CHR ''B'', CHR ''O'', CHR ''L''})"

lemma next_clause_Nil [simp]: "next_clause []"
  by (simp add: next_clause_def)

lemma next_clause_show [simp]: "next_clause (show_clause c @ k)"
  by (cases c) (simp_all add: next_clause_def clause_def)

lemma next_clause_ends: "next_clause k \<Longrightarrow> ends k"
  by (auto simp: next_clause_def)

lemma letters_facts: "c \<in> {CHR ''W'', CHR ''P'', CHR ''B'', CHR ''O'', CHR ''L''} \<Longrightarrow> \<not> is_space c \<and> c \<noteq> CHR '','' \<and> c \<noteq> CHR ''A'' \<and> c \<noteq> CHR ''D'' \<and> c \<noteq> CHR ''(''"
  by (auto simp: is_space_def)

lemma next_clause_ws:
  assumes "next_clause k"
  obtains s r where "ws doc_nom (sp b k) = Inr (sp s r, sp b (take (length k - length r) k))" "head_not is_space r"
    "\<And>t. t \<in> {'','', ''AND'', ''AS'', ''ASC'', ''DESC'', ''(''} \<Longrightarrow> \<not> starts_with r t"
proof (cases "k = []")
  case True
  then show ?thesis by (intro that [of b "[]"]) (auto simp: ws_sp starts_with_def)
next
  case False
  then obtain c r where k: "k = [CHR 0x0A, CHR '' '', CHR '' '', c] @ r" "c \<in> {CHR ''W'', CHR ''P'', CHR ''B'', CHR ''O'', CHR ''L''}"
    using assms by (auto simp: next_clause_def)
  have c: "\<not> is_space c" "c \<noteq> CHR '',''" "c \<noteq> CHR ''A''" "c \<noteq> CHR ''D''" "c \<noteq> CHR ''(''" using letters_facts [OF k(2)] by auto
  show ?thesis by (rule that [of "b @ [CHR 0x0A, CHR '' '', CHR '' '']" "c # r"]) (use k(1) c in \<open>auto simp: ws_sp starts_with_def\<close>)
qed

lemma next_clause_fails:
  assumes "next_clause k"
  shows "t \<in> {'','', ''AND''} \<Longrightarrow> soft (doc_preceded (separator doc_nom t) p (sp b k))"
    and "t \<in> {''AS'', ''(''} \<Longrightarrow> soft (doc_preceded (ws doc_nom) (doc_tag t) (sp b k))"
    and "doc_opt (doc_preceded (ws doc_nom) (doc_alt [doc_map (doc_tag ''DESC'') (\<lambda>_. True), doc_map (doc_tag ''ASC'') (\<lambda>_. False)])) (sp b k) = Inr (sp b k, None)"
proof -
  obtain s r where w: "ws doc_nom (sp b k) = Inr (sp s r, sp b (take (length k - length r) k))"
    "\<And>t. t \<in> {'','', ''AND'', ''AS'', ''ASC'', ''DESC'', ''(''} \<Longrightarrow> \<not> starts_with r t" using next_clause_ws [OF assms] by metis
  show "t \<in> {'','', ''AND''} \<Longrightarrow> soft (doc_preceded (separator doc_nom t) p (sp b k))"
    using w(2) [of t] by (auto simp: doc_preceded_def separator_def doc_simps doc_tuple3_def doc_tuple2_def w(1) doc_tag_sp)
  show "t \<in> {''AS'', ''(''} \<Longrightarrow> soft (doc_preceded (ws doc_nom) (doc_tag t) (sp b k))"
    using w(2) [of t] by (auto simp: doc_preceded_def w(1) doc_tag_sp)
  show "doc_opt (doc_preceded (ws doc_nom) (doc_alt [doc_map (doc_tag ''DESC'') (\<lambda>_. True), doc_map (doc_tag ''ASC'') (\<lambda>_. False)])) (sp b k) = Inr (sp b k, None)"
    using w(2) [of "''DESC''"] w(2) [of "''ASC''"] by (simp add: doc_opt_def doc_preceded_def w(1) doc_alt.simps doc_map_def doc_tag_sp)
qed

lemma where_reads:
  assumes "printable_pred p" "next_clause k"
  shows "and_expression doc_nom (sp b (show_predicate p @ k)) = Inr (sp (b @ show_predicate p) k, p)"
proof -
  have l: "doc_separated_list1 (separator doc_nom ''AND'') predicate_p (sp b (join '' AND '' (map show_predicate ps) @ k)) =
      Inr (sp (b @ join '' AND '' (map show_predicate ps)) k, ps)" if "ps \<noteq> []" "list_all printable_simple ps" for ps
  proof (rule list1_reads [where stop = ends])
    fix x r b assume "x \<in> set ps"
    then have x: "printable_simple x" using that(2) by (simp add: list_all_iff)
    then show "ends r \<Longrightarrow> predicate_p (sp b (show_predicate x @ r)) = Inr (sp (b @ show_predicate x) r, x)" by (rule predicate_reads)
    show "\<exists>y. separator doc_nom ''AND'' (sp b ('' AND '' @ show_predicate x @ r)) = Inr (sp (b @ '' AND '') (show_predicate x @ r), y)"
      by (rule and_reads [OF predicate_head [OF x]])
  next
    show "soft (doc_preceded (separator doc_nom ''AND'') predicate_p (sp b k))" for b by (rule next_clause_fails(1) [OF assms(2)]) simp
  qed (use that next_clause_ends [OF assms(2)] in simp_all)
  show ?thesis
  proof (cases "\<exists>ps. p = And ps")
    case True
    then obtain ps where p: "p = And ps" "2 \<le> length ps" "list_all printable_simple ps" using assms(1) by auto
    then have "ps \<noteq> []" by auto
    then show ?thesis using l [of ps] p by (simp add: and_expression_def doc_simps predicate_p_def)
  next
    case False
    then have "printable_simple p" using assms(1) by (cases p) auto
    then show ?thesis using l [of "[p]"] by (simp add: and_expression_def doc_simps predicate_p_def join_def)
  qed
qed

lemma idents_read:
  assumes "list_all ident ws'"
  shows "delimited (at_strings doc_nom) (tag doc_nom ''('') (separated_list0 (at_string doc_nom) (separator doc_nom '','') (identifier_p doc_nom)) (tag doc_nom '')'')
      (sp b (CHR ''('' # join '', '' ws' @ CHR '')'' # k)) = Inr (sp (b @ ''('' @ join '', '' ws' @ '')'') k, ws')"
    and "delimited (at_strings doc_nom) (tag doc_nom ''('') (separated_list0 (at_string doc_nom) (separator doc_nom '','') (order_by_arg doc_nom)) (tag doc_nom '')'')
      (sp b (CHR ''('' # join '', '' ws' @ CHR '')'' # k)) = Inr (sp (b @ ''('' @ join '', '' ws' @ '')'') k, ws')"
proof -
  have i: "identifier_p doc_nom (sp b (w @ r)) = Inr (sp (b @ w) r, w)" if "w \<in> set ws'" "ends r" for w r b
    using that assms by (intro ident_reads ends_head_not) (auto simp: list_all_iff)
  have h: "head_not (\<lambda>c. c = CHR 0x27) (w @ r)" if "w \<in> set ws'" for w r
    using that assms by (auto simp: list_all_iff ident_def head_not_append char_class_defs dest!: bspec)
  have o: "order_by_arg doc_nom (sp b (w @ r)) = Inr (sp (b @ w) r, w)" if "w \<in> set ws'" "ends r" for w r b
    using i [OF that, of b] quoted_fails [OF h [OF that(1)], of b r] by (simp add: order_by_arg_def doc_simps doc_alt.simps)
  have f: "soft (identifier_p doc_nom (sp b (CHR '')'' # r)))" "soft (order_by_arg doc_nom (sp b (CHR '')'' # r)))" for b r
    using ident_fails [of "CHR '')'' # r" b] quoted_fails [of "CHR '')'' # r" b] by (simp_all add: order_by_arg_def doc_simps doc_alt.simps)
  show "delimited (at_strings doc_nom) (tag doc_nom ''('') (separated_list0 (at_string doc_nom) (separator doc_nom '','') (identifier_p doc_nom)) (tag doc_nom '')'')
      (sp b (CHR ''('' # join '', '' ws' @ CHR '')'' # k)) = Inr (sp (b @ ''('' @ join '', '' ws' @ '')'') k, ws')"
    unfolding doc_simps using parens_reads [where s = id and xs = ws' and p = "identifier_p doc_nom"] i f assms by (auto simp: list_all_iff)
  show "delimited (at_strings doc_nom) (tag doc_nom ''('') (separated_list0 (at_string doc_nom) (separator doc_nom '','') (order_by_arg doc_nom)) (tag doc_nom '')'')
      (sp b (CHR ''('' # join '', '' ws' @ CHR '')'' # k)) = Inr (sp (b @ ''('' @ join '', '' ws' @ '')'') k, ws')"
    unfolding doc_simps using parens_reads [where s = id and xs = ws' and p = "order_by_arg doc_nom"] o f assms by (auto simp: list_all_iff)
qed

lemma projection_alts: "projection_p doc_nom s = doc_preceded (ws doc_nom) (doc_alt
    [doc_map (doc_tuple4 (identifier_p doc_nom) (doc_preceded (ws doc_nom) (doc_tag ''('')) (doc_preceded (ws doc_nom) (identifier_p doc_nom))
       (doc_preceded (ws doc_nom) (doc_tag '')''))) (\<lambda>(name, _, field, _). PFunction name field),
     doc_map (doc_tuple3 (identifier_p doc_nom) (doc_preceded (ws doc_nom) (doc_tag ''AS'')) (doc_preceded (ws doc_nom) (identifier_p doc_nom)))
       (\<lambda>(field, _, alias). PAliased field alias),
     doc_map (identifier_p doc_nom) PField]) s"
  by (simp add: projection_p_def doc_simps)

lemmas steps_def = doc_preceded_def doc_map_def doc_tuple4_def doc_tuple3_def doc_tuple2_def

lemma projection_reads:
  assumes "wf_projection p" "next_clause k \<or> (\<exists>r. k = CHR '','' # r)"
  shows "projection_p doc_nom (sp b (show_projection p @ k)) = Inr (sp (b @ show_projection p) k, p)"
proof -
  have k: "ends k" using assms(2) next_clause_ends by auto
  have no: "soft (doc_preceded (ws doc_nom) (doc_tag t) (sp b k))" if "t \<in> {''AS'', ''(''}" for t b
    using assms(2)
  proof
    assume "next_clause k"
    then show ?thesis using that next_clause_fails(2) by metis
  next
    assume "\<exists>r. k = CHR '','' # r"
    then show ?thesis using that by (auto simp: doc_preceded_def ws_none doc_tag_sp starts_with_def)
  qed
  have wk: "head_not is_word k" by (rule ends_head_not(1) [OF k])
  show ?thesis
  proof (cases p)
    case (PField n)
    then show ?thesis using assms(1) wk no [of "''(''"] no [of "''AS''"]
      by (simp add: projection_alts doc_preceded_def [of "ws doc_nom" "doc_alt _"] doc_map_def doc_tuple4_def doc_tuple3_def doc_tuple2_def doc_alt.simps ws_none ident_reads)
  next
    case (PAliased f a)
    then show ?thesis using assms(1) wk
      by (simp add: projection_alts steps_def doc_alt.simps ws_none ws_one ident_reads doc_tag_sp starts_with_def char_class_defs)
  next
    case (PFunction n f)
    then show ?thesis using assms(1)
      by (simp add: projection_alts steps_def doc_alt.simps ws_none ident_reads doc_tag_sp starts_with_def)
  qed
qed

lemma projections_read:
  assumes "ps \<noteq> []" "list_all wf_projection ps" "next_clause k"
  shows "separated_list1 (at_projection doc_nom) (separator doc_nom '','') (projection_p doc_nom) (sp b (show_project_on ps @ k)) = Inr (sp (b @ show_project_on ps) k, ps)"
  unfolding doc_simps show_project_on_def
proof (rule list1_reads [where stop = "\<lambda>k. next_clause k \<or> (\<exists>r. k = CHR '','' # r)"])
  fix x r b assume "x \<in> set ps"
  then have x: "wf_projection x" using assms(2) by (simp add: list_all_iff)
  then show "next_clause r \<or> (\<exists>r'. r = CHR '','' # r') \<Longrightarrow> projection_p doc_nom (sp b (show_projection x @ r)) = Inr (sp (b @ show_projection x) r, x)"
    by (rule projection_reads)
  have "head_not is_space (show_projection x @ r)" using x by (cases x) auto
  then show "\<exists>y. separator doc_nom '','' (sp b ('', '' @ show_projection x @ r)) = Inr (sp (b @ '', '') (show_projection x @ r), y)" by (rule comma_reads)
next
  show "soft (doc_preceded (separator doc_nom '','') (projection_p doc_nom) (sp b k))" for b by (rule next_clause_fails(1) [OF assms(3)]) simp
qed (use assms in auto)

lemma any_clause_alts: "parse_any_clause doc_nom s = doc_alt
    [doc_map (metadata_where_clause doc_nom) MetadataWhere, doc_map (project_on_clause doc_nom) ProjectOn, doc_map (bias_clause_p doc_nom) BiasClause,
     doc_map (order_by_clause doc_nom) OrderBy, doc_map (limit_clause doc_nom) LimitClause, doc_map (offset_clause doc_nom) OffsetClause,
     doc_map (within_clause doc_nom) Within, doc_map (en_clause doc_nom) Within] s"
  by (simp add: parse_any_clause_def doc_simps)

text \<open>A clause is recognised by its first keyword.\<close>

lemma keyword_soft:
  "\<not> starts_with f ''WITH'' \<Longrightarrow> soft (metadata_where_clause doc_nom (sp b f))" "\<not> starts_with f ''PROJECT'' \<Longrightarrow> soft (project_on_clause doc_nom (sp b f))"
  "\<not> starts_with f ''BIAS'' \<Longrightarrow> soft (bias_clause_p doc_nom (sp b f))" "\<not> starts_with f ''ORDER'' \<Longrightarrow> soft (order_by_clause doc_nom (sp b f))"
  "\<not> starts_with f ''LIMIT'' \<Longrightarrow> soft (limit_clause doc_nom (sp b f))" "\<not> starts_with f ''OFFSET'' \<Longrightarrow> soft (offset_clause doc_nom (sp b f))"
  by (simp_all add: metadata_where_clause_def project_on_clause_def bias_clause_p_def order_by_clause_def limit_clause_def offset_clause_def tag_sp)

lemma number_head: "head_not is_space (show_nat n @ k)"
  using show_nat_head start_not_space(2) by (auto simp: head_not_append)

definition clause_text :: "parsed_clause \<Rightarrow> string" where
  "clause_text c = drop 3 (show_clause c)"

lemma show_clause_text: "show_clause c = [CHR 0x0A, CHR '' '', CHR '' ''] @ clause_text c"
  by (cases c) (simp_all add: clause_text_def clause_def)

lemmas clause_text_simps = clause_text_def clause_def starts_with_def

lemma metadata_where_reads:
  assumes "printable_pred p" "next_clause k"
  shows "metadata_where_clause doc_nom (sp b (clause_text (MetadataWhere [p]) @ k)) = Inr (sp (b @ clause_text (MetadataWhere [p])) k, [p])"
proof -
  have "head_not is_space (show_predicate p @ k)" using assms(1) predicate_head
    by (cases p) (auto simp: neq_Nil_conv Suc_le_length_iff numeral_2_eq_2 join_def)
  then show ?thesis using where_reads [OF assms]
    by (simp add: metadata_where_clause_def clause_text_simps show_where_def join_def tag_sp ws_one char_class_defs)
qed

lemma project_on_reads:
  assumes "ps \<noteq> []" "list_all wf_projection ps" "next_clause k"
  shows "project_on_clause doc_nom (sp b (clause_text (ProjectOn ps) @ k)) = Inr (sp (b @ clause_text (ProjectOn ps)) k, ps)"
proof -
  have "head_not is_space (show_project_on ps @ k)" using assms by (cases ps; cases "hd ps") (auto simp: show_project_on_def)
  then show ?thesis using projections_read [OF assms]
    by (simp add: project_on_clause_def clause_text_simps tag_sp ws_one char_class_defs)
qed

lemma bias_reads:
  assumes "printable_clause (BiasClause v)"
  shows "bias_clause_p doc_nom (sp b (clause_text (BiasClause v) @ k)) = Inr (sp (b @ clause_text (BiasClause v)) k, v)"
  using assms idents_read(1) [of "bc_args v"]
  by (simp add: bias_clause_p_def clause_text_simps show_bias_def show_call_def tag_sp ws_one ident_reads)

lemma order_by_reads:
  assumes "printable_clause (OrderBy v)" "next_clause k"
  shows "order_by_clause doc_nom (sp b (clause_text (OrderBy v) @ k)) = Inr (sp (b @ clause_text (OrderBy v)) k, v)"
proof -
  have "opt (at_bool doc_nom) (preceded (at_bool doc_nom) (ws doc_nom) (alt (at_bool doc_nom) [value_p (at_bool doc_nom) True (tag doc_nom ''DESC''),
      value_p (at_bool doc_nom) False (tag doc_nom ''ASC'')])) (sp b ((if ob_descending v then '' DESC'' else []) @ k)) =
      Inr (sp (b @ (if ob_descending v then '' DESC'' else [])) k, if ob_descending v then Some True else None)" for b
    using next_clause_fails(3) [OF assms(2), of b]
    by (cases "ob_descending v") (simp_all add: doc_simps doc_opt_def doc_preceded_def ws_one char_class_defs doc_alt.simps doc_map_def doc_tag_sp starts_with_def)
  then show ?thesis using assms(1) idents_read(2) [of "ob_args v"]
    by (simp add: order_by_clause_def clause_text_simps show_order_by_def show_call_def tag_sp ws_one ident_reads char_class_defs)
qed

lemma clause_reads:
  assumes "printable_clause c" "next_clause k"
  shows "parse_any_clause doc_nom (sp b (clause_text c @ k)) = Inr (sp (b @ clause_text c) k, c)"
proof (cases c)
  case (MetadataWhere ps)
  then show ?thesis using assms(1) metadata_where_reads [OF _ assms(2)]
    by (auto simp: any_clause_alts doc_alt.simps map_Inr split: list.splits)
next
  case (ProjectOn ps)
  then have "soft (metadata_where_clause doc_nom (sp b (clause_text c @ k)))" by (simp add: clause_text_simps keyword_soft)
  then show ?thesis using ProjectOn assms(1) project_on_reads [OF _ _ assms(2)] by (simp add: any_clause_alts doc_alt.simps map_Inr)
next
  case (BiasClause v)
  then have "soft (metadata_where_clause doc_nom (sp b (clause_text c @ k)))" "soft (project_on_clause doc_nom (sp b (clause_text c @ k)))"
    by (simp_all add: clause_text_simps keyword_soft)
  then show ?thesis using BiasClause assms(1) bias_reads by (simp add: any_clause_alts doc_alt.simps map_Inr)
next
  case (OrderBy v)
  then have "soft (metadata_where_clause doc_nom (sp b (clause_text c @ k)))" "soft (project_on_clause doc_nom (sp b (clause_text c @ k)))"
      "soft (bias_clause_p doc_nom (sp b (clause_text c @ k)))"
    by (simp_all add: clause_text_simps keyword_soft)
  then show ?thesis using OrderBy assms(1) order_by_reads [OF _ assms(2)] by (simp add: any_clause_alts doc_alt.simps map_Inr)
next
  case (LimitClause n)
  then show ?thesis using ends_head_not(2) [OF next_clause_ends [OF assms(2)]]
    by (simp add: any_clause_alts doc_alt.simps doc_map_def keyword_soft clause_text_simps limit_clause_def tag_sp ws_one number_head u64_reads)
next
  case (OffsetClause n)
  then show ?thesis using ends_head_not(2) [OF next_clause_ends [OF assms(2)]]
    by (simp add: any_clause_alts doc_alt.simps doc_map_def keyword_soft clause_text_simps offset_clause_def tag_sp ws_one number_head u64_reads)
next
  case (Within n)
  then have "soft (metadata_where_clause doc_nom (sp b (clause_text c @ k)))"
    by (simp add: metadata_where_clause_def clause_text_simps tag_sp ws_none char_class_defs)
  then show ?thesis using Within
    by (simp add: any_clause_alts doc_alt.simps doc_map_def keyword_soft clause_text_simps within_clause_def tag_sp ws_one number_head u64_reads)
qed

subsection \<open>Queries\<close>

fun clause_kind :: "parsed_clause \<Rightarrow> nat" where
  "clause_kind (MetadataWhere _) = 0" | "clause_kind (ProjectOn _) = 1" | "clause_kind (BiasClause _) = 2" | "clause_kind (OrderBy _) = 3"
| "clause_kind (LimitClause _) = 4" | "clause_kind (OffsetClause _) = 5" | "clause_kind (Within _) = 6"

lemma is_some_set: "clause_is_some c (set_clause d q) \<longleftrightarrow> clause_kind c = clause_kind d \<or> clause_is_some c q"
  by (cases c; cases d; simp)

lemma set_commute: "clause_kind c \<noteq> clause_kind d \<Longrightarrow> set_clause c (set_clause d q) = set_clause d (set_clause c q)"
  by (cases c; cases d; simp)

lemma loop_reads:
  "list_all printable_clause cs \<Longrightarrow> distinct (map clause_kind cs) \<Longrightarrow> \<forall>c\<in>set cs. \<not> clause_is_some c q \<Longrightarrow>
    clause_loop doc_nom (sp b (concat (map show_clause cs))) q = Some (Inr (sp (b @ concat (map show_clause cs)) [], fold set_clause cs q))"
proof (induction cs arbitrary: b q)
  case Nil
  then show ?case by (simp add: clause_loop.simps [of _ "sp b []"] ws_none)
next
  case (Cons c cs)
  let ?k = "concat (map show_clause cs)" and ?b = "b @ [CHR 0x0A, CHR '' '', CHR '' '']"
  have k: "next_clause ?k" by (cases cs) simp_all
  have t: "clause_text c \<noteq> []" "\<not> is_space (hd (clause_text c))" by (cases c; simp add: clause_text_simps char_class_defs)+
  then have w: "takeWhile is_space (clause_text c @ ?k) = [] \<and> dropWhile is_space (clause_text c @ ?k) = clause_text c @ ?k"
    by (intro head_not_while) (simp add: head_not_append)
  have "ws doc_nom (sp b (show_clause c @ ?k)) = Inr (sp ?b (clause_text c @ ?k), sp b [CHR 0x0A, CHR '' '', CHR '' ''])"
    using w by (simp add: ws_sp show_clause_text)
  moreover have "parse_any_clause doc_nom (sp ?b (clause_text c @ ?k)) = Inr (sp (?b @ clause_text c) ?k, c)"
    using Cons.prems(1) clause_reads [OF _ k] by simp
  moreover have "clause_loop doc_nom (sp (?b @ clause_text c) ?k) (set_clause c q) = Some (Inr (sp ((?b @ clause_text c) @ ?k) [], fold set_clause cs (set_clause c q)))"
    by (rule Cons.IH) (use Cons.prems in \<open>auto simp: is_some_set image_iff\<close>)
  ultimately show ?case using Cons.prems t by (subst clause_loop.simps) (simp add: show_clause_text [of c])
qed

definition show_head :: "query \<Rightarrow> string" where
  "show_head q = ''FIND '' @ q_find q @ (case q_similarity q of None \<Rightarrow> [] | Some s \<Rightarrow> show_similarity s)"

text \<open>The queries that \<open>Display\<close> prints faithfully: a text to search for, no vector; names, not strings, as arguments of \<open>ORDER BY\<close>; floats with a fraction.\<close>

definition printable :: "query \<Rightarrow> bool" where
  "printable q \<longleftrightarrow> (case q_similarity q of None \<Rightarrow> False | Some se \<Rightarrow> wf_found (q_find q, se) \<and> se_vector se = None) \<and> list_all printable_clause (clauses_of q) \<and>
     (q_offset q \<noteq> None \<longrightarrow> q_limit q \<noteq> None)"

lemma show_opt_list: "(\<And>v. show_clause (C v) = clause kw f (Some v)) \<Longrightarrow> concat (map show_clause (opt_list (map_option C x))) = clause kw f x"
  by (cases x) (simp_all add: clause_def)

lemma show_query_clauses: "show_query q = show_head q @ concat (map show_clause (clauses_of q))"
  by (simp add: show_query_def show_head_def clauses_of_def show_clause.simps [THEN show_opt_list])

lemma head_reads:
  assumes "q_similarity q = Some se" "wf_found (q_find q, se)" "se_vector se = None" 
  shows "\<exists>b. pbind (tag doc_nom ''FIND'' (sp [] (show_head q @ k))) (\<lambda>input _. pbind (ws doc_nom input) (\<lambda>input _. find_expr doc_nom input)) = Inr (sp b k, (q_find q, se))"
proof -
  have f: "q_find q = ''SIMILARITY'' \<or> q_find q = ''SEMANTIC''" "ident (se_field se)" "no_quote (se_query_text se)"
    using assms by (auto simp: wf_found_def wf_source_def)
  have se: "\<lparr>se_field = se_field se, se_query_text = se_query_text se, se_vector = None\<rparr> = se" using assms(3) by simp
  have v: "soft (vector_literal doc_nom (sp b (quoted (se_query_text se) @ r)))" for b r by (simp add: vector_literal_def tag_sp starts_with_def quoted_def)
  have h: "head_not is_space (quoted (se_query_text se) @ r)" for r by (simp add: quoted_def)
  show ?thesis using f(1)
    by (rule disjE; use f(2,3) assms(1) v se in \<open>simp add: show_head_def show_similarity_def tag_sp starts_with_def ws_one ws_none find_expr_def doc_simps
      doc_alt.simps doc_map_def doc_tag_sp ident_reads quoted_reads h char_class_defs\<close>)
qed

lemma fold_opt_list: "(\<And>v. set_clause (C v) q = upd v) \<Longrightarrow> fold set_clause (opt_list (map_option C x)) q = (case x of None \<Rightarrow> q | Some v \<Rightarrow> upd v)"
  by (cases x) simp_all

lemma clauses_rebuild: "q_similarity q = Some se \<Longrightarrow> fold set_clause (clauses_of q) (no_clauses (q_find q, se)) = q"
  by (cases q) (simp add: clauses_of_def no_clauses_def fold_opt_list split: option.split)

lemma kind_opt_list: "(\<And>v. clause_kind (C v) = n) \<Longrightarrow> clause_kind ` set (opt_list (map_option C x)) = (if x = None then {} else {n})"
  by (cases x) simp_all

lemma distinct_opt_list [simp]: "distinct (map f (opt_list x))"
  by (cases x) simp_all

lemma clauses_distinct: "distinct (map clause_kind (clauses_of q))"
  by (simp add: clauses_of_def clause_kind.simps [THEN kind_opt_list])

text \<open>A printed query is read back, with its clauses in any order.\<close>

lemma parse_any_order:
  assumes "nom_ok N" and "printable q" and "mset cs = mset (clauses_of q)"
  shows "parse N (show_head q @ concat (map show_clause cs)) = Some (Inr q)"
proof -
  obtain se where se: "q_similarity q = Some se" "wf_found (q_find q, se)" "se_vector se = None" using assms(2) by (auto simp: printable_def split: option.splits)
  let ?k = "concat (map show_clause cs)" and ?q0 = "no_clauses (q_find q, se)"
  have s: "set cs = set (clauses_of q)" using assms(3) by (metis set_mset_mset)
  have d: "distinct (map clause_kind cs)" using clauses_distinct [of q] assms(3) by (metis mset_eq_imp_distinct_iff mset_map)
  have p: "list_all printable_clause cs" using assms(2) s by (simp add: printable_def list_all_iff)
  have n: "\<forall>c\<in>set cs. \<not> clause_is_some c ?q0"
  proof
    show "\<not> clause_is_some c ?q0" for c by (cases c) (simp_all add: no_clauses_def)
  qed
  have "fold set_clause cs = fold set_clause (clauses_of q)"
  proof (rule fold_multiset_equiv)
    show "set_clause x \<circ> set_clause y = set_clause y \<circ> set_clause x" if "x \<in> set cs" "y \<in> set cs" for x y
      using that d set_commute [of x y] by (cases "x = y") (auto simp: distinct_map inj_on_def fun_eq_iff)
  qed (rule assms(3))
  then have f: "fold set_clause cs ?q0 = q" using clauses_rebuild [OF se(1)] by simp
  obtain b where "pbind (tag doc_nom ''FIND'' (sp [] (show_head q @ ?k))) (\<lambda>input _. pbind (ws doc_nom input) (\<lambda>input _. find_expr doc_nom input)) =
      Inr (sp b ?k, (q_find q, se))" using head_reads [OF se] by blast
  then have "query_p doc_nom (sp [] (show_head q @ ?k)) = Some (Inr (sp (b @ ?k) [], q))"
    using loop_reads [OF p d n, of b] f assms(2) by (auto simp: query_p_def ws_none printable_def)
  moreover obtain r r' where r: "query_p N (sp [] (show_head q @ ?k)) = Some r" "query_p doc_nom (sp [] (show_head q @ ?k)) = Some r'" "agree r r'"
    using query_agree [OF assms(1)] by blast
  ultimately have "r = Inr (sp (b @ ?k) [], q)" using agree_Inr [OF r(3)] by simp
  then show ?thesis using r(1) by (simp add: parse_def)
qed

text \<open>
  C35. What \<open>Display\<close> prints is read back: for a printable query the parser returns this query, and the clauses after \<open>FIND\<close> may stand in any order.
\<close>

theorem parse_show_query:
  assumes "nom_ok N" and "printable q" and "mset cs = mset (clauses_of q)"
  shows "parse N (show_query q) = Some (Inr q) \<and> parse N (show_head q @ concat (map show_clause cs)) = Some (Inr q)"
  using parse_any_order [OF assms] parse_any_order [OF assms(1,2) refl] by (simp add: show_query_clauses)

definition shown_query :: query where
  "shown_query = \<lparr>q_find = ''SEMANTIC'', q_similarity = Some \<lparr>se_field = ''emb'', se_query_text = ''red wine'', se_vector = None\<rparr>,
     q_metadata_where = Some [And [Comparison ''price'' CLte (LFloat (Num (1 / 2))), In ''kind'' [LString ''a'', LInteger 7]]],
     q_project_on = Some [PField ''id'', PAliased ''score'' ''s''], q_bias = None, q_order_by = Some \<lparr>ob_scoring_fn = ''f'', ob_args = [''a'', ''b''], ob_descending = True\<rparr>,
     q_limit = Some 10, q_offset = Some 5, q_within = Some 150\<rparr>"

theorem parse_show_query_witness:
  "parse doc_nom (show_head shown_query @ concat (map show_clause (rev (clauses_of shown_query)))) = Some (Inr shown_query)"
proof -
  have "round_mag F64 False (1 / 2) = Num (if False then - (1 / 2) else 1 / 2)"
    by (rule round_mag_exact [where m = 1 and e = "- 1"]) (simp_all add: pow2_def)
  then have "digits_try (1 / 2) 1 = Some (5, - 1)"
    by (simp add: digits_try_def ilog10_def upt_conv_Cons [of "Suc 0" 400] ten_pow_def fround_def)
  then have "show_magnitude (1 / 2) = show_scaled 5 (- 1)"
    by (simp add: show_magnitude_def upt_conv_Cons [of "Suc 0" 18] List.map_filter_simps)
  moreover have "CHR ''.'' \<in> set (show_scaled 5 (- 1))" by code_simp
  ultimately have "has_point (Num (1 / 2))" by (simp add: has_point_def)
  moreover have "list_all ident [''emb'', ''price'', ''kind'', ''id'', ''score'', ''s'', ''f'', ''a'', ''b'']" by code_simp
  ultimately have "printable shown_query"
    by (simp add: shown_query_def printable_def clauses_of_def wf_found_def wf_source_def no_quote_def)
  then show ?thesis using parse_show_query [OF doc_nom_ok, of shown_query "rev (clauses_of shown_query)"] by simp
qed

end
