(* ===== verification/Api.thy ===== *)
theory Api
  imports Cluster_Node Vql_Executor
begin

text \<open>
  The HTTP front end: authentication (\<open>tesseract-api/src/auth.rs\<close>), the rate limiter (\<open>rate_limiter.rs\<close>), the handlers and the
  layers around them (\<open>http.rs\<close>), and the deterministic embedding of \<open>tesseract-core/src/test_embedding.rs\<close>.

  Parameters are the JSON Web Token decoder, the parser of the query language, the parser of IP addresses, the hash function of the test embedding and
  the values of environment variables. A header is looked up by its lower-case name and gives the text of its value, if it has one.
  Instants are nanoseconds.
\<close>

section \<open>Authentication\<close>

record claims =
  cl_sub :: string
  cl_role :: string

datatype auth_error = MissingCredentials | InvalidCredentials string | ExpiredToken

fun show_auth_error :: "auth_error \<Rightarrow> string" where
  "show_auth_error MissingCredentials = ''missing credentials''"
| "show_auth_error (InvalidCredentials msg) = ''invalid credentials: '' @ msg"
| "show_auth_error ExpiredToken = ''token expired''"

type_synonym headers = "string \<Rightarrow> string option"

text \<open>The provider trait with its implementations.\<close>

datatype auth_provider =
    ApiKeyAuth "(string \<times> claims) list"
  | JwtAuth string
  | MultiAuth "auth_provider list"

text \<open>\<open>str::split\<close> and \<open>split_once\<close> on a character.\<close>

fun split_char :: "char \<Rightarrow> string \<Rightarrow> string list" where
  "split_char c [] = [[]]"
| "split_char c (x # xs) = (if x = c then [] # split_char c xs
     else case split_char c xs of y # ys \<Rightarrow> (x # y) # ys | [] \<Rightarrow> [[x]])"

fun split_once :: "char \<Rightarrow> string \<Rightarrow> (string \<times> string) option" where
  "split_once c [] = None"
| "split_once c (x # xs) = (if x = c then Some ([], xs) else map_option (\<lambda>(a, b). (x # a, b)) (split_once c xs))"

text \<open>\<open>str::trim\<close>: the UTF-8 encodings of the characters with the property \<open>White_Space\<close>.\<close>

definition white_space :: "string list" where
  "white_space = [[CHR 0x09], [CHR 0x0A], [CHR 0x0B], [CHR 0x0C], [CHR 0x0D], [CHR 0x20], [CHR 0xC2, CHR 0x85], [CHR 0xC2, CHR 0xA0],
     [CHR 0xE1, CHR 0x9A, CHR 0x80], [CHR 0xE2, CHR 0x80, CHR 0x80], [CHR 0xE2, CHR 0x80, CHR 0x81], [CHR 0xE2, CHR 0x80, CHR 0x82],
     [CHR 0xE2, CHR 0x80, CHR 0x83], [CHR 0xE2, CHR 0x80, CHR 0x84], [CHR 0xE2, CHR 0x80, CHR 0x85], [CHR 0xE2, CHR 0x80, CHR 0x86],
     [CHR 0xE2, CHR 0x80, CHR 0x87], [CHR 0xE2, CHR 0x80, CHR 0x88], [CHR 0xE2, CHR 0x80, CHR 0x89], [CHR 0xE2, CHR 0x80, CHR 0x8A],
     [CHR 0xE2, CHR 0x80, CHR 0xA8], [CHR 0xE2, CHR 0x80, CHR 0xA9], [CHR 0xE2, CHR 0x80, CHR 0xAF], [CHR 0xE2, CHR 0x81, CHR 0x9F],
     [CHR 0xE3, CHR 0x80, CHR 0x80]]"

fun trim_fuel :: "nat \<Rightarrow> string list \<Rightarrow> string \<Rightarrow> string" where
  "trim_fuel 0 ws s = s"
| "trim_fuel (Suc n) ws s = (case List.find (starts_with s) ws of Some w \<Rightarrow> trim_fuel n ws (drop (length w) s) | None \<Rightarrow> s)"

definition trim :: "string \<Rightarrow> string" where
  "trim s = (let t = trim_fuel (length s) white_space s in rev (trim_fuel (length t) (map rev white_space) (rev t)))"

definition api_keys_from_env :: "string option \<Rightarrow> (string \<times> claims) list" where
  "api_keys_from_env var = fold (\<lambda>entry keys. case split_once (CHR '':'') entry of None \<Rightarrow> keys
       | Some (k, role) \<Rightarrow> AList.update (trim k) \<lparr>cl_sub = trim k, cl_role = trim role\<rparr> keys)
     (split_char (CHR '','') (case var of Some s \<Rightarrow> s | None \<Rightarrow> [])) []"

definition jwt_from_env :: "string option \<Rightarrow> string" where
  "jwt_from_env var = (case var of Some s \<Rightarrow> s | None \<Rightarrow> ''dev-secret-do-not-use-in-prod'')"

definition json_text :: "json \<Rightarrow> string \<Rightarrow> string \<Rightarrow> string" where
  "json_text j field dflt = (case json_get j field of Some (JString s) \<Rightarrow> s | _ \<Rightarrow> dflt)"

type_synonym jwt_decoder = "string \<Rightarrow> string \<Rightarrow> string + json"

fun authenticate :: "jwt_decoder \<Rightarrow> auth_provider \<Rightarrow> headers \<Rightarrow> auth_error + claims"
  and authenticate_any :: "jwt_decoder \<Rightarrow> auth_error \<Rightarrow> auth_provider list \<Rightarrow> headers \<Rightarrow> auth_error + claims" where
  "authenticate D (ApiKeyAuth keys) hs = (case hs ''x-api-key'' of None \<Rightarrow> Inl MissingCredentials
     | Some key \<Rightarrow> (case map_of keys key of Some c \<Rightarrow> Inr c | None \<Rightarrow> Inl (InvalidCredentials ''invalid API key'')))"
| "authenticate D (JwtAuth secret) hs = (case Option.bind (hs ''authorization'') (strip_prefix ''Bearer '') of
       None \<Rightarrow> Inl MissingCredentials
     | Some token \<Rightarrow> (case D secret token of
         Inl e \<Rightarrow> Inl (InvalidCredentials e)
       | Inr j \<Rightarrow> Inr \<lparr>cl_sub = json_text j ''sub'' ''unknown'', cl_role = json_text j ''role'' ''user''\<rparr>))"
| "authenticate D (MultiAuth providers) hs = authenticate_any D MissingCredentials providers hs"
| "authenticate_any D last_err [] hs = Inl last_err"
| "authenticate_any D last_err (p # ps) hs = (case authenticate D p hs of Inr c \<Rightarrow> Inr c | Inl e \<Rightarrow> authenticate_any D e ps hs)"

definition create_auth_provider :: "string option \<Rightarrow> string option \<Rightarrow> string option \<Rightarrow> auth_provider option" where
  "create_auth_provider mode api_keys secret =
     (if mode = Some ''api-key'' then Some (ApiKeyAuth (api_keys_from_env api_keys))
      else if mode = Some ''jwt'' then Some (JwtAuth (jwt_from_env secret))
      else if mode = Some ''both'' then Some (MultiAuth [ApiKeyAuth (api_keys_from_env api_keys), JwtAuth (jwt_from_env secret)])
      else None)"

section \<open>Rate limiter\<close>

record window =
  w_start :: nat
  w_count :: u64

record 'ip rate_limiter =
  rl_windows :: "('ip \<times> window) list"
  rl_max_requests :: u64
  rl_window_duration :: nat

definition rate_limiter_new :: "u64 \<Rightarrow> 'ip rate_limiter" where
  "rate_limiter_new max_rpm = \<lparr>rl_windows = [], rl_max_requests = max_rpm, rl_window_duration = 60 * 10 ^ 9\<rparr>"

definition rl_check :: "nat \<Rightarrow> 'ip \<Rightarrow> 'ip rate_limiter \<Rightarrow> bool \<times> 'ip rate_limiter" where
  "rl_check now ip rl =
     (let w = (case map_of (rl_windows rl) ip of Some w \<Rightarrow> w | None \<Rightarrow> \<lparr>w_start = now, w_count = 0\<rparr>);
          w1 = (if rl_window_duration rl < now - w_start w then \<lparr>w_start = now, w_count = 0\<rparr> else w);
          w2 = w1\<lparr>w_count := w_count w1 + 1\<rparr>
      in (w_count w2 \<le> rl_max_requests rl, rl\<lparr>rl_windows := AList.update ip w2 (rl_windows rl)\<rparr>))"

section \<open>Handlers\<close>

record 'c app_state =
  ap_executor :: query_executor
  ap_storage :: "'c engine"

record query_request =
  qq_vql :: string
  qq_user_id :: "string option"

record query_response =
  qs_success :: bool
  qs_results :: "scored_result list"
  qs_total :: nat
  qs_error :: "msg option"

record health_response =
  hl_status :: string
  hl_version :: string

record readiness_response =
  rd_status :: string
  rd_checks :: "(string \<times> bool) list"

definition liveness_handler :: health_response where
  "liveness_handler = \<lparr>hl_status = ''pass'', hl_version = ''0.1.0''\<rparr>"

definition readiness_handler :: "'c app_state \<Rightarrow> nat \<times> readiness_response" where
  "readiness_handler st = (let checks = is_ready (ap_storage st); all_ok = list_all snd checks in
     (if all_ok then OK else SERVICE_UNAVAILABLE, \<lparr>rd_status = (if all_ok then ''pass'' else ''fail''), rd_checks = checks\<rparr>))"

text \<open>The executor with the parser in front; the timeout covers both.\<close>

definition execute_vql :: "(string \<Rightarrow> query result) \<Rightarrow> query_executor \<Rightarrow> 'c engine \<Rightarrow> bool \<Rightarrow> string \<Rightarrow> string option \<Rightarrow> query_result result" where
  "execute_vql parse X en timed_out vql user = (if timed_out then Inl (ServiceError ''query timed out'')
     else rbind (parse vql) (\<lambda>q. execute_query X en False q user))"

definition query_handler :: "(string \<Rightarrow> query result) \<Rightarrow> bool \<Rightarrow> query_request \<Rightarrow> 'c app_state \<Rightarrow> nat \<times> query_response" where
  "query_handler parse timed_out req st = (case execute_vql parse (ap_executor st) (ap_storage st) timed_out (qq_vql req) (qq_user_id req) of
       Inr res \<Rightarrow> (OK, \<lparr>qs_success = True, qs_results = qr_results res, qs_total = qr_total res, qs_error = None\<rparr>)
     | Inl e \<Rightarrow> (BAD_REQUEST, \<lparr>qs_success = False, qs_results = [], qs_total = 0, qs_error = Some (Display e)\<rparr>))"

text \<open>The handlers get decoded requests; a decoded insert never has the metadata \<open>Some JNull\<close>, since \<open>null\<close> decodes to \<open>None\<close>.\<close>

definition insert_handler :: "'c env \<Rightarrow> nat \<Rightarrow> nat \<Rightarrow> f64 \<Rightarrow> insert_request \<Rightarrow> 'c app_state \<Rightarrow> ((nat \<times> insert_response) \<times> 'c app_state) option" where
  "insert_handler E ms secs r req st = map_option (\<lambda>(res, en').
       (case res of Inr _ \<Rightarrow> (CREATED, \<lparr>is_success = True, is_id = ir_id req, is_error = None\<rparr>)
        | Inl e \<Rightarrow> (BAD_REQUEST, insert_failed (ir_id req) (Display e)), st\<lparr>ap_storage := en'\<rparr>))
     (engine_insert E ms secs r (ir_id req) (ir_vector req) (case ir_metadata req of Some j \<Rightarrow> j | None \<Rightarrow> JObject []) Durable (ap_storage st))"

section \<open>Layers\<close>

definition UNAUTHORIZED :: nat where "UNAUTHORIZED = 401"
definition TOO_MANY_REQUESTS :: nat where "TOO_MANY_REQUESTS = 429"

datatype endpoint = QueryCall query_request | InsertCall insert_request | Liveness string | Readiness | Metrics

datatype reply =
    QueryReply query_response
  | InsertReply insert_response
  | HealthReply health_response
  | ReadyReply readiness_response
  | MetricsReply
  | ErrorReply string

record 'ip http_request =
  hr_endpoint :: endpoint
  hr_headers :: headers
  hr_peer :: "'ip option"

fun path_of :: "endpoint \<Rightarrow> string" where
  "path_of (QueryCall _) = ''/query''"
| "path_of (InsertCall _) = ''/insert''"
| "path_of (Liveness alias) = alias"
| "path_of Readiness = ''/health/readiness''"
| "path_of Metrics = ''/metrics''"

fun protected :: "endpoint \<Rightarrow> bool" where
  "protected (QueryCall _) = True"
| "protected (InsertCall _) = True"
| "protected _ = False"

definition client_ip :: "(string \<Rightarrow> 'ip option) \<Rightarrow> 'ip \<Rightarrow> 'ip http_request \<Rightarrow> 'ip" where
  "client_ip parse_ip localhost req = (case hr_peer req of Some ip \<Rightarrow> ip
     | None \<Rightarrow> (case Option.bind (hr_headers req ''x-forwarded-for'') (\<lambda>v. parse_ip (trim (hd (split_char (CHR '','') v)))) of
         Some ip \<Rightarrow> ip | None \<Rightarrow> localhost))"

definition auth_message :: "auth_error \<Rightarrow> string" where
  "auth_message e = (case e of MissingCredentials \<Rightarrow> ''missing credentials'' | InvalidCredentials _ \<Rightarrow> ''invalid credentials''
     | ExpiredToken \<Rightarrow> ''token expired'')"

text \<open>The outcome of \<open>auth_middleware\<close>: the rejection, or nothing when the request goes on.\<close>

definition auth_middleware :: "jwt_decoder \<Rightarrow> auth_provider \<Rightarrow> 'ip http_request \<Rightarrow> (nat \<times> reply) option" where
  "auth_middleware D auth req = (let path = path_of (hr_endpoint req) in
     if starts_with path ''/health'' \<or> path = ''/metrics'' then None
     else case authenticate D auth (hr_headers req) of Inr _ \<Rightarrow> None | Inl e \<Rightarrow> Some (UNAUTHORIZED, ErrorReply (auth_message e)))"

text \<open>What the handlers need from outside: the query parser, the engine's environment, the clock readings and whether the query times out.\<close>

record 'c call_env =
  ce_parse :: "string \<Rightarrow> query result"
  ce_env :: "'c env"
  ce_ms :: nat
  ce_secs :: nat
  ce_random :: f64
  ce_timed_out :: bool

definition handle :: "'c call_env \<Rightarrow> endpoint \<Rightarrow> 'c app_state \<Rightarrow> ((nat \<times> reply) \<times> 'c app_state) option" where
  "handle K ep st = (case ep of
       QueryCall q \<Rightarrow> (let (s, b) = query_handler (ce_parse K) (ce_timed_out K) q st in Some ((s, QueryReply b), st))
     | InsertCall q \<Rightarrow> map_option (\<lambda>((s, b), st'). ((s, InsertReply b), st')) (insert_handler (ce_env K) (ce_ms K) (ce_secs K) (ce_random K) q st)
     | Liveness _ \<Rightarrow> Some ((OK, HealthReply liveness_handler), st)
     | Readiness \<Rightarrow> (let (s, b) = readiness_handler st in Some ((s, ReadyReply b), st))
     | Metrics \<Rightarrow> Some ((OK, MetricsReply), st))"

text \<open>The router: the rate limiter around everything, authentication around the protected routes.\<close>

definition guarded :: "jwt_decoder \<Rightarrow> 'c call_env \<Rightarrow> auth_provider option \<Rightarrow> 'ip http_request \<Rightarrow> 'c app_state \<Rightarrow> ((nat \<times> reply) \<times> 'c app_state) option" where
  "guarded D K auth req st = (case (if protected (hr_endpoint req) then Option.bind auth (\<lambda>a. auth_middleware D a req) else None) of
       Some rejection \<Rightarrow> Some (rejection, st)
     | None \<Rightarrow> handle K (hr_endpoint req) st)"

definition serve :: "jwt_decoder \<Rightarrow> (string \<Rightarrow> 'ip option) \<Rightarrow> 'ip \<Rightarrow> nat \<Rightarrow> 'c call_env \<Rightarrow> auth_provider option \<Rightarrow> 'ip http_request \<Rightarrow>
    'ip rate_limiter option \<Rightarrow> 'c app_state \<Rightarrow> ((nat \<times> reply) \<times> 'ip rate_limiter option \<times> 'c app_state) option" where
  "serve D parse_ip localhost now K auth req limiter st = (case limiter of
       None \<Rightarrow> map_option (\<lambda>(rep, st'). (rep, None, st')) (guarded D K auth req st)
     | Some rl \<Rightarrow> (case rl_check now (client_ip parse_ip localhost req) rl of
         (False, rl') \<Rightarrow> Some ((TOO_MANY_REQUESTS, ErrorReply ''rate limit exceeded''), Some rl', st)
       | (True, rl') \<Rightarrow> map_option (\<lambda>(rep, st'). (rep, Some rl', st')) (guarded D K auth req st)))"

section \<open>The test embedding\<close>

definition test_embed :: "(string \<Rightarrow> u8 list) \<Rightarrow> nat \<Rightarrow> string \<Rightarrow> f64 list result" where
  "test_embed sha256 d text =
     (let vec = map (\<lambda>b. fof_int F64 (uint b)) (take (min d 32) (sha256 text));
          norm = fsqrt F64 (fsum F64 (map (\<lambda>x. fmul F64 x x) vec))
      in Inr (if flt (Num 0) norm then map (\<lambda>x. fdiv F64 x norm) vec else vec))"

section \<open>How many requests the limiter lets through\<close>

text \<open>The window of an address after a check, and the checks of a sequence of requests: the times at which those of one address were admitted.\<close>

definition next_window :: "'ip rate_limiter \<Rightarrow> nat \<Rightarrow> 'ip \<Rightarrow> window" where
  "next_window rl now ip = (case map_of (rl_windows rl) ip of
       None \<Rightarrow> \<lparr>w_start = now, w_count = 1\<rparr>
     | Some w \<Rightarrow> if rl_window_duration rl < now - w_start w then \<lparr>w_start = now, w_count = 1\<rparr> else w\<lparr>w_count := w_count w + 1\<rparr>)"

fun admitted :: "'ip \<Rightarrow> (nat \<times> 'ip) list \<Rightarrow> 'ip rate_limiter \<Rightarrow> nat list" where
  "admitted ip [] rl = []"
| "admitted ip ((t, k) # cs) rl = (case rl_check t k rl of (ok, rl') \<Rightarrow> (if ok \<and> k = ip then [t] else []) @ admitted ip cs rl')"

lemma rl_check_window:
  "rl_check t k rl = (w_count (next_window rl t k) \<le> rl_max_requests rl, rl\<lparr>rl_windows := AList.update k (next_window rl t k) (rl_windows rl)\<rparr>)"
  by (auto simp: rl_check_def next_window_def Let_def split: option.split)

abbreviation put_window :: "'ip \<Rightarrow> window \<Rightarrow> 'ip rate_limiter \<Rightarrow> 'ip rate_limiter" where
  "put_window k w rl \<equiv> rl\<lparr>rl_windows := AList.update k w (rl_windows rl)\<rparr>"

lemma admitted_Cons:
  "admitted ip ((t, k) # cs) rl = (if w_count (next_window rl t k) \<le> rl_max_requests rl \<and> k = ip then [t] else []) @
     admitted ip cs (put_window k (next_window rl t k) rl)"
  by (simp add: rl_check_window)

declare admitted.simps(2) [simp del]

lemma admitted_times: "set (admitted ip cs rl) \<subseteq> fst ` set cs"
proof (induction cs arbitrary: rl)
  case (Cons c cs)
  obtain t k where "c = (t, k)" by (cases c)
  then show ?case using Cons.IH [of "put_window k (next_window rl t k) rl"] by (auto simp: admitted_Cons)
qed simp

definition burst :: "nat \<Rightarrow> 'ip \<Rightarrow> (nat \<times> 'ip) list \<Rightarrow> 'ip rate_limiter \<Rightarrow> nat" where
  "burst a ip cs rl = length (filter (\<lambda>t. a \<le> t \<and> t \<le> a + rl_window_duration rl) (admitted ip cs rl))"

lemma burst_late: "\<forall>(t, k)\<in>set cs. a + rl_window_duration rl < t \<Longrightarrow> burst a ip cs rl = 0"
  using admitted_times [of ip cs rl] by (fastforce simp: burst_def filter_empty_conv)

lemma burst_Cons:
  "burst a ip ((t, k) # cs) rl =
     (if k = ip \<and> w_count (next_window rl t k) \<le> rl_max_requests rl \<and> a \<le> t \<and> t \<le> a + rl_window_duration rl then 1 else 0) +
     burst a ip cs (put_window k (next_window rl t k) rl)"
  by (auto simp: burst_def admitted_Cons)

lemma length_filter_mono: "(\<And>x. x \<in> set xs \<Longrightarrow> P x \<Longrightarrow> Q x) \<Longrightarrow> length (filter P xs) \<le> length (filter Q xs)"
  by (induction xs) (auto intro: le_SucI)

lemma unat_next: "unat (c :: u64) + n < 2 ^ 64 \<Longrightarrow> 0 < n \<Longrightarrow> unat (c + 1) = unat c + 1"
  by (rule unat_plus_one) simp

text \<open>A window that started in the interval leaves room for what it has not counted yet.\<close>

lemma burst_window:
  assumes "map_of (rl_windows rl) ip = Some w" "a \<le> w_start w" "sorted (map fst cs)" "unat (w_count w) + length cs < 2 ^ 64"
  shows "burst a ip cs rl \<le> unat (rl_max_requests rl) - unat (w_count w)"
  using assms
proof (induction cs arbitrary: rl w)
  case Nil
  then show ?case by (simp add: burst_def)
next
  case (Cons c cs)
  obtain t k where c: "c = (t, k)" by (cases c)
  let ?rl = "put_window k (next_window rl t k) rl"
  show ?case
  proof (cases "k = ip")
    case False
    have "burst a ip cs ?rl \<le> unat (rl_max_requests ?rl) - unat (w_count w)"
      by (rule Cons.IH) (use Cons.prems False c in \<open>auto simp: update_conv\<close>)
    then show ?thesis using False c by (simp add: burst_Cons)
  next
    case True
    show ?thesis
    proof (cases "rl_window_duration rl < t - w_start w")
      case late: True
      have "\<forall>(t', k)\<in>set (c # cs). a + rl_window_duration rl < t'" using late Cons.prems(2,3) c by fastforce
      then show ?thesis using burst_late by (metis zero_le)
    next
      case False
      then have w: "next_window rl t k = w\<lparr>w_count := w_count w + 1\<rparr>" using Cons.prems(1) True by (simp add: next_window_def)
      have u: "unat (w_count w + 1) = unat (w_count w) + 1" using Cons.prems(4) by (intro unat_next [where n = "length (c # cs)"]) auto
      have "burst a ip cs ?rl \<le> unat (rl_max_requests ?rl) - unat (w_count (next_window rl t k))"
        by (rule Cons.IH) (use Cons.prems True w u c in \<open>auto simp: update_conv\<close>)
      then show ?thesis using True c w u by (auto simp: burst_Cons word_le_nat_alt)
    qed
  qed
qed

text \<open>An older window adds at most its own rest and one full window more.\<close>

lemma burst_old_window:
  assumes "map_of (rl_windows rl) ip = Some w" "\<forall>(t, k)\<in>set cs. a \<le> t" "sorted (map fst cs)" "unat (w_count w) + length cs < 2 ^ 64"
  shows "burst a ip cs rl \<le> (unat (rl_max_requests rl) - unat (w_count w)) + unat (rl_max_requests rl)"
  using assms
proof (induction cs arbitrary: rl w)
  case Nil
  then show ?case by (simp add: burst_def)
next
  case (Cons c cs)
  obtain t k where c: "c = (t, k)" by (cases c)
  let ?rl = "put_window k (next_window rl t k) rl"
  show ?case
  proof (cases "k = ip")
    case False
    have "burst a ip cs ?rl \<le> (unat (rl_max_requests ?rl) - unat (w_count w)) + unat (rl_max_requests ?rl)"
      by (rule Cons.IH) (use Cons.prems False c in \<open>auto simp: update_conv\<close>)
    then show ?thesis using False c by (simp add: burst_Cons)
  next
    case True
    show ?thesis
    proof (cases "rl_window_duration rl < t - w_start w")
      case late: True
      then have w: "next_window rl t k = \<lparr>w_start = t, w_count = 1\<rparr>" using Cons.prems(1) True by (simp add: next_window_def)
      have "burst a ip cs ?rl \<le> unat (rl_max_requests ?rl) - unat (w_count (next_window rl t k))"
        by (rule burst_window) (use Cons.prems True w c in \<open>auto simp: update_conv\<close>)
      then show ?thesis using True c w by (auto simp: burst_Cons word_le_nat_alt)
    next
      case False
      then have w: "next_window rl t k = w\<lparr>w_count := w_count w + 1\<rparr>" using Cons.prems(1) True by (simp add: next_window_def)
      have u: "unat (w_count w + 1) = unat (w_count w) + 1" using Cons.prems(4) by (intro unat_next [where n = "length (c # cs)"]) auto
      have "burst a ip cs ?rl \<le> (unat (rl_max_requests ?rl) - unat (w_count (next_window rl t k))) + unat (rl_max_requests ?rl)"
        by (rule Cons.IH) (use Cons.prems True w u c in \<open>auto simp: update_conv\<close>)
      then show ?thesis using True c w u by (auto simp: burst_Cons word_le_nat_alt)
    qed
  qed
qed


lemma burst_bound:
  assumes "sorted (map fst cs)" "length cs < 2 ^ 64" "\<And>w. map_of (rl_windows rl) ip = Some w \<Longrightarrow> unat (w_count w) + length cs < 2 ^ 64"
  shows "burst a ip cs rl \<le> 2 * unat (rl_max_requests rl)"
  using assms
proof (induction cs arbitrary: rl)
  case Nil
  then show ?case by (simp add: burst_def)
next
  case (Cons c cs)
  obtain t k where c: "c = (t, k)" by (cases c)
  let ?rl = "put_window k (next_window rl t k) rl"
  show ?case
  proof (cases "a \<le> t \<and> map_of (rl_windows rl) ip \<noteq> None")
    case True
    then obtain w where w: "map_of (rl_windows rl) ip = Some w" by auto
    have "\<forall>(t', k)\<in>set (c # cs). a \<le> t'" using True Cons.prems(1) c by fastforce
    from burst_old_window [OF w this Cons.prems(1) Cons.prems(3) [OF w]] show ?thesis by simp
  next
    case False
    have cnt: "unat (w_count w) + length cs < 2 ^ 64" if w: "map_of (rl_windows ?rl) ip = Some w" for w
    proof (cases "k = ip")
      case True
      then have wn: "w = next_window rl t k" using w by (simp add: update_conv)
      show ?thesis
      proof (cases "map_of (rl_windows rl) ip")
        case None
        then show ?thesis using wn True Cons.prems(2) by (simp add: next_window_def)
      next
        case (Some v)
        then show ?thesis using wn True Cons.prems(2) Cons.prems(3) [OF Some] unat_next [of "w_count v" "length (c # cs)"]
          by (auto simp: next_window_def)
      qed
    next
      case False
      then show ?thesis using w Cons.prems(3) [of w] by (auto simp: update_conv)
    qed
    have rest: "burst a ip cs ?rl \<le> 2 * unat (rl_max_requests ?rl)"
      by (rule Cons.IH) (use Cons.prems(1,2) cnt in auto)
    show ?thesis
    proof (cases "k = ip \<and> a \<le> t")
      case True
      then have w: "next_window rl t k = \<lparr>w_start = t, w_count = 1\<rparr>" using False by (auto simp: next_window_def)
      have "burst a ip cs ?rl \<le> unat (rl_max_requests ?rl) - unat (w_count (next_window rl t k))"
        by (rule burst_window) (use Cons.prems True w c in \<open>auto simp: update_conv\<close>)
      then show ?thesis using True c w by (auto simp: burst_Cons word_le_nat_alt)
    next
      case False
      then show ?thesis using rest c by (auto simp: burst_Cons)
    qed
  qed
qed

text \<open>The limiter after a sequence of requests; its windows count requests of their address since they started.\<close>

definition rl_after :: "(nat \<times> 'ip) list \<Rightarrow> 'ip rate_limiter \<Rightarrow> 'ip rate_limiter" where
  "rl_after cs rl = fold (\<lambda>(t, k) r. snd (rl_check t k r)) cs rl"

lemma rl_after_snoc: "rl_after (cs @ [(t, k)]) rl = put_window k (next_window (rl_after cs rl) t k) (rl_after cs rl)"
  by (simp add: rl_after_def rl_check_window)

lemma rl_after_frame [simp]: "rl_max_requests (rl_after cs rl) = rl_max_requests rl" "rl_window_duration (rl_after cs rl) = rl_window_duration rl"
  by (induction cs rule: rev_induct) (auto simp: rl_after_def rl_check_window split: prod.split)

lemma window_counts:
  assumes "rl_windows rl = []"
  shows "sorted (map fst cs) \<Longrightarrow> map_of (rl_windows (rl_after cs rl)) ip = Some w \<Longrightarrow>
    unat (w_count w) \<le> length (filter (\<lambda>(t, k). k = ip \<and> w_start w \<le> t) cs) \<and> w_start w \<in> fst ` set cs"
proof (induction cs arbitrary: w rule: rev_induct)
  case Nil
  then show ?case using assms by (simp add: rl_after_def)
next
  case (snoc c cs)
  obtain t k where c: "c = (t, k)" by (cases c)
  have s: "sorted (map fst cs)" "\<forall>x\<in>fst ` set cs. x \<le> t" using snoc.prems(1) c by (auto simp: sorted_append)
  have le: "unat (v + 1) \<le> unat v + 1" for v :: u64 using unat_plus_one [of v] by (cases "unat v + 1 < 2 ^ 64") (auto simp: unat_word_ariths)
  show ?case
  proof (cases "k = ip")
    case False
    then show ?thesis using snoc.IH [OF s(1), of w] snoc.prems(2) c by (auto simp: rl_after_snoc update_conv)
  next
    case True
    then have w: "w = next_window (rl_after cs rl) t ip" using snoc.prems(2) c by (simp add: rl_after_snoc update_conv)
    show ?thesis
    proof (cases "map_of (rl_windows (rl_after cs rl)) ip")
      case None
      then show ?thesis using w c True by (simp add: next_window_def)
    next
      case (Some v)
      have "w_start v \<le> t" using snoc.IH [OF s(1) Some] s(2) by blast
      then show ?thesis using w c True snoc.IH [OF s(1) Some] le [of "w_count v"] Some by (auto simp: next_window_def)
    qed
  qed
qed

text \<open>
  C38. The rate limiter neither lets bursts through nor refuses without cause. For requests in the order of time, fewer than \<open>2 ^ 64\<close>: in any interval as long as a window an
  address gets at most twice the limit admitted (the windows are fixed, not sliding, so more than the limit is possible), and a request is refused only
  when the address has already sent as many requests as the limit within the window before it.
\<close>

theorem rate_limit_spec:
  fixes cs :: "(nat \<times> 'a) list"
  assumes "sorted (map fst (cs @ [(t, ip)]))" and "length cs < 2 ^ 64"
  shows "burst a ip cs (rate_limiter_new m) \<le> 2 * unat m \<and>
    (\<not> fst (rl_check t ip (rl_after cs (rate_limiter_new m))) \<longrightarrow>
      unat m \<le> length (filter (\<lambda>(t', k). k = ip \<and> t \<le> t' + rl_window_duration (rate_limiter_new m :: 'a rate_limiter)) cs))"
proof (intro conjI impI)
  let ?rl = "rate_limiter_new m :: 'a rate_limiter"
  have s: "sorted (map fst cs)" using assms(1) by (simp add: sorted_append)
  show "burst a ip cs ?rl \<le> 2 * unat m"
    using burst_bound [of cs ?rl ip a] s assms(2) by (simp add: rate_limiter_new_def)
  assume r: "\<not> fst (rl_check t ip (rl_after cs ?rl))"
  have n: "rl_windows ?rl = []" "rl_max_requests ?rl = m" by (simp_all add: rate_limiter_new_def)
  from r have c: "m < w_count (next_window (rl_after cs ?rl) t ip)" by (simp add: rl_check_window n)
  show "unat m \<le> length (filter (\<lambda>(t', k). k = ip \<and> t \<le> t' + rl_window_duration ?rl) cs)"
  proof (cases "m = 0")
    case False
    then have "w_count (next_window (rl_after cs ?rl) t ip) \<noteq> 1" using c by (auto simp: word_less_nat_alt unat_eq_zero)
    then obtain w where w: "map_of (rl_windows (rl_after cs ?rl)) ip = Some w" "t - w_start w \<le> rl_window_duration ?rl"
        "next_window (rl_after cs ?rl) t ip = w\<lparr>w_count := w_count w + 1\<rparr>"
      by (auto simp: next_window_def split: option.splits if_splits)
    have "m < w_count w + 1" using c w(3) by simp
    then have "unat m \<le> unat (w_count w)" using unat_plus_one [of "w_count w"] by (cases "unat (w_count w) + 1 < 2 ^ 64") (auto simp: word_less_nat_alt unat_word_ariths)
    also have "\<dots> \<le> length (filter (\<lambda>(t, k). k = ip \<and> w_start w \<le> t) cs)" using window_counts [OF n(1) s w(1)] by blast
    also have "\<dots> \<le> length (filter (\<lambda>(t', k). k = ip \<and> t \<le> t' + rl_window_duration ?rl) cs)"
      by (rule length_filter_mono) (use w(2) in auto)
    finally show ?thesis .
  qed simp
qed

theorem rate_limit_spec_witness:
  "burst 5 ''x'' [(0, ''x''), (5, ''x''), (6, ''x'')] (rate_limiter_new 2) \<le> 4 \<and>
   (\<not> fst (rl_check 7 ''x'' (rl_after [(0, ''x''), (5, ''x''), (6, ''x'')] (rate_limiter_new 2))))"
proof -
  have "burst 5 ''x'' [(0, ''x''), (5, ''x''), (6, ''x'')] (rate_limiter_new 2) \<le> 2 * unat (2 :: u64)"
    by (rule conjunct1 [OF rate_limit_spec [where t = 7]]) simp_all
  then show ?thesis by (simp add: rl_after_def rl_check_def rate_limiter_new_def)
qed

section \<open>Who gets in\<close>

definition good_key :: "(string \<times> claims) list \<Rightarrow> headers \<Rightarrow> bool" where
  "good_key keys hs \<longleftrightarrow> (\<exists>k. hs ''x-api-key'' = Some k \<and> map_of keys k \<noteq> None)"

definition good_token :: "jwt_decoder \<Rightarrow> string \<Rightarrow> headers \<Rightarrow> bool" where
  "good_token D secret hs \<longleftrightarrow> (\<exists>token j. hs ''authorization'' = Some (''Bearer '' @ token) \<and> D secret token = Inr j)"

lemma strip_prefix_Some: "strip_prefix p s = Some t \<longleftrightarrow> s = p @ t"
  by (auto simp: strip_prefix_def) (metis append_take_drop_id)

lemma authenticate_key: "(\<exists>c. authenticate D (ApiKeyAuth keys) hs = Inr c) \<longleftrightarrow> good_key keys hs"
  by (auto simp: good_key_def split: option.split)

lemma authenticate_jwt: "(\<exists>c. authenticate D (JwtAuth secret) hs = Inr c) \<longleftrightarrow> good_token D secret hs"
proof (cases "Option.bind (hs ''authorization'') (strip_prefix ''Bearer '')")
  case None
  then have "hs ''authorization'' \<noteq> Some (''Bearer '' @ token)" for token by (auto simp: strip_prefix_def)
  then show ?thesis using None by (auto simp: good_token_def simp del: append.simps)
next
  case (Some token)
  then have "hs ''authorization'' = Some (''Bearer '' @ token)" by (auto simp: bind_eq_Some_conv strip_prefix_Some simp del: append.simps)
  then show ?thesis using Some by (auto simp: good_token_def split: sum.split)
qed

lemma authenticate_any_ok: "(\<exists>c. authenticate_any D e ps hs = Inr c) \<longleftrightarrow> (\<exists>p\<in>set ps. \<exists>c. authenticate D p hs = Inr c)"
  by (induction ps arbitrary: e) (auto split: sum.split)

lemma create_auth_accepts:
  assumes "create_auth_provider mode keys secret = Some a" "authenticate D a hs = Inr c"
  shows "good_key (api_keys_from_env keys) hs \<or> good_token D (jwt_from_env secret) hs"
proof -
  have "good_key (api_keys_from_env keys) hs \<or> good_token D (jwt_from_env secret) hs"
    if m: "authenticate_any D MissingCredentials [ApiKeyAuth (api_keys_from_env keys), JwtAuth (jwt_from_env secret)] hs = Inr c"
    using authenticate_any_ok [THEN iffD1, OF exI, OF m] authenticate_key authenticate_jwt by fastforce
  then show ?thesis using assms authenticate_key authenticate_jwt
    by (auto simp: create_auth_provider_def simp del: authenticate_any.simps authenticate.simps(1,2) split: if_splits) blast+
qed

text \<open>
  C37. Nothing happens without credentials. When the server is configured with authentication, a query or an insert that carries neither a configured API key nor a bearer
  token that the decoder accepts under the configured secret is answered with 401 (or 429 by the rate limiter), and neither the engine nor anything else
  of the state behind the handlers changes.
\<close>

theorem protected_needs_credentials:
  assumes "create_auth_provider mode keys secret = Some a" and "protected (hr_endpoint req)"
    and "\<not> good_key (api_keys_from_env keys) (hr_headers req)" and "\<not> good_token D (jwt_from_env secret) (hr_headers req)"
  shows "\<exists>status msg limiter'. serve D parse_ip localhost now K (Some a) req limiter st = Some ((status, ErrorReply msg), limiter', st) \<and>
    (status = UNAUTHORIZED \<or> status = TOO_MANY_REQUESTS)"
proof -
  obtain e where e: "authenticate D a (hr_headers req) = Inl e"
    using create_auth_accepts [OF assms(1), of D "hr_headers req"] assms(3,4) by (cases "authenticate D a (hr_headers req)") auto
  have p: "\<not> (starts_with (path_of (hr_endpoint req)) ''/health'' \<or> path_of (hr_endpoint req) = ''/metrics'')"
    using assms(2) by (cases "hr_endpoint req") (simp_all add: starts_with_def)
  have "guarded D K (Some a) req st = Some ((UNAUTHORIZED, ErrorReply (auth_message e)), st)"
    using assms(2) e p by (simp add: guarded_def auth_middleware_def)
  then show ?thesis by (auto simp: serve_def split: option.split prod.split bool.split)
qed

theorem protected_needs_credentials_witness:
  "\<exists>status msg limiter'. serve (\<lambda>_ _. Inl ''bad token'') (\<lambda>_. None) ''127.0.0.1'' 0
     \<lparr>ce_parse = (\<lambda>_. Inl IoError), ce_env = demo_env, ce_ms = 0, ce_secs = 0, ce_random = Num 0, ce_timed_out = False\<rparr>
     (create_auth_provider (Some ''both'') (Some ''k1:admin'') None)
     \<lparr>hr_endpoint = InsertCall \<lparr>ir_id = 1, ir_vector = [], ir_metadata = None\<rparr>, hr_headers = [''x-api-key'' \<mapsto> ''k2''], hr_peer = None\<rparr>
     (Some (rate_limiter_new 100)) \<lparr>ap_executor = demo_executor, ap_storage = demo_engine 0\<rparr> =
   Some ((status, ErrorReply msg), limiter', \<lparr>ap_executor = demo_executor, ap_storage = demo_engine 0\<rparr>)"
proof -
  let ?req = "\<lparr>hr_endpoint = InsertCall \<lparr>ir_id = 1, ir_vector = [], ir_metadata = None\<rparr>, hr_headers = [''x-api-key'' \<mapsto> ''k2''], hr_peer = None\<rparr>"
  obtain a where a: "create_auth_provider (Some ''both'') (Some ''k1:admin'') None = Some a" by (simp add: create_auth_provider_def)
  have k: "\<not> good_key (api_keys_from_env (Some ''k1:admin'')) (hr_headers ?req)"
    by (simp add: good_key_def api_keys_from_env_def trim_def white_space_def starts_with_def)
  have t: "\<not> good_token (\<lambda>_ _. Inl ''bad token'') (jwt_from_env None) (hr_headers ?req)" by (simp add: good_token_def)
  have p: "protected (hr_endpoint ?req)" by simp
  show ?thesis
    using protected_needs_credentials [OF a p k t, of "\<lambda>_. None" "''127.0.0.1''" 0
      "\<lparr>ce_parse = (\<lambda>_. Inl IoError), ce_env = demo_env, ce_ms = 0, ce_secs = 0, ce_random = Num 0, ce_timed_out = False\<rparr>"
      "Some (rate_limiter_new 100)" "\<lparr>ap_executor = demo_executor, ap_storage = demo_engine 0\<rparr>"]
    unfolding a by metis
qed

end
