(* ===== verification/Grpc.thy ===== *)
theory Grpc
  imports Api
begin

text \<open>
  The gRPC service, \<open>tesseract-api/src/grpc.rs\<close>, over the messages of \<open>proto/tesseract.proto\<close>: authentication from the call's metadata, the streamed query, the insert and the
  health check. Parameters are the validation of header names and values (\<open>http\<close>, \<open>tonic\<close>), \<open>serde_json\<close>'s parser and printer, and which sends on the result stream
  find the client gone. The server loop of \<open>tonic\<close> is not modelled.
\<close>

section \<open>Metadata and authentication\<close>

datatype metadata_entry = Ascii string string | Binary string

text \<open>The text of an ASCII metadata value, and the header names and values that are valid, as they are stored.\<close>

record header_lib =
  metadata_to_str :: "string \<Rightarrow> string option"
  header_name :: "string \<Rightarrow> string option"
  header_value :: "string \<Rightarrow> string option"

definition metadata_to_headers :: "header_lib \<Rightarrow> metadata_entry list \<Rightarrow> headers" where
  "metadata_to_headers H metadata = fold (\<lambda>kv hs. case kv of
       Ascii name val \<Rightarrow> (case header_name H name of None \<Rightarrow> hs
         | Some hn \<Rightarrow> (case metadata_to_str H val of None \<Rightarrow> hs
           | Some txt \<Rightarrow> (case header_value H txt of None \<Rightarrow> hs | Some hv \<Rightarrow> hs(hn \<mapsto> hv))))
     | Binary name \<Rightarrow> hs) metadata Map.empty"

datatype grpc_code = Unauthenticated | InvalidArgument | Internal

record grpc_status =
  gs_code :: grpc_code
  gs_message :: msg

definition status :: "grpc_code \<Rightarrow> msg \<Rightarrow> grpc_status" where
  "status c m = \<lparr>gs_code = c, gs_message = m\<rparr>"

definition auth_status :: "auth_error \<Rightarrow> grpc_status" where
  "auth_status e = (case e of
       MissingCredentials \<Rightarrow> status Unauthenticated (Text ''missing credentials'')
     | InvalidCredentials m \<Rightarrow> status Unauthenticated (Text m)
     | ExpiredToken \<Rightarrow> status Unauthenticated (Text ''token expired''))"

definition check_auth :: "jwt_decoder \<Rightarrow> header_lib \<Rightarrow> auth_provider option \<Rightarrow> metadata_entry list \<Rightarrow> grpc_status + unit" where
  "check_auth D H auth metadata = (case auth of None \<Rightarrow> Inr ()
     | Some a \<Rightarrow> (case authenticate D a (metadata_to_headers H metadata) of Inr _ \<Rightarrow> Inr () | Inl e \<Rightarrow> Inl (auth_status e)))"

section \<open>Calls\<close>






record grpc_insert_request =
  gi_id :: u64
  gi_vector :: "f32 list"
  gi_metadata :: "string option"

definition grpc_insert :: "jwt_decoder \<Rightarrow> header_lib \<Rightarrow> (string \<Rightarrow> string + json) \<Rightarrow> 'c call_env \<Rightarrow> auth_provider option \<Rightarrow> metadata_entry list \<Rightarrow> grpc_insert_request \<Rightarrow>
    'c app_state \<Rightarrow> ((grpc_status + u64) \<times> 'c app_state) option" where
  "grpc_insert D H from_str K auth metadata req st = (case check_auth D H auth metadata of
       Inl s \<Rightarrow> Some (Inl s, st)
     | Inr _ \<Rightarrow> (case (case gi_metadata req of Some txt \<Rightarrow> from_str txt | None \<Rightarrow> Inr (JObject [])) of
         Inl e \<Rightarrow> Some (Inl (status InvalidArgument (Text (''invalid metadata JSON: '' @ e))), st)
       | Inr j \<Rightarrow> map_option (\<lambda>(res, en'). (case res of Inr _ \<Rightarrow> Inr (gi_id req) | Inl e \<Rightarrow> Inl (status Internal (Display e)), st\<lparr>ap_storage := en'\<rparr>))
           (engine_insert (ce_env K) (ce_ms K) (ce_secs K) (ce_random K) (gi_id req) (map (fcast F64) (gi_vector req)) j Durable (ap_storage st))))"

definition grpc_health :: "grpc_status + string" where
  "grpc_health = Inr ''ok''"

section \<open>The service against the HTTP interface\<close>




text \<open>The rate limiter lets the request pass; its address depends only on headers and peer.\<close>

definition admitted :: "(string \<Rightarrow> 'ip option) \<Rightarrow> 'ip \<Rightarrow> nat \<Rightarrow> 'ip rate_limiter option \<Rightarrow> 'ip http_request \<Rightarrow> bool" where
  "admitted parse_ip localhost now limiter req \<longleftrightarrow> (case limiter of None \<Rightarrow> True | Some rl \<Rightarrow> fst (rl_check now (client_ip parse_ip localhost req) rl))"



text \<open>A request over the limit is refused by the HTTP interface and changes nothing; the gRPC calls do not ask the limiter.\<close>

lemma http_over_limit:
  "\<not> admitted parse_ip localhost now limiter req \<Longrightarrow>
   \<exists>limiter'. serve D parse_ip localhost now K auth req limiter st = Some ((TOO_MANY_REQUESTS, ErrorReply ''rate limit exceeded''), limiter', st)"
  by (auto simp: admitted_def serve_def split: option.splits prod.splits bool.splits)








text \<open>Metadata that is not JSON is refused and nothing is stored.\<close>

lemma grpc_bad_metadata:
  assumes "gi_metadata req = Some txt" "from_str txt = Inl e"
  shows "\<exists>s. grpc_insert D H from_str K auth metadata req st = Some (Inl s, st) \<and> gs_code s \<in> {Unauthenticated, InvalidArgument}"
  using assms by (cases "check_auth D H auth metadata")
    (auto simp: grpc_insert_def check_auth_def auth_status_def status_def split: option.splits sum.splits auth_error.splits)

end
