(* ===== verification/Clients.thy ===== *)
theory Clients
  imports Api
begin

text \<open>
  The two programs that talk to the HTTP interface: the PostgreSQL extension (\<open>tesseract-pg/src\<close>: configuration, client and SQL functions) and the MCP server
  (\<open>tesseract-mcp/src/main.rs\<close>). The network with the JSON encoding of requests and replies is a parameter: an exchange gives the status and the decoded
  body, a body that does not decode, or no connection. The frameworks that call these functions (\<open>pgrx\<close>, \<open>rmcp\<close>) and the start of their runtimes are not modelled.
\<close>

section \<open>Configuration of the extension\<close>

type_synonym u16 = "16 word"
type_synonym i32 = "32 word"

record tesseract_config =
  tc_host :: string
  tc_port :: u16
  tc_timeout_ms :: u64

definition default_tesseract_config :: tesseract_config where
  "default_tesseract_config = \<lparr>tc_host = ''localhost'', tc_port = 8081, tc_timeout_ms = 5000\<rparr>"

definition base_url_of :: "string \<Rightarrow> u16 \<Rightarrow> string" where
  "base_url_of host port = ''http://'' @ host @ '':'' @ show_nat (unat port)"

definition config_base_url :: "tesseract_config \<Rightarrow> string" where
  "config_base_url c = base_url_of (tc_host c) (tc_port c)"

section \<open>The client\<close>

datatype client_error =
    ConnectionError string
  | RequestError nat string
  | ClientParseError string

fun show_client_error :: "client_error \<Rightarrow> string" where
  "show_client_error (ConnectionError m) = ''connection error: '' @ m"
| "show_client_error (RequestError st m) = ''request failed ('' @ show_nat st @ ''): '' @ m"
| "show_client_error (ClientParseError m) = ''parse error: '' @ m"

record pg_scored_result =
  pr_id :: u64
  pr_score :: f32
  pr_metadata :: json

record query_args =
  qa_vql :: string
  qa_user_id :: "string option"

record pg_query_response =
  pq_success :: bool
  pq_results :: "pg_scored_result list"
  pq_total :: nat
  pq_error :: "string option"

record insert_args =
  ia_id :: u64
  ia_vector :: "f64 list"
  ia_metadata :: "json option"

record pg_insert_response =
  pi_success :: bool
  pi_id :: u64
  pi_error :: "string option"

record tesseract_client =
  tl_base_url :: string
  tl_timeout_ms :: u64

definition client_new :: "string \<Rightarrow> u16 \<Rightarrow> u64 \<Rightarrow> tesseract_client" where
  "client_new host port timeout_ms = \<lparr>tl_base_url = base_url_of host port, tl_timeout_ms = timeout_ms\<rparr>"

definition http_success :: "nat \<Rightarrow> bool" where
  "http_success code \<longleftrightarrow> 200 \<le> code \<and> code < 300"

text \<open>The common end of both calls.\<close>

definition client_result :: "('b \<Rightarrow> bool) \<Rightarrow> ('b \<Rightarrow> string option) \<Rightarrow> ('b \<Rightarrow> 'a) \<Rightarrow> (nat \<times> 'b) exchange \<Rightarrow> client_error + 'a" where
  "client_result success err val x = (case x of
       Unreachable e \<Rightarrow> Inl (ConnectionError e)
     | BadBody e \<Rightarrow> Inl (ClientParseError e)
     | Answer (code, parsed) \<Rightarrow> if http_success code \<and> success parsed then Inr (val parsed)
         else Inl (RequestError code (case err parsed of Some m \<Rightarrow> m | None \<Rightarrow> ''unknown error'')))"

type_synonym query_net = "u64 \<Rightarrow> string \<Rightarrow> query_args \<Rightarrow> (nat \<times> pg_query_response) exchange"
type_synonym pg_insert_net = "u64 \<Rightarrow> string \<Rightarrow> insert_args \<Rightarrow> (nat \<times> pg_insert_response) exchange"

definition client_query :: "query_net \<Rightarrow> tesseract_client \<Rightarrow> string \<Rightarrow> string option \<Rightarrow> client_error + pg_scored_result list" where
  "client_query net c vql user_id = client_result pq_success pq_error pq_results
     (net (tl_timeout_ms c) (tl_base_url c @ ''/query'') \<lparr>qa_vql = vql, qa_user_id = user_id\<rparr>)"

definition client_insert :: "pg_insert_net \<Rightarrow> tesseract_client \<Rightarrow> u64 \<Rightarrow> f64 list \<Rightarrow> json option \<Rightarrow> client_error + u64" where
  "client_insert net c vid v metadata = client_result pi_success pi_error pi_id
     (net (tl_timeout_ms c) (tl_base_url c @ ''/insert'') \<lparr>ia_id = vid, ia_vector = v, ia_metadata = metadata\<rparr>)"

section \<open>The SQL functions\<close>

record guc =
  guc_host :: string
  guc_port :: i32
  guc_timeout :: i32

definition default_guc :: guc where
  "default_guc = \<lparr>guc_host = ''localhost'', guc_port = 8081, guc_timeout = 5000\<rparr>"

text \<open>\<open>as u16\<close> truncates, \<open>as u64\<close> extends the sign.\<close>

definition build_client :: "guc \<Rightarrow> tesseract_client" where
  "build_client g = client_new (guc_host g) (ucast (guc_port g)) (scast (guc_timeout g))"

definition tesseract_connect :: "string \<Rightarrow> i32 \<Rightarrow> guc \<Rightarrow> bool \<times> guc" where
  "tesseract_connect host port g = (True, g\<lparr>guc_host := host, guc_port := port\<rparr>)"

definition real_array_to_vec_f64 :: "f32 list \<Rightarrow> f64 list" where
  "real_array_to_vec_f64 arr = map (fcast F64) arr"

datatype sql_state = ERRCODE_CONNECTION_FAILURE | ERRCODE_DATA_EXCEPTION

fun map_client_error :: "client_error \<Rightarrow> sql_state \<times> string" where
  "map_client_error (ConnectionError m) = (ERRCODE_CONNECTION_FAILURE, ''tesseract_fdw: connection refused: '' @ m)"
| "map_client_error (RequestError st m) = (ERRCODE_DATA_EXCEPTION, ''tesseract_fdw: '' @ m)"
| "map_client_error (ClientParseError m) = (ERRCODE_DATA_EXCEPTION, ''tesseract_fdw: parse error: '' @ m)"

text \<open>An \<open>i64\<close> is an integer; \<open>as i64\<close> and \<open>as u64\<close> keep the 64 bits.\<close>

definition tesseract_query :: "query_net \<Rightarrow> guc \<Rightarrow> string \<Rightarrow> (sql_state \<times> string) + (int \<times> f32 \<times> json) list" where
  "tesseract_query net g vql = (case client_query net (build_client g) vql None of
       Inr results \<Rightarrow> Inr (map (\<lambda>r. (sint (pr_id r), pr_score r, pr_metadata r)) results)
     | Inl e \<Rightarrow> Inl (map_client_error e))"

definition tesseract_insert :: "pg_insert_net \<Rightarrow> guc \<Rightarrow> int \<Rightarrow> f32 list \<Rightarrow> json option \<Rightarrow> (sql_state \<times> string) + int" where
  "tesseract_insert net g vid v metadata = (case client_insert net (build_client g) (word_of_int vid) (real_array_to_vec_f64 v) metadata of
       Inr inserted \<Rightarrow> Inr (sint inserted)
     | Inl e \<Rightarrow> Inl (map_client_error e))"

section \<open>The MCP server\<close>

record tesseract_mcp =
  mc_api_url :: string
  mc_api_key :: "string option"

record mcp_request =
  mq_method :: string
  mq_url :: string
  mq_headers :: "(string \<times> string) list"
  mq_body :: "json option"

definition trim_end_matches :: "char \<Rightarrow> string \<Rightarrow> string" where
  "trim_end_matches c s = rev (dropWhile (\<lambda>d. d = c) (rev s))"

definition mcp_request_of :: "tesseract_mcp \<Rightarrow> string \<Rightarrow> string \<Rightarrow> json option \<Rightarrow> mcp_request" where
  "mcp_request_of M meth path body = \<lparr>mq_method = meth, mq_url = trim_end_matches (CHR ''/'') (mc_api_url M) @ path,
     mq_headers = (case mc_api_key M of Some key \<Rightarrow> [(''X-API-Key'', key)] | None \<Rightarrow> []), mq_body = body\<rparr>"

text \<open>Sending gives an error text, or the status and the text of the body, if it can be read.\<close>

type_synonym mcp_send = "mcp_request \<Rightarrow> string + nat \<times> string option"

datatype mcp_error = InvalidParams string | InternalError string | InvalidRequest string

datatype tool_result = ToolSuccess string | ToolError string

definition json_str :: "(string \<times> json) list \<Rightarrow> string \<Rightarrow> string option" where
  "json_str params k = (case map_of params k of Some (JString s) \<Rightarrow> Some s | _ \<Rightarrow> None)"

definition json_array :: "(string \<times> json) list \<Rightarrow> string \<Rightarrow> json list option" where
  "json_array params k = (case map_of params k of Some (JArray xs) \<Rightarrow> Some xs | _ \<Rightarrow> None)"

text \<open>The answer of the server as a tool result; \<open>wrap\<close> makes the text of a success from the body.\<close>

definition post_tool :: "(nat \<Rightarrow> string) \<Rightarrow> mcp_send \<Rightarrow> mcp_request \<Rightarrow> (string \<Rightarrow> string) \<Rightarrow> mcp_error + tool_result" where
  "post_tool show_status send req wrap = (case send req of
       Inl e \<Rightarrow> Inl (InternalError (''connection failed: '' @ e))
     | Inr (code, t) \<Rightarrow> (let body = (case t of Some b \<Rightarrow> b | None \<Rightarrow> []) in
         Inr (if http_success code then ToolSuccess (wrap body) else ToolError (''HTTP '' @ show_status code @ '': '' @ body))))"

definition exec_query :: "(nat \<Rightarrow> string) \<Rightarrow> mcp_send \<Rightarrow> tesseract_mcp \<Rightarrow> (string \<times> json) list option \<Rightarrow> mcp_error + tool_result" where
  "exec_query show_status send M args = (case args of
       None \<Rightarrow> Inl (InvalidParams ''missing arguments'')
     | Some params \<Rightarrow> (case json_str params ''vql'' of
         None \<Rightarrow> Inl (InvalidParams (''missing '' @ [CHR 0x27] @ ''vql'' @ [CHR 0x27] @ '' string argument''))
       | Some vql \<Rightarrow> post_tool show_status send (mcp_request_of M ''POST'' ''/query'' (Some (JObject [(''vql'', JString vql)]))) (\<lambda>b. b)))"

text \<open>\<open>json!\<close> of a float: null when it is not finite.\<close>

definition json_f64 :: "f64 \<Rightarrow> json" where
  "json_f64 x = (if is_finite x then JNumber (JFloat x) else JNull)"

definition insert_payload :: "(string \<Rightarrow> string + json) \<Rightarrow> (string \<times> json) list \<Rightarrow> string \<Rightarrow> json list \<Rightarrow> json" where
  "insert_payload from_str params vid vs = JObject ([(''id'', JString vid), (''vector'', JArray (map json_f64 (List.map_filter json_as_f64 vs)))] @
     (case json_str params ''metadata'' of None \<Rightarrow> []
      | Some m \<Rightarrow> [(''metadata'', case from_str m of Inr parsed \<Rightarrow> parsed | Inl _ \<Rightarrow> JObject [(''raw'', JString m)])]))"

definition exec_insert :: "(nat \<Rightarrow> string) \<Rightarrow> (string \<Rightarrow> string + json) \<Rightarrow> mcp_send \<Rightarrow> tesseract_mcp \<Rightarrow> (string \<times> json) list option \<Rightarrow> mcp_error + tool_result" where
  "exec_insert show_status from_str send M args = (case args of
       None \<Rightarrow> Inl (InvalidParams ''missing arguments'')
     | Some params \<Rightarrow> (case json_str params ''id'' of
         None \<Rightarrow> Inl (InvalidParams (''missing '' @ [CHR 0x27] @ ''id'' @ [CHR 0x27] @ '' string argument''))
       | Some vid \<Rightarrow> (case json_array params ''vector'' of
           None \<Rightarrow> Inl (InvalidParams (''missing '' @ [CHR 0x27] @ ''vector'' @ [CHR 0x27] @ '' array argument''))
         | Some vs \<Rightarrow> post_tool show_status send (mcp_request_of M ''POST'' ''/insert'' (Some (insert_payload from_str params vid vs)))
             (\<lambda>body. ''ok: vector '' @ vid @ '' inserted. response: '' @ body))))"

definition exec_status :: "mcp_send \<Rightarrow> tesseract_mcp \<Rightarrow> mcp_error + tool_result" where
  "exec_status send M = (case send (mcp_request_of M ''GET'' ''/health/liveness'' None) of
       Inl e \<Rightarrow> Inl (InternalError (''connection failed: '' @ e))
     | Inr (_, t) \<Rightarrow> Inr (ToolSuccess (case t of Some b \<Rightarrow> b | None \<Rightarrow> [])))"

definition call_tool :: "(nat \<Rightarrow> string) \<Rightarrow> (string \<Rightarrow> string + json) \<Rightarrow> mcp_send \<Rightarrow> tesseract_mcp \<Rightarrow> string \<Rightarrow> (string \<times> json) list option \<Rightarrow> mcp_error + tool_result" where
  "call_tool show_status from_str send M name args =
     (if name = ''tesseract_query'' then exec_query show_status send M args
      else if name = ''tesseract_insert'' then exec_insert show_status from_str send M args
      else if name = ''tesseract_status'' then exec_status send M
      else Inl (InvalidRequest (''unknown tool: '' @ name)))"

text \<open>The tools with the schemas of their arguments.\<close>

definition query_schema :: json where
  "query_schema = JObject [(''type'', JString ''object''),
     (''properties'', JObject [(''vql'', JObject [(''type'', JString ''string''),
        (''description'', JString ''VQL query string, e.g. FIND SIMILARITY(emb, VECTOR(0.1, 0.2)) LIMIT 5'')])]),
     (''required'', JArray [JString ''vql''])]"

definition insert_schema :: json where
  "insert_schema = JObject [(''type'', JString ''object''),
     (''properties'', JObject
       [(''id'', JObject [(''type'', JString ''string''), (''description'', JString ''Unique identifier for the vector'')]),
        (''vector'', JObject [(''type'', JString ''array''), (''items'', JObject [(''type'', JString ''number'')]), (''description'', JString ''Array of float values'')]),
        (''metadata'', JObject [(''type'', JString ''string''), (''description'', JString (''Optional JSON metadata string, e.g. '' @ [CHR 0x27] @ ''{'' @ [CHR 0x22] @
          ''category'' @ [CHR 0x22] @ '': '' @ [CHR 0x22] @ ''science'' @ [CHR 0x22] @ ''}'' @ [CHR 0x27]))])]),
     (''required'', JArray [JString ''id'', JString ''vector''])]"

definition status_schema :: json where
  "status_schema = JObject [(''type'', JString ''object''), (''properties'', JObject [])]"

definition list_tools :: "(string \<times> string \<times> json) list" where
  "list_tools =
     [(''tesseract_query'', ''Search vectors using VQL (Vector Query Language). Supports FIND SIMILARITY, metadata filters, topological bias, and pagination.'', query_schema),
      (''tesseract_insert'', ''Insert a vector with optional JSON metadata into the Tesseract database. Vectors are immediately searchable via the hot buffer.'', insert_schema),
      (''tesseract_status'', ''Check the Tesseract server health. Returns liveness and component-level readiness.'', status_schema)]"

section \<open>SQL against the server\<close>

text \<open>A \<open>BIGINT\<close> keeps its value on the way to the server and back, and so does an identifier of the server.\<close>

lemma bigint_id: "- (2 ^ 63) \<le> i \<Longrightarrow> i < 2 ^ 63 \<Longrightarrow> sint (word_of_int i :: u64) = i"
  by (simp add: sint_sbintrunc' signed_take_bit_int_eq_self)

lemma id_bigint: "(word_of_int (sint w) :: u64) = w"
  by simp

text \<open>The reply of the insert handler as the client decodes it, with the texts of its errors.\<close>

definition decoded_insert :: "(msg \<Rightarrow> string) \<Rightarrow> insert_response \<Rightarrow> pg_insert_response" where
  "decoded_insert show_msg b = \<lparr>pi_success = is_success b, pi_id = is_id b, pi_error = map_option show_msg (is_error b)\<rparr>"

text \<open>
  SQL inserts reach the engine. If the request arrives as it was sent (its metadata is not \<open>null\<close>, which the server reads as none) and the network delivers the server's reply to the request of \<open>tesseract_insert\<close>, the function returns the identifier it was given
  exactly when the engine stored the widened vector under it; otherwise it raises a data exception with the text of the engine's error.
\<close>

lemma pg_insert_end_to_end:
  assumes "- (2 ^ 63) \<le> i" and "i < 2 ^ 63" and "metadata \<noteq> Some JNull"
    and "engine_insert E ms secs r (word_of_int i) (map (fcast F64) v) (case metadata of Some j \<Rightarrow> j | None \<Rightarrow> JObject []) Durable (ap_storage st) = Some (res, en')"
    and "insert_handler E ms secs r \<lparr>ir_id = word_of_int i, ir_vector = map (fcast F64) v, ir_metadata = metadata\<rparr> st = Some ((code, b), st')"
    and "net (scast (guc_timeout g)) (base_url_of (guc_host g) (ucast (guc_port g)) @ ''/insert'')
      \<lparr>ia_id = word_of_int i, ia_vector = map (fcast F64) v, ia_metadata = metadata\<rparr> = Answer (code, decoded_insert show_msg b)"
  shows "st' = st\<lparr>ap_storage := en'\<rparr> \<and> tesseract_insert net g i v metadata =
    (case res of Inr _ \<Rightarrow> Inr i | Inl e \<Rightarrow> Inl (ERRCODE_DATA_EXCEPTION, ''tesseract_fdw: '' @ show_msg (Display e)))"
proof -
  have "st' = st\<lparr>ap_storage := en'\<rparr> \<and> (code, b) = (case res of Inr _ \<Rightarrow> (CREATED, \<lparr>is_success = True, is_id = word_of_int i, is_error = None\<rparr>)
      | Inl e \<Rightarrow> (BAD_REQUEST, insert_failed (word_of_int i) (Display e)))"
    using assms(4,5) by (cases res) (auto simp: insert_handler_def)
  then show ?thesis using assms(6) bigint_id [OF assms(1,2)]
    by (cases res) (auto simp: tesseract_insert_def client_insert_def client_result_def build_client_def client_new_def real_array_to_vec_f64_def decoded_insert_def
      http_success_def CREATED_def BAD_REQUEST_def insert_failed_def)
qed

section \<open>The tools of the MCP server\<close>

text \<open>The part of JSON Schema that the schemas use: required members, and members with the types of strings, numbers and arrays of them.\<close>

fun json_typed :: "string \<Rightarrow> json \<Rightarrow> bool" where
  "json_typed t (JString _) = (t = ''string'')"
| "json_typed t (JNumber _) = (t = ''number'')"
| "json_typed t (JArray _) = (t = ''array'')"
| "json_typed t (JObject _) = (t = ''object'')"
| "json_typed t (JBool _) = (t = ''boolean'')"
| "json_typed t JNull = (t = ''null'')"

definition conforms_to :: "json \<Rightarrow> json \<Rightarrow> bool" where
  "conforms_to sch v \<longleftrightarrow> json_typed (json_text sch ''type'' []) v \<and>
     (case (json_get sch ''items'', v) of (Some it, JArray xs) \<Rightarrow> list_all (json_typed (json_text it ''type'' [])) xs | _ \<Rightarrow> True)"

definition conforms :: "json \<Rightarrow> (string \<times> json) list \<Rightarrow> bool" where
  "conforms sch params \<longleftrightarrow>
     (case json_get sch ''required'' of Some (JArray ks) \<Rightarrow> list_all (\<lambda>k. case k of JString n \<Rightarrow> map_of params n \<noteq> None | _ \<Rightarrow> False) ks | _ \<Rightarrow> True) \<and>
     (case json_get sch ''properties'' of Some (JObject props) \<Rightarrow> list_all (\<lambda>(n, p). case map_of params n of Some v \<Rightarrow> conforms_to p v | None \<Rightarrow> True) props | _ \<Rightarrow> True)"

lemma typed_string: "json_typed ''string'' v \<Longrightarrow> \<exists>s. v = JString s"
  by (cases v) auto

lemma typed_array: "json_typed ''array'' v \<Longrightarrow> \<exists>xs. v = JArray xs"
  by (cases v) auto

text \<open>A call of a listed tool whose arguments conform to its schema fails only when the server cannot be reached.\<close>

lemma listed_tools_work:
  assumes "(name, descr, sch) \<in> set list_tools" and "conforms sch params"
  shows "(\<exists>r. call_tool show_status from_str send M name (Some params) = Inr r) \<or>
    (\<exists>e. call_tool show_status from_str send M name (Some params) = Inl (InternalError (''connection failed: '' @ e)))"
proof -
  have p: "(\<exists>r. post_tool show_status send req wrap = Inr r) \<or> (\<exists>e. post_tool show_status send req wrap = Inl (InternalError (''connection failed: '' @ e)))" for req wrap
    by (cases "send req") (auto simp: post_tool_def Let_def)
  consider (query) "name = ''tesseract_query''" "sch = query_schema" | (insert) "name = ''tesseract_insert''" "sch = insert_schema"
    | (status) "name = ''tesseract_status''" using assms(1) by (auto simp: list_tools_def)
  then show ?thesis
  proof cases
    case query
    then obtain vql where "map_of params ''vql'' = Some (JString vql)"
      using assms(2) by (fastforce simp: query_schema_def conforms_def conforms_to_def json_get_def json_text_def dest: typed_string)
    then show ?thesis using query p by (simp add: call_tool_def exec_query_def json_str_def)
  next
    case insert
    then obtain vid xs where "map_of params ''id'' = Some (JString vid)" "map_of params ''vector'' = Some (JArray xs)"
      using assms(2) by (fastforce simp: insert_schema_def conforms_def conforms_to_def json_get_def json_text_def dest: typed_string typed_array)
    then show ?thesis using insert p by (simp add: call_tool_def exec_insert_def json_str_def json_array_def)
  next
    case status
    then show ?thesis by (cases "send (mcp_request_of M ''GET'' ''/health/liveness'' None)") (auto simp: call_tool_def exec_status_def)
  qed
qed

text \<open>
  Every insert sends its identifier as a JSON string, but the server reads an unsigned integer: a server that refuses such bodies never stores anything
  for this tool.
\<close>

lemma mcp_insert_never_succeeds:
  assumes "\<And>req code t. mq_url req = trim_end_matches (CHR ''/'') (mc_api_url M) @ ''/insert'' \<Longrightarrow>
      (\<exists>j. mq_body req = Some j \<and> (\<forall>n. json_get j ''id'' \<noteq> Some (JNumber n))) \<Longrightarrow> send req = Inr (code, t) \<Longrightarrow> \<not> http_success code"
  shows "call_tool show_status from_str send M ''tesseract_insert'' args \<noteq> Inr (ToolSuccess s)"
proof -
  have "\<not> http_success code" if "send (mcp_request_of M ''POST'' ''/insert'' (Some (insert_payload from_str params vid vs))) = Inr (code, t)" for params vid vs code t
    using assms [OF _ _ that] by (simp add: mcp_request_of_def insert_payload_def json_get_def)
  then show ?thesis
    by (auto simp: call_tool_def exec_insert_def post_tool_def Let_def split: option.splits sum.splits)
qed

end
