(* ===== verification/Embedding.thy ===== *)
theory Embedding
  imports Core_Types
begin

text \<open>
  The embedding services of \<open>tesseract-core/src/embedding.rs\<close>: the one that always fails and the client of an OpenAI-compatible endpoint with its retries. The exchange
  with the endpoint is a parameter that may answer differently at every attempt; the text of an environment variable is one too. A response is its
  status, its text and what the JSON parser makes of it. The sleeps between attempts are the list of their lengths in milliseconds.
\<close>

definition noop_embed :: "string \<Rightarrow> string \<Rightarrow> f64 list result" where
  "noop_embed text model = Inl (ServiceError
     ''No embedding service configured. Provide a vector directly or configure an embedding provider.'')"

record openai_config =
  oc_timeout_secs :: u64
  oc_max_retries :: u32
  oc_base_delay_ms :: u64

definition default_openai_config :: openai_config where
  "default_openai_config = \<lparr>oc_timeout_secs = 30, oc_max_retries = 3, oc_base_delay_ms = 1000\<rparr>"

definition openai_new :: "string option \<Rightarrow> string option \<Rightarrow> openai_config" where
  "openai_new timeout_var retry_var =
     \<lparr>oc_timeout_secs = (case Option.bind timeout_var (parse_unsigned 64) of Some n \<Rightarrow> word_of_nat n | None \<Rightarrow> 30),
      oc_max_retries = (case Option.bind retry_var (parse_unsigned 32) of Some n \<Rightarrow> word_of_nat n | None \<Rightarrow> 3),
      oc_base_delay_ms = 1000\<rparr>"

record response =
  rs_status :: nat
  rs_text :: string
  rs_json :: "string + json"

datatype send_result = TimedOut | SendFailed | Response response

text \<open>\<open>Value\<close> indexing gives \<open>Null\<close> for what is not there.\<close>

definition json_index :: "json \<Rightarrow> string \<Rightarrow> json" where
  "json_index j field = (case json_get j field of Some v \<Rightarrow> v | None \<Rightarrow> JNull)"

definition json_first :: "json \<Rightarrow> json" where
  "json_first j = (case j of JArray (v # _) \<Rightarrow> v | _ \<Rightarrow> JNull)"

definition embedding_of :: "json \<Rightarrow> f64 list result" where
  "embedding_of body = (case json_index (json_first (json_index body ''data'')) ''embedding'' of
       JArray vs \<Rightarrow> Inr (map (\<lambda>v. case json_as_f64 v of Some x \<Rightarrow> x | None \<Rightarrow> Num 0) vs)
     | _ \<Rightarrow> Inl (ServiceError ''Unexpected embedding response format''))"

definition call_openai :: "openai_config \<Rightarrow> send_result \<Rightarrow> f64 list result" where
  "call_openai C sent = (case sent of
       TimedOut \<Rightarrow> Inl (ServiceError (''Embedding request timed out after '' @ show_nat (unat (oc_timeout_secs C)) @ ''s''))
     | SendFailed \<Rightarrow> Inl IoError
     | Response resp \<Rightarrow> (let status = rs_status resp in
         if 500 \<le> status \<and> status \<le> 599 \<or> status = 429
         then (if status = 429 then Inl (ServiceError (''Embedding rate limited (429): '' @ rs_text resp))
               else Inl (ServiceError (''Embedding server error ('' @ show_nat status @ ''): '' @ rs_text resp)))
         else if \<not> (200 \<le> status \<and> status \<le> 299)
         then Inl (ServiceError (''Embedding request failed ('' @ show_nat status @ ''): '' @ rs_text resp))
         else case rs_json resp of
           Inl e \<Rightarrow> Inl (ServiceError (''Failed to parse embedding response: '' @ e))
         | Inr body \<Rightarrow> embedding_of body))"

definition is_retryable :: "error \<Rightarrow> bool" where
  "is_retryable e = (case e of ServiceError msg \<Rightarrow> starts_with msg ''Embedding rate limited'' \<or> starts_with msg ''Embedding server error''
     | _ \<Rightarrow> False)"

text \<open>
  The loop over the attempts from \<open>attempt\<close> on, with the sleeps it makes. The power and the product are \<open>u64\<close> and wrap (as in a release build); an error that can be
  retried is kept as the last one.
\<close>

function embed_loop :: "openai_config \<Rightarrow> (nat \<Rightarrow> send_result) \<Rightarrow> nat \<Rightarrow> error option \<Rightarrow> f64 list result \<times> u64 list" where
  "embed_loop C send attempt last_error =
     (if unat (oc_max_retries C) < attempt
      then (Inl (case last_error of Some e \<Rightarrow> e | None \<Rightarrow> ServiceError ''Embedding retries exhausted''), [])
      else let sleeps = (if 0 < attempt then [oc_base_delay_ms C * 2 ^ (attempt - 1)] else []) in
        case call_openai C (send attempt) of
          Inr v \<Rightarrow> (Inr v, sleeps)
        | Inl e \<Rightarrow> if is_retryable e
            then (case embed_loop C send (attempt + 1) (Some e) of (res, rest) \<Rightarrow> (res, sleeps @ rest))
            else (Inl e, sleeps))"
  by pat_completeness auto

termination
  by (relation "measure (\<lambda>(C, send, attempt, _). unat (oc_max_retries C) + 1 - attempt)") auto

declare embed_loop.simps [simp del]

definition openai_embed :: "openai_config \<Rightarrow> (nat \<Rightarrow> send_result) \<Rightarrow> f64 list result \<times> u64 list" where
  "openai_embed C send = embed_loop C send 0 None"

section \<open>What the retries give\<close>

text \<open>
  The client makes attempts until one does not fail with an error that can be retried, but no more than the configured number of retries; the result is the one of the last
  attempt, and there is one sleep before each attempt but the first.
\<close>

lemma embed_loop_spec:
  assumes "attempt \<le> k" "k \<le> unat (oc_max_retries C)"
    and "\<forall>i\<in>{attempt..<k}. \<exists>e. call_openai C (send i) = Inl e \<and> is_retryable e"
    and "k < unat (oc_max_retries C) \<longrightarrow> (\<forall>e. call_openai C (send k) = Inl e \<longrightarrow> \<not> is_retryable e)"
  shows "embed_loop C send attempt le = (call_openai C (send k), map (\<lambda>i. oc_base_delay_ms C * 2 ^ (i - 1)) (filter ((<) 0) [attempt..<Suc k]))"
  using assms
proof (induction "k - attempt" arbitrary: attempt le)
  case 0
  then have k: "attempt = k" by simp
  note unfold = embed_loop.simps [of C send k le]
  show ?case
  proof (cases "call_openai C (send k)")
    case (Inl e)
    show ?thesis
    proof (cases "is_retryable e")
      case True
      then have "k = unat (oc_max_retries C)" using 0 Inl by (metis order_le_less)
      then have "embed_loop C send (k + 1) (Some e) = (Inl e, [])" using embed_loop.simps [of C send "k + 1" "Some e"] by simp
      then show ?thesis using unfold 0 k Inl True by (simp add: Let_def)
    next
      case False
      then show ?thesis using unfold 0 k Inl by (simp add: Let_def)
    qed
  next
    case (Inr v)
    then show ?thesis using unfold 0 k by (simp add: Let_def)
  qed
next
  case (Suc d)
  then have "attempt \<in> {attempt..<k}" by auto
  then obtain e where e: "call_openai C (send attempt) = Inl e" "is_retryable e" using Suc.prems(3) by blast
  have "embed_loop C send (attempt + 1) (Some e) =
      (call_openai C (send k), map (\<lambda>i. oc_base_delay_ms C * 2 ^ (i - 1)) (filter ((<) 0) [attempt + 1..<Suc k]))"
    by (rule Suc.hyps(1)) (use Suc.hyps(2) Suc.prems in auto)
  moreover have "[attempt..<Suc k] = attempt # [attempt + 1..<Suc k]" using Suc.hyps(2) by (simp add: upt_conv_Cons)
  moreover have "\<not> unat (oc_max_retries C) < attempt" using Suc.hyps(2) Suc.prems(2) by linarith
  ultimately show ?case using embed_loop.simps [of C send attempt le] e by (simp add: Let_def del: upt_Suc)
qed

text \<open>
  C40. The embedding client always comes back, with the result of its last attempt. It makes attempts \<open>0\<close> to \<open>k\<close>, where \<open>k\<close> is at most the configured number of retries: all but the
  last failed with a rate limit or a server error, and the last one did not or was the last one allowed. Before attempt \<open>i > 0\<close> it sleeps \<open>base * 2 ^ (i - 1)\<close> milliseconds.
\<close>

theorem openai_embed_spec:
  "\<exists>k \<le> unat (oc_max_retries C). (\<forall>i < k. \<exists>e. call_openai C (send i) = Inl e \<and> is_retryable e) \<and>
     (k < unat (oc_max_retries C) \<longrightarrow> (\<forall>e. call_openai C (send k) = Inl e \<longrightarrow> \<not> is_retryable e)) \<and>
     openai_embed C send = (call_openai C (send k), map (\<lambda>i. oc_base_delay_ms C * 2 ^ i) [0..<k])"
proof -
  let ?P = "\<lambda>i. i = unat (oc_max_retries C) \<or> (\<forall>e. call_openai C (send i) = Inl e \<longrightarrow> \<not> is_retryable e)"
  define k where "k = (LEAST i. ?P i)"
  have P: "?P k" unfolding k_def by (rule LeastI [of ?P "unat (oc_max_retries C)"]) simp
  have le: "k \<le> unat (oc_max_retries C)" unfolding k_def by (rule Least_le) simp
  have before: "\<exists>e. call_openai C (send i) = Inl e \<and> is_retryable e" if "i < k" for i using not_less_Least [of i ?P] that unfolding k_def by blast
  have "filter ((<) 0) [0..<Suc k] = map Suc [0..<k]" by (simp add: map_Suc_upt filter_id_conv upt_conv_Cons del: upt_Suc)
  moreover have "embed_loop C send 0 None = (call_openai C (send k), map (\<lambda>i. oc_base_delay_ms C * 2 ^ (i - 1)) (filter ((<) 0) [0..<Suc k]))"
    by (rule embed_loop_spec) (use P le before in auto)
  ultimately have "openai_embed C send = (call_openai C (send k), map (\<lambda>i. oc_base_delay_ms C * 2 ^ i) [0..<k])"
    by (simp add: openai_embed_def del: upt_Suc)
  then show ?thesis using P le before by blast
qed

theorem openai_embed_spec_witness:
  "\<exists>k \<le> 3. openai_embed default_openai_config (\<lambda>_. SendFailed) = (Inl IoError, map (\<lambda>i. 1000 * 2 ^ i) [0..<k])"
  using openai_embed_spec [of default_openai_config "\<lambda>_. SendFailed"]
  by (auto simp: default_openai_config_def call_openai_def)

end
