(* ===== verification/Shell.thy ===== *)
theory Shell
  imports Api Embedding
begin

text \<open>
  The interactive shell, \<open>tesseract-vql/src/repl.rs\<close>: the command line, the loop over the input lines with its multi-line mode, and the queries of a file. What the shell prints is
  the list of its actions; the layout of the table is in \<open>Programs\<close>, banners are left out. The query parser is a parameter, and so is the \<open>Display\<close> of its errors.
\<close>

section \<open>Command line\<close>

record args =
  ar_data_dir :: string
  ar_dim :: nat
  ar_cold_dir :: string

datatype exit = ExitWith nat | Abort string

text \<open>\<open>Path::join\<close> of a relative component.\<close>

definition path_join :: "string \<Rightarrow> string \<Rightarrow> string" where
  "path_join a b = (if a = [] \<or> last a = CHR ''/'' then a @ b else a @ ''/'' @ b)"

text \<open>\<open>--help\<close> exits with 0, an unknown argument with 1; a missing or malformed value is a panic.\<close>

fun parse_args :: "string \<Rightarrow> nat \<Rightarrow> string option \<Rightarrow> string list \<Rightarrow> exit + args" where
  "parse_args dir d cold [] = Inr \<lparr>ar_data_dir = dir, ar_dim = d, ar_cold_dir = (case cold of Some c \<Rightarrow> c | None \<Rightarrow> path_join dir ''cold'')\<rparr>"
| "parse_args dir d cold (x # xs) =
     (if x = ''--data-dir'' then (case xs of v # ys \<Rightarrow> parse_args v d cold ys | [] \<Rightarrow> Inl (Abort ''--data-dir requires a path argument''))
      else if x = ''--dim'' then (case xs of [] \<Rightarrow> Inl (Abort ''--dim requires a number argument'')
        | v # ys \<Rightarrow> (case parse_unsigned 64 v of Some n \<Rightarrow> parse_args dir n cold ys | None \<Rightarrow> Inl (Abort ''--dim must be an integer'')))
      else if x = ''--cold-dir'' then (case xs of v # ys \<Rightarrow> parse_args dir d (Some v) ys | [] \<Rightarrow> Inl (Abort ''--cold-dir requires a path argument''))
      else if x = ''--help'' \<or> x = ''-h'' then Inl (ExitWith 0) else Inl (ExitWith 1))"

definition shell_args :: "string list \<Rightarrow> exit + args" where
  "shell_args raw = parse_args ''./vql-data'' 384 None raw"

section \<open>The loop\<close>

record shell =
  sh_buf :: string
  sh_multi_line :: bool

datatype action =
    RunQuery string
  | ShowPlan string
  | ShowAst string
  | LoadFile string
  | ShowHelp
  | UnknownCommand string
  | ParseFailed error

text \<open>The error texts that make the shell ask for more input.\<close>

definition is_incomplete :: "(error \<Rightarrow> string) \<Rightarrow> error \<Rightarrow> bool" where
  "is_incomplete display e = contains (display e) ''Incomplete''"

definition shell_command :: "string \<Rightarrow> action option" where
  "shell_command cmd = (if cmd = '':quit'' \<or> cmd = '':q'' then None
     else Some (if cmd = '':help'' then ShowHelp
       else if starts_with cmd '':plan '' then ShowPlan (drop 6 cmd)
       else if starts_with cmd '':ast '' then ShowAst (drop 5 cmd)
       else if starts_with cmd '':load '' then LoadFile (drop 6 cmd)
       else UnknownCommand cmd))"

text \<open>One line of input: the actions and the next state, or \<open>None\<close> when the loop ends.\<close>

definition shell_line :: "(string \<Rightarrow> query result) \<Rightarrow> (error \<Rightarrow> string) \<Rightarrow> string \<Rightarrow> shell \<Rightarrow> (action list \<times> shell) option" where
  "shell_line parse display line s =
     (let trimmed = trim line in
      if \<not> sh_multi_line s \<and> trimmed = [] then Some ([], s)
      else if \<not> sh_multi_line s \<and> starts_with trimmed '':'' then map_option (\<lambda>a. ([a], s)) (shell_command trimmed)
      else let buf = (if sh_multi_line s then sh_buf s @ '' '' @ trimmed else trimmed) in
        if buf = [] then Some ([], \<lparr>sh_buf = buf, sh_multi_line = False\<rparr>)
        else case parse buf of
          Inr _ \<Rightarrow> Some ([RunQuery buf], \<lparr>sh_buf = [], sh_multi_line = False\<rparr>)
        | Inl e \<Rightarrow> if is_incomplete display e then Some ([], \<lparr>sh_buf = buf, sh_multi_line = True\<rparr>)
            else Some ([ParseFailed e], \<lparr>sh_buf = [], sh_multi_line = False\<rparr>))"

text \<open>The loop up to the end of the input or a command to quit.\<close>

fun repl_loop :: "(string \<Rightarrow> query result) \<Rightarrow> (error \<Rightarrow> string) \<Rightarrow> string list \<Rightarrow> shell \<Rightarrow> action list" where
  "repl_loop parse display [] s = []"
| "repl_loop parse display (line # ls) s = (case shell_line parse display line s of
     None \<Rightarrow> [] | Some (as, s') \<Rightarrow> as @ repl_loop parse display ls s')"

definition shell_start :: shell where
  "shell_start = \<lparr>sh_buf = [], sh_multi_line = False\<rparr>"

text \<open>The lines of a file that are run as queries, with their numbers.\<close>

fun load_lines :: "nat \<Rightarrow> string list \<Rightarrow> (nat \<times> string) list" where
  "load_lines n [] = []"
| "load_lines n (line # ls) = (let t = trim line in
     if t = [] \<or> starts_with t ''--'' \<or> starts_with t ''//'' \<or> starts_with t ''#'' then load_lines (n + 1) ls
     else (n + 1, t) # load_lines (n + 1) ls)"

section \<open>What a query goes through\<close>

datatype stage = AstShown query | PlanShown plan_node | ResultsShown "scored_result list" | ParseRefused error | PlanError error | ExecutionError error

definition handle_ast :: "(string \<Rightarrow> query result) \<Rightarrow> string \<Rightarrow> stage" where
  "handle_ast parse vql = (case parse vql of Inr q \<Rightarrow> AstShown q | Inl e \<Rightarrow> ParseRefused e)"

definition handle_plan :: "(string \<Rightarrow> query result) \<Rightarrow> libm \<Rightarrow> planner_config \<Rightarrow> string \<Rightarrow> stage" where
  "handle_plan parse L P vql = (case parse vql of Inl e \<Rightarrow> ParseRefused e
     | Inr q \<Rightarrow> (case plan_to_tree L P q of Inr p \<Rightarrow> PlanShown p | Inl e \<Rightarrow> PlanError e))"

definition handle_query :: "(string \<Rightarrow> query result) \<Rightarrow> query_executor \<Rightarrow> 'c engine \<Rightarrow> bool \<Rightarrow> string \<Rightarrow> stage list" where
  "handle_query parse X en timed_out vql = (case parse vql of Inl e \<Rightarrow> [ParseRefused e]
     | Inr q \<Rightarrow> AstShown q # (case plan_to_tree (qe_libm X) (qe_planner X) q of Inl e \<Rightarrow> [PlanError e]
         | Inr p \<Rightarrow> [PlanShown p, case execute_vql parse X en timed_out vql None of
             Inr r \<Rightarrow> ResultsShown (qr_results r) | Inl e \<Rightarrow> ExecutionError e]))"

section \<open>The shell runs only what parses\<close>

text \<open>Between lines the buffer is empty, or it holds a text that the parser finds incomplete.\<close>

definition shell_inv :: "(string \<Rightarrow> query result) \<Rightarrow> (error \<Rightarrow> string) \<Rightarrow> shell \<Rightarrow> bool" where
  "shell_inv parse display s \<longleftrightarrow> (if sh_multi_line s then sh_buf s \<noteq> [] \<and> (\<exists>e. parse (sh_buf s) = Inl e \<and> is_incomplete display e) else sh_buf s = [])"

lemma shell_inv_start: "shell_inv parse display shell_start"
  by (simp add: shell_inv_def shell_start_def)

lemma shell_line_step:
  assumes "shell_inv parse display s" "shell_line parse display line s = Some (as, s')"
  shows "shell_inv parse display s'" "RunQuery q \<in> set as \<Longrightarrow> \<exists>x. parse q = Inr x"
proof -
  have c: "shell_command t \<noteq> Some (RunQuery q)" for t by (auto simp: shell_command_def split: if_splits)
  show "shell_inv parse display s'" using assms
    by (auto simp: shell_line_def shell_inv_def Let_def split: if_splits sum.splits)
  show "RunQuery q \<in> set as \<Longrightarrow> \<exists>x. parse q = Inr x" using assms(2) c
    by (auto simp: shell_line_def Let_def split: if_splits sum.splits)
qed

lemma repl_runs_parsed: "shell_inv parse display s \<Longrightarrow> RunQuery q \<in> set (repl_loop parse display ls s) \<Longrightarrow> \<exists>x. parse q = Inr x"
proof (induction ls arbitrary: s)
  case (Cons l ls)
  obtain as s' where st: "shell_line parse display l s = Some (as, s')"
    using Cons.prems(2) by (cases "shell_line parse display l s") auto
  note step = shell_line_step [OF Cons.prems(1) st]
  show ?case using Cons.prems(2) st step(2) [of q] Cons.IH [OF step(1)] by auto
qed simp

text \<open>The plan that the shell shows is the one that the executor runs.\<close>

lemma shown_plan_runs:
  assumes "PlanShown p \<in> set (handle_query parse X en False vql)" "ResultsShown rs \<in> set (handle_query parse X en False vql)"
  shows "\<exists>qv. execute_plan X en p qv None = Inr rs"
proof -
  obtain q where q: "parse vql = Inr q" "plan_to_tree (qe_libm X) (qe_planner X) q = Inr p"
    using assms(1) by (auto simp: handle_query_def split: sum.splits)
  then obtain res where "execute_query X en False q None = Inr res" "rs = qr_results res"
    using assms(2) by (auto simp: handle_query_def execute_vql_def split: sum.splits)
  then show ?thesis using q(2) by (auto simp: execute_query_def rbind_eq_Inr)
qed

end
