(* ===== verification/Programs.thy ===== *)
theory Programs
  imports Cluster_Node Shell
begin

text \<open>
  What the programs put together: the settings and the start of the API server (\<open>tesseract-api/src/main.rs\<close>), of the cluster node (\<open>tesseract-cluster/src/main.rs\<close>) and
  of the shell (\<open>tesseract-vql/src/repl.rs\<close>, with the table it prints), and the etcd discovery (\<open>tesseract-cluster/src/etcd_discovery.rs\<close>). The environment, the storage found at a path,
  the creation of directories and the etcd client are parameters; sockets, signals and logging are not modelled.
\<close>

section \<open>Storage of a program\<close>

text \<open>A configuration with the directories of the log and of the cold tier, and the storage found under paths.\<close>

record program_config =
  po_storage :: storage_config
  po_wal_dir :: string
  po_cold_dir :: string

record program_fs =
  fs_log :: "string \<Rightarrow> dir"
  fs_cold :: "string \<Rightarrow> disk"
  fs_files :: "(string \<times> u8 list) list"

definition open_program :: "'c env \<Rightarrow> (nat \<Rightarrow> nat) \<Rightarrow> (nat \<Rightarrow> f64) \<Rightarrow> program_fs \<Rightarrow> program_config \<Rightarrow> 'c engine result" where
  "open_program E clk rnd fs cfg = engine_open E clk rnd (po_storage cfg) (fs_log fs (po_wal_dir cfg)) (fs_cold fs (po_cold_dir cfg)) (fs_files fs)"

section \<open>The API server\<close>

record server_settings =
  sv_json_log :: bool
  sv_data_dir :: string
  sv_listen_addr :: string
  sv_shutdown_secs :: nat
  sv_query_timeout_secs :: nat
  sv_rate_limit_rpm :: nat

definition env_number :: "(string \<Rightarrow> string option) \<Rightarrow> string \<Rightarrow> nat \<Rightarrow> nat" where
  "env_number vars name d = (case Option.bind (vars name) (parse_unsigned 64) of Some n \<Rightarrow> n | None \<Rightarrow> d)"

definition env_text :: "(string \<Rightarrow> string option) \<Rightarrow> string \<Rightarrow> string \<Rightarrow> string" where
  "env_text vars name d = (case vars name of Some s \<Rightarrow> s | None \<Rightarrow> d)"

definition server_settings_of :: "(string \<Rightarrow> string option) \<Rightarrow> server_settings" where
  "server_settings_of vars = \<lparr>sv_json_log = (env_text vars ''TESSERACT_LOG_FORMAT'' ''text'' = ''json''),
     sv_data_dir = env_text vars ''TESSERACT_DATA_DIR'' ''./data'', sv_listen_addr = env_text vars ''TESSERACT_LISTEN_ADDR'' ''0.0.0.0:3000'',
     sv_shutdown_secs = env_number vars ''TESSERACT_SHUTDOWN_TIMEOUT_SECS'' 30, sv_query_timeout_secs = env_number vars ''TESSERACT_QUERY_TIMEOUT_SECS'' 30,
     sv_rate_limit_rpm = env_number vars ''TESSERACT_RATE_LIMIT_RPM'' 100\<rparr>"

definition server_config :: "libm \<Rightarrow> server_settings \<Rightarrow> program_config" where
  "server_config L s = \<lparr>po_storage = \<lparr>sc_wal = default_wal_config, sc_hot_max = 100000, sc_cold = default_cold_config, sc_cache_capacity = 1000,
       sc_wake_threshold = flit F64 (1 / 2),
       sc_lifecycle = \<lparr>promote_interval_secs = 3600, demote_interval_secs = 3600, lc_hot_max_records = 100000, cold_min_access = 5\<rparr>,
       sc_index = \<lparr>ix_enabled = True, ix_dim = 384, ix_hnsw = default_hnsw_config L, ix_path = path_join (sv_data_dir s) ''index.hnsw''\<rparr>,
       sc_topological = default_topological_config, sc_merkle = default_merkle_config, sc_shutdown_secs = sv_shutdown_secs s\<rparr>,
     po_wal_dir = path_join (sv_data_dir s) ''wal'', po_cold_dir = path_join (sv_data_dir s) ''cold''\<rparr>"

text \<open>The state behind the handlers with the authentication and the rate limiter of the router; \<open>elapsed\<close> are the times the executor measures.\<close>

definition server_start :: "'c env \<Rightarrow> (nat \<Rightarrow> nat) \<Rightarrow> (nat \<Rightarrow> f64) \<Rightarrow> (plan_node \<Rightarrow> f64) \<Rightarrow> program_fs \<Rightarrow> (string \<Rightarrow> string option) \<Rightarrow>
    ('c app_state \<times> auth_provider option \<times> 'ip rate_limiter) result" where
  "server_start E clk rnd elapsed fs vars =
     (let s = server_settings_of vars in
      rbind (open_program E clk rnd fs (server_config (ev_libm E) s)) (\<lambda>storage.
        Inr (\<lparr>ap_executor = \<lparr>qe_planner = default_planner_config, qe_libm = ev_libm E, qe_embed = noop_embed, qe_episodic = [], qe_elapsed = elapsed\<rparr>, ap_storage = storage\<rparr>,
          create_auth_provider (vars ''TESSERACT_AUTH_MODE'') (vars ''TESSERACT_API_KEYS'') (vars ''TESSERACT_JWT_SECRET''),
          rate_limiter_new (word_of_nat (sv_rate_limit_rpm s)))))"

section \<open>The cluster node\<close>

record cluster_cli =
  ci_node_id :: string
  ci_listen :: string
  ci_data_dir :: string
  ci_query_timeout_ms :: u64

definition default_cli :: cluster_cli where
  "default_cli = \<lparr>ci_node_id = ''node-1'', ci_listen = ''127.0.0.1:9001'', ci_data_dir = ''./data'', ci_query_timeout_ms = 5000\<rparr>"

definition cluster_config :: "libm \<Rightarrow> cluster_cli \<Rightarrow> program_config" where
  "cluster_config L cli = \<lparr>po_storage = \<lparr>sc_wal = default_wal_config, sc_hot_max = default_hot_max, sc_cold = default_cold_config,
       sc_cache_capacity = default_cache_capacity, sc_wake_threshold = default_wake_threshold, sc_lifecycle = default_lifecycle_config,
       sc_index = (default_index_config L)\<lparr>ix_path := path_join (ci_data_dir cli) ''index.hnsw''\<rparr>,
       sc_topological = default_topological_config, sc_merkle = default_merkle_config, sc_shutdown_secs = default_shutdown_secs\<rparr>,
     po_wal_dir = path_join (ci_data_dir cli) ''wal'', po_cold_dir = ''cold_store''\<rparr>"

definition cluster_main :: "'c env \<Rightarrow> (nat \<Rightarrow> nat) \<Rightarrow> (nat \<Rightarrow> f64) \<Rightarrow> (string \<Rightarrow> unit result) \<Rightarrow> program_fs \<Rightarrow> nat \<Rightarrow> cluster_cli \<Rightarrow> 'c cluster_node result" where
  "cluster_main E clk rnd mkdir fs now cli =
     rbind (mkdir (ci_data_dir cli)) (\<lambda>_. rbind (mkdir (path_join (ci_data_dir cli) ''wal'')) (\<lambda>_.
     rbind (open_program E clk rnd fs (cluster_config (ev_libm E) cli)) (\<lambda>storage.
       cluster_node_start now (cluster_node_new \<lparr>id_node_id = ci_node_id cli, id_addr = ci_listen cli\<rparr> (ci_listen cli) storage (ci_query_timeout_ms cli)))))"

section \<open>The shell\<close>

definition shell_config :: "libm \<Rightarrow> args \<Rightarrow> program_config" where
  "shell_config L a = \<lparr>po_storage = \<lparr>sc_wal = \<lparr>segment_size = 1024 * 1024, fsync_interval_ms = 1000, fsync_interval_ops = 10000\<rparr>, sc_hot_max = 10000,
       sc_cold = \<lparr>zstd_level = 0, max_rows_per_file = 100\<rparr>, sc_cache_capacity = 100, sc_wake_threshold = flit F64 (15 / 100), sc_lifecycle = default_lifecycle_config,
       sc_index = \<lparr>ix_enabled = True, ix_dim = ar_dim a, ix_hnsw = default_hnsw_config L, ix_path = path_join (ar_data_dir a) ''index.hnsw''\<rparr>,
       sc_topological = default_topological_config, sc_merkle = default_merkle_config, sc_shutdown_secs = default_shutdown_secs\<rparr>,
     po_wal_dir = path_join (ar_data_dir a) ''wal'', po_cold_dir = ar_cold_dir a\<rparr>"

definition shell_main :: "'c env \<Rightarrow> (nat \<Rightarrow> nat) \<Rightarrow> (nat \<Rightarrow> f64) \<Rightarrow> (plan_node \<Rightarrow> f64) \<Rightarrow> (string \<Rightarrow> unit result) \<Rightarrow> program_fs \<Rightarrow> string list \<Rightarrow>
    exit + query_executor \<times> 'c engine" where
  "shell_main E clk rnd elapsed mkdir fs raw = (case shell_args raw of
       Inl x \<Rightarrow> Inl x
     | Inr a \<Rightarrow> (case rbind (mkdir (ar_data_dir a)) (\<lambda>_. rbind (mkdir (ar_cold_dir a)) (\<lambda>_. open_program E clk rnd fs (shell_config (ev_libm E) a))) of
         Inl _ \<Rightarrow> Inl (ExitWith 1)
       | Inr storage \<Rightarrow> Inr (\<lparr>qe_planner = default_planner_config\<lparr>pc_dim := ar_dim a\<rparr>, qe_libm = ev_libm E, qe_embed = noop_embed, qe_episodic = [],
           qe_elapsed = elapsed\<rparr>, storage)))"

subsection \<open>The table of results\<close>

text \<open>Padding counts characters, that is bytes that do not continue one.\<close>

definition char_count :: "string \<Rightarrow> nat" where
  "char_count s = length (filter (\<lambda>c. \<not> (0x80 \<le> (of_char c :: nat) \<and> (of_char c :: nat) < 0xC0)) s)"

definition pad_right :: "nat \<Rightarrow> string \<Rightarrow> string" where
  "pad_right w s = s @ replicate (w - char_count s) (CHR '' '')"

definition pad_left :: "nat \<Rightarrow> string \<Rightarrow> string" where
  "pad_left w s = replicate (w - char_count s) (CHR '' '') @ s"

text \<open>\<open>{:.4}\<close>: the nearest decimal with four places, ties to even.\<close>

definition show_places4 :: "rat \<Rightarrow> string" where
  "show_places4 q = (let n = nat (rne (q * 10 ^ 4)); frac = show_nat (n mod 10 ^ 4)
     in show_nat (n div 10 ^ 4) @ ''.'' @ replicate (4 - length frac) (CHR ''0'') @ frac)"

fun show_score :: "f32 \<Rightarrow> string" where
  "show_score NaN = ''NaN''"
| "show_score (Infty s) = (if s then ''-inf'' else ''inf'')"
| "show_score NZero = ''-0.0000''"
| "show_score (Num q) = (if q < 0 then CHR ''-'' # show_places4 (- q) else show_places4 q)"

definition table_row :: "(json \<Rightarrow> string) \<Rightarrow> nat \<Rightarrow> scored_result \<Rightarrow> string" where
  "table_row print w r = ''| '' @ pad_left w (show_nat (unat (sr_id r))) @ '' | '' @ pad_left 8 (show_score (sr_score r)) @ '' | '' @
     pad_right 37 (case sr_metadata r of Some m \<Rightarrow> print m | None \<Rightarrow> ''(none)'') @ '' |''"

definition id_width :: "scored_result list \<Rightarrow> nat" where
  "id_width rs = max 2 (Max (set (map (\<lambda>r. length (show_nat (unat (sr_id r)))) rs)))"

definition print_results :: "(json \<Rightarrow> string) \<Rightarrow> scored_result list \<Rightarrow> string list" where
  "print_results print rs = (if rs = [] then [''  (no results)''] else
     [''| '' @ pad_right (id_width rs) ''id'' @ '' | '' @ pad_right 8 ''score'' @ '' | metadata'' @ replicate 27 (CHR '' '') @ ''|'',
      ''|-'' @ replicate (id_width rs) (CHR ''-'') @ ''-|-'' @ replicate 8 (CHR ''-'') @ ''-|'' @ replicate 37 (CHR ''-'') @ ''|''] @
     map (table_row print (id_width rs)) rs)"

section \<open>Discovery through etcd\<close>

text \<open>The calls of the etcd client on the state \<open>'w\<close> of the store; a watch gives the messages of its stream, which ends with an error or with nothing.\<close>

record 'w etcd_client =
  et_connect :: "string list \<Rightarrow> 'w \<Rightarrow> (string + unit) \<times> 'w"
  et_grant :: "int \<Rightarrow> 'w \<Rightarrow> (string + int) \<times> 'w"
  et_put :: "string \<Rightarrow> string \<Rightarrow> int \<Rightarrow> 'w \<Rightarrow> (string + unit) \<times> 'w"
  et_keep_alive :: "int \<Rightarrow> 'w \<Rightarrow> (string + unit) \<times> 'w"
  et_watch :: "string \<Rightarrow> 'w \<Rightarrow> (string + (string + unit option) list) \<times> 'w"

record etcd_discovery =
  ed_lease_id :: int
  ed_node_id :: string
  ed_addr :: string

text \<open>\<open>map_err\<close> to a service error with a text in front.\<close>

definition service_err :: "string \<Rightarrow> string + 'a \<Rightarrow> 'a result" where
  "service_err t r = (case r of Inl e \<Rightarrow> Inl (ServiceError (t @ e)) | Inr x \<Rightarrow> Inr x)"

definition etcd_connect :: "'w etcd_client \<Rightarrow> string list \<Rightarrow> string \<Rightarrow> string \<Rightarrow> int \<Rightarrow> 'w \<Rightarrow> etcd_discovery result \<times> 'w" where
  "etcd_connect A endpoints node_id addr ttl w = (case et_connect A endpoints w of
       (Inl e, w1) \<Rightarrow> (Inl (ServiceError (''failed to connect to etcd: '' @ e)), w1)
     | (Inr _, w1) \<Rightarrow> (case et_grant A ttl w1 of (g, w2) \<Rightarrow>
         (rbind (service_err ''failed to grant lease: '' g) (\<lambda>lease. Inr \<lparr>ed_lease_id = lease, ed_node_id = node_id, ed_addr = addr\<rparr>), w2)))"

definition node_key :: "string \<Rightarrow> string" where
  "node_key node_id = ''/tesseract/nodes/'' @ node_id"

definition etcd_register :: "'w etcd_client \<Rightarrow> etcd_discovery \<Rightarrow> 'w \<Rightarrow> unit result \<times> 'w" where
  "etcd_register A d w = apfst (service_err ''failed to register node in etcd: '') (et_put A (node_key (ed_node_id d)) (ed_addr d) (ed_lease_id d) w)"

definition etcd_heartbeat :: "'w etcd_client \<Rightarrow> etcd_discovery \<Rightarrow> 'w \<Rightarrow> unit result \<times> 'w" where
  "etcd_heartbeat A d w = apfst (service_err ''failed to keep lease alive: '') (et_keep_alive A (ed_lease_id d) w)"

text \<open>The task of a watch: what it sends for the messages of the stream.\<close>

fun watch_task :: "(string + unit option) list \<Rightarrow> node_info list list" where
  "watch_task (Inr (Some _) # ms) = [] # watch_task ms"
| "watch_task _ = []"

definition etcd_watch_nodes :: "'w etcd_client \<Rightarrow> 'w \<Rightarrow> node_info list list result \<times> 'w" where
  "etcd_watch_nodes A w = apfst (\<lambda>r. rbind (service_err ''failed to create etcd watch: '' r) (\<lambda>ms. Inr (watch_task ms))) (et_watch A ''/tesseract/nodes/'' w)"

section \<open>What the programs do\<close>

text \<open>A server without an embedding service answers no query that gives a text instead of a vector, whatever it stores.\<close>

lemma server_refuses_texts:
  assumes "server_start E clk rnd elapsed fs vars = Inr (st, auth, limiter)" and "q_similarity q = Some se" and "se_vector se = None"
  shows "\<exists>e. execute_query (ap_executor st) en timed_out q user = Inl e"
proof -
  have "qe_embed (ap_executor st) = noop_embed" using assms(1) by (auto simp: server_start_def Let_def rbind_eq_Inr)
  then have "resolve_query_vector (ap_executor st) q = Inl (ServiceError ''No embedding service configured. Provide a vector directly or configure an embedding provider.'')"
    using assms(2,3) by (simp add: resolve_query_vector_def noop_embed_def)
  then show ?thesis by (cases "plan_to_tree (qe_libm (ap_executor st)) (qe_planner (ap_executor st)) q") (simp_all add: execute_query_def)
qed

text \<open>The server and the shell plan with the dimension of the index.\<close>

lemma planned_dimension:
  "server_start E clk rnd elapsed fs vars = Inr (st, auth, limiter) \<Longrightarrow> pc_dim (qe_planner (ap_executor st)) = ix_dim (sc_index (po_storage (server_config L s)))"
  "shell_args raw = Inr a \<Longrightarrow> shell_main E clk rnd elapsed mkdir fs raw = Inr (X, en) \<Longrightarrow> pc_dim (qe_planner X) = ix_dim (sc_index (po_storage (shell_config L a)))"
  by (auto simp: server_start_def server_config_def Let_def rbind_eq_Inr default_planner_config_def shell_main_def shell_config_def split: sum.splits)

subsection \<open>The cluster node has no index\<close>

text \<open>The calls of a node that change its engine.\<close>

inductive engine_step :: "'c env \<Rightarrow> 'c engine \<Rightarrow> 'c engine \<Rightarrow> bool" for E where
  insert: "engine_insert E ms secs r vid v meta mode en = Some (res, en') \<Longrightarrow> engine_step E en en'"
| replicate: "apply_replicated_entry E ms r entry en = (res, en') \<Longrightarrow> engine_step E en en'"
| get: "engine_get E vid en = (res', en') \<Longrightarrow> engine_step E en en'"
| tick: "engine_step E en (engine_tick E ev en)"
| shutdown: "engine_shutdown E dl en = Some (res, en') \<Longrightarrow> engine_step E en en'"

inductive_cases engine_stepE: "engine_step E en en'"

text \<open>Nothing that a search could find a candidate in.\<close>

definition unindexed :: "'c engine \<Rightarrow> bool" where
  "unindexed en \<longleftrightarrow> en_index en = None \<and> en_buffer en = None \<and> en_merkle en = None"

lemma unindexed_search: "unindexed en \<Longrightarrow> engine_search query k wm en = Inl IndexNotBuilt"
  by (simp add: unindexed_def engine_search_def engine_candidates_def)

lemma unindexed_log: "unindexed (en\<lparr>en_wal := w, en_dir := d\<rparr>) = unindexed en" "unindexed (en\<lparr>en_tiers := t\<rparr>) = unindexed en" "unindexed (en\<lparr>en_cache := c\<rparr>) = unindexed en"
    "unindexed (set_hot h en) = unindexed en" "unindexed (en\<lparr>en_centroids := ct\<rparr>) = unindexed en" "unindexed (en\<lparr>en_correlations := cr\<rparr>) = unindexed en"
    "unindexed (en\<lparr>en_buckets := bt\<rparr>) = unindexed en"
  by (simp_all add: unindexed_def set_hot_def)

lemma retry_unindexed: "unindexed (snd (retry_insert rec en)) = unindexed en"
  by (simp add: retry_insert_def unindexed_log split: sum.split)

lemma evict_unindexed: "unindexed (snd (evict_and_retry E secs rec en)) = unindexed en"
  by (cases "drain_least_accessed 100 (en_hot en)") (simp add: evict_and_retry_def retry_unindexed unindexed_log Let_def split: prod.split sum.split)

lemma trackers_unindexed:
  assumes "unindexed en"
  shows "unindexed (snd (trackers_stage v meta en))"
proof -
  define en1 where "en1 = (case en_centroids en of None \<Rightarrow> en | Some c \<Rightarrow> en\<lparr>en_centroids := Some (ct_update v meta (categorical_fields (sc_topological (en_config en))) c)\<rparr>)"
  have "unindexed en1" using assms by (simp add: en1_def unindexed_log split: option.split)
  then show ?thesis unfolding trackers_stage_def Let_def en1_def [symmetric]
    by (auto simp: unindexed_log rbind_eq_Inr split: sum.split option.split)
qed

lemma stages_unindexed:
  assumes "unindexed en"
  shows "unindexed (snd (wal_stage E vid v meta mode en))" "unindexed (snd (hot_stage E secs rec en))"
    "index_stage E r vid v en = (Inr (), en)" "buffer_stage E vid v meta en = Some (Inr (), en)"
proof -
  show "unindexed (snd (wal_stage E vid v meta mode en))" using assms by (simp add: wal_stage_def unindexed_log split: sum.split prod.split)
  show "unindexed (snd (hot_stage E secs rec en))" using assms
    by (simp add: hot_stage_def evict_unindexed unindexed_log split: sum.split error.split)
qed (use assms in \<open>simp_all add: unindexed_def index_stage_def buffer_stage_def\<close>)

lemma insert_unindexed:
  assumes "unindexed en" "engine_insert E ms secs r vid v meta mode en = Some (res, en')"
  shows "unindexed en'"
proof -
  obtain a en1 where w: "wal_stage E vid v meta mode en = (a, en1)" "unindexed en1"
    using stages_unindexed(1) [OF assms(1)] by (metis prod.collapse)
  obtain b en2 where t: "trackers_stage v meta en1 = (b, en2)" "unindexed en2"
    using trackers_unindexed [OF w(2)] by (metis prod.collapse)
  obtain c en3 where h: "hot_stage E secs (fresh_record ms vid v meta) en2 = (c, en3)" "unindexed en3"
    using stages_unindexed(2) [OF t(2)] by (metis prod.collapse)
  show ?thesis using assms(2) w t h stages_unindexed(3,4) [OF h(2)]
    by (auto simp: engine_insert_def and_then_def split: sum.splits)
qed

lemma partitions_unindexed: "unindexed en \<Longrightarrow> unindexed (snd (find_in_partitions E vid ps en))"
  by (induction ps) (auto simp: unindexed_log split: sum.split option.split)

lemma step_unindexed: "engine_step E en en' \<Longrightarrow> unindexed en \<Longrightarrow> unindexed en'"
proof (induction rule: engine_step.induct)
  case (insert ms secs r vid v meta mode en res en')
  then show ?case by (blast intro: insert_unindexed)
next
  case (replicate ms r entry en res en')
  then show ?case by (auto simp: apply_replicated_entry_def unindexed_def set_hot_def split: sum.splits)
next
  case (get vid en res' en')
  then show ?case using partitions_unindexed [of en E vid "partitions (t_cold (en_tiers en))"] by (auto simp: engine_get_def split: option.splits)
next
  case (tick en ev)
  then show ?case by (simp add: engine_tick_def unindexed_log)
next
  case (shutdown dl en res en')
  then show ?case by (auto simp: engine_shutdown_def save_index_def drain_buffer_def and_then_def unindexed_def split: if_splits prod.splits)
qed

lemma replay_unindexed: "unindexed en \<Longrightarrow> unindexed (snd (replay_entries E clk rnd n es en))"
proof (induction es arbitrary: n en)
  case (Cons e es)
  obtain a en1 where "apply_replicated_entry E (clk n) (rnd n) e en = (a, en1)" "unindexed en1"
    using step_unindexed [OF engine_step.replicate Cons.prems] by (metis prod.collapse)
  then show ?case using Cons.IH by (cases a) simp_all
qed simp

lemma rbind_InrE: "rbind x f = Inr y \<Longrightarrow> (\<And>a. x = Inr a \<Longrightarrow> f a = Inr y \<Longrightarrow> P) \<Longrightarrow> P"
  by (auto simp: rbind_eq_Inr)

lemma open_unindexed:
  assumes "engine_open E clk rnd cfg d dk files = Inr en" "\<not> ix_enabled (sc_index cfg)" "\<not> mk_enabled (sc_merkle cfg)"
  shows "unindexed en"
proof -
  have i: "open_index E (sc_index cfg) files = Inr None" "open_merkle E (sc_merkle cfg) files = None" using assms(2,3) by (simp_all add: open_index_def open_merkle_def)
  have r: "en_index en1 = None" if "replay_entries E clk rnd 0 entries en0 = (a, en1)" "en_index en0 = None" "en_buffer en0 = None" "en_merkle en0 = None" for entries en0 a en1
    using replay_unindexed [of en0 E clk rnd 0 entries] that by (simp add: unindexed_def)
  show ?thesis using assms(1) unfolding engine_open_def i Let_def
    by (auto simp: unindexed_def assms(3) elim!: rbind_InrE split: prod.split_asm sum.split_asm) (erule r, simp_all)
qed

text \<open>
  The cluster program never answers a search on its own data: it opens its engine with the default configuration, in which neither the index nor the Merkle tier is enabled, so
  after any calls every search of the engine fails with \<open>IndexNotBuilt\<close>, and so does the search of every shard the node leads.
\<close>

lemma cluster_node_never_searches:
  assumes "cluster_main E clk rnd mkdir fs now cli = Inr nd" and "(engine_step E)\<^sup>*\<^sup>* (cn_storage nd) en"
  shows "engine_search query k wm en = Inl IndexNotBuilt" and "local_search C en query ef wm' shard = Inl IndexNotBuilt"
proof -
  obtain storage where o: "open_program E clk rnd fs (cluster_config (ev_libm E) cli) = Inr storage" "cn_storage nd = storage"
    using assms(1) by (auto simp: cluster_main_def rbind_eq_Inr cluster_node_start_def cluster_node_new_def)
  have "unindexed storage"
    by (rule open_unindexed [OF o(1) [unfolded open_program_def]])
      (simp_all add: cluster_config_def default_index_config_def default_merkle_config_def)
  with assms(2) have "unindexed en" unfolding o(2) by (induction rule: rtranclp_induct) (blast intro: step_unindexed)+
  then show "engine_search query k wm en = Inl IndexNotBuilt" "local_search C en query ef wm' shard = Inl IndexNotBuilt"
    by (simp_all add: unindexed_search local_search_def)
qed

subsection \<open>The table\<close>

text \<open>Header, rule and rows of the table differ in width: by one and by two more characters.\<close>

lemma table_widths:
  assumes "rs \<noteq> []" and "r \<in> set rs" and "sr_metadata r = None" and "char_count (show_score (sr_score r)) \<le> 8"
  shows "char_count (print_results print rs ! 0) = id_width rs + 52" and "char_count (print_results print rs ! 1) = id_width rs + 53"
    and "char_count (table_row print (id_width rs) r) = id_width rs + 55"
proof -
  have app: "char_count (s @ t) = char_count s + char_count t" for s t by (simp add: char_count_def)
  have rep: "char_count (replicate n c) = (if 0x80 \<le> (of_char c :: nat) \<and> (of_char c :: nat) < 0xC0 then 0 else n)" for n c
    by (simp add: char_count_def filter_replicate)
  have pads: "char_count (pad_left w s) = max w (char_count s)" "char_count (pad_right w s) = max w (char_count s)" for w s
    by (simp_all add: pad_left_def pad_right_def app rep)
  have w: "2 \<le> id_width rs" "length (show_nat (unat (sr_id r))) \<le> id_width rs"
    using assms(2) by (auto simp: id_width_def intro!: max.coboundedI2 Max_ge)
  have n: "char_count (show_nat k) \<le> length (show_nat k)" for k by (simp add: char_count_def)
  note count = app rep pads
  have lits: "char_count ''| '' = 2" "char_count ''id'' = 2" "char_count '' | '' = 3" "char_count ''score'' = 5" "char_count '' | metadata'' = 11" "char_count ''|'' = 1"
    "char_count ''|-'' = 2" "char_count ''-|-'' = 3" "char_count ''-|'' = 2" "char_count ''(none)'' = 6" "char_count '' |'' = 2"
    by (simp_all add: char_count_def)
  show "char_count (print_results print rs ! 0) = id_width rs + 52" "char_count (print_results print rs ! 1) = id_width rs + 53"
    using assms(1) w(1) by (simp_all add: print_results_def nth_append count lits del: append_Cons)
  show "char_count (table_row print (id_width rs) r) = id_width rs + 55"
    using assms(3,4) w(2) n [of "unat (sr_id r)"] by (simp add: table_row_def count lits del: append_Cons)
qed

subsection \<open>Registration\<close>

text \<open>With a store whose \<open>put\<close> binds the key, registering a node makes its address and lease visible under its key and leaves the keys of all other nodes alone.\<close>

lemma etcd_register_binds:
  assumes "\<And>k v lease w w'. et_put A k v lease w = (Inr (), w') \<Longrightarrow> kv w' = (kv w)(k \<mapsto> (v, lease))"
    and "etcd_register A d w = (Inr (), w')"
  shows "kv w' (node_key (ed_node_id d)) = Some (ed_addr d, ed_lease_id d)" and "n \<noteq> ed_node_id d \<Longrightarrow> kv w' (node_key n) = kv w (node_key n)"
proof -
  obtain r where "et_put A (node_key (ed_node_id d)) (ed_addr d) (ed_lease_id d) w = (r, w')" "service_err ''failed to register node in etcd: '' r = Inr ()"
    using assms(2) by (cases "et_put A (node_key (ed_node_id d)) (ed_addr d) (ed_lease_id d) w") (auto simp: etcd_register_def)
  then have "kv w' = (kv w)(node_key (ed_node_id d) \<mapsto> (ed_addr d, ed_lease_id d))" using assms(1) by (auto simp: service_err_def split: sum.splits)
  then show "kv w' (node_key (ed_node_id d)) = Some (ed_addr d, ed_lease_id d)" "n \<noteq> ed_node_id d \<Longrightarrow> kv w' (node_key n) = kv w (node_key n)"
    by (simp_all add: node_key_def)
qed

text \<open>A watch never tells which nodes there are.\<close>

lemma watch_tells_nothing: "ns \<in> set (watch_task ms) \<Longrightarrow> ns = []"
  by (induction ms rule: watch_task.induct) auto

end
