(* ===== verification/Spec2Isabelle.thy ===== *)
theory Spec2Isabelle
  imports Prelude Floats Wal Core_Types Topological Hot_Store Cold_Store Lifecycle Hnsw Merkle Sharding Cluster Engine Cluster_Node Vql_Executor Vql_Parser Api Grpc Clients Embedding Shell Programs
begin

text \<open>
  \<^bold>\<open>Tesseract\<close> is a vector database in Rust. A storage engine keeps vectors with JSON metadata in a write-ahead log, a hot tier in memory and a cold tier on
  disk; an HNSW graph and a Merkle tree of clusters answer nearest-neighbour searches; a query language (VQL) is planned and executed over the
  engine; a cluster of such nodes shards, replicates and searches; HTTP and gRPC front ends authenticate, limit and serve; a PostgreSQL extension and an MCP server are
  their clients. This development
  models these parts and proves what each of them promises, where it does, and what it does instead where it does not.

  \<^bold>\<open>Conventions.\<close> A \<open>Result\<close> is the sum \<open>error + 'a\<close>; a panic is the extra error value \<open>Panic\<close>. Integers of a fixed width are words of this width; \<open>usize\<close>, lengths, sizes and the
  counters of batches and partitions, which memory and disk bound, are natural numbers. Floats are IEEE 754 on exact
  rationals, rounded once per operation. Strings are their UTF-8 bytes. Maps (\<open>HashMap\<close>, \<open>DashMap\<close>, \<open>BTreeMap\<close>) are association lists. State is passed explicitly; a lock
  serialises the operations that hold it and a poisoned lock is not modelled. Clock readings and random draws are arguments. Code outside the repository is a
  parameter: the CRC, BLAKE3 and SHA-256 functions, \<open>serde_json\<close>, \<open>bincode\<close> and ZSTD, \<open>ln\<close> and \<open>log2\<close>, the embedding service, the token decoder, the parser
  combinators, the network. What the theorems
  need of a parameter (that a decoder inverts its encoder, that a hash has no collision on the values compared) is a hypothesis, and the witness of the
  theorem instantiates it.

  \<^bold>\<open>Theories and sources.\<close>

  \<^item> \<open>Prelude\<close>: errors (\<open>tesseract-common/src/error.rs\<close>), results, association lists, decimal text, stable sorting; the locale \<open>ranking\<close> with what a sort,
    a deduplication and a truncation give for a total preorder, interpreted for every comparison the code sorts with.
  \<^item> \<open>Floats\<close>: \<open>f32\<close> and \<open>f64\<close>.
  \<^item> \<open>Wal\<close> (\<open>tesseract-storage/src/wal.rs\<close>): entry codec, segments, append with group commit, rotation, checkpoint, compaction, recovery, and crashes that keep
    any prefix of unsynced bytes. Locale \<open>append_log\<close>; entries round-trip, the log refines a list, durable entries survive every crash; a torn tail hides later appends.
  \<^item> \<open>Core_Types\<close>, \<open>Topological\<close> (\<open>tesseract-core/src\<close>): projection, distances, footprints; centroid, correlation and bucket trackers and the query bias.
  \<^item> \<open>Hot_Store\<close>, \<open>Cold_Store\<close>, \<open>Lifecycle\<close> (\<open>tesseract-storage/src\<close>): the tiers, the vector skeleton and the ticks that move records. Locale \<open>record_store\<close>; draining takes the
    least accessed, the cold tier refines a map to lists of batches, no sequence of ticks loses a record.
  \<^item> \<open>Hnsw\<close> (\<open>tesseract-index/src/hnsw.rs\<close>): the graph with insert, search, removal and persistence. Locale \<open>ann_index\<close>; the graph invariant, soundness of search,
    termination of the greedy descent at a local optimum, save and load.
  \<^item> \<open>Merkle\<close> (\<open>tesseract-index/src/merkle\<close>): hot buffer and tree; batch insertion keeps hashes, counts and cluster bounds, equal root hashes mean equal clusters,
    search returns the nearest clusters.
  \<^item> \<open>Engine\<close> (\<open>tesseract-storage/src/engine.rs\<close>, \<open>page_cache.rs\<close>, \<open>types.rs\<close>): open, insert, get, search, recovery, replication, shutdown over all of the above; end-to-end
    crash durability, the specification of insert, get and search, and two ways in which acknowledged inserts are lost.
  \<^item> \<open>Sharding\<close>, \<open>Cluster\<close> (\<open>tesseract-cluster/src\<close>): jump hash, shard manager, node registry, election, replication queues, failover, cluster state. The election is a step relation with
    an invariant over its reachable states; locale \<open>shard_map\<close> serves both views of leadership.
  \<^item> \<open>Cluster_Node\<close> (\<open>query_coordinator.rs\<close>, \<open>replication_handler.rs\<close>, \<open>replication_client.rs\<close>, \<open>api.rs\<close>, \<open>cluster_node.rs\<close>): scatter-gather search, the follower's side of replication, the
    handlers of the cluster API and the node. What a distributed search returns and when it is partial, that redelivered batches are harmless, that forwarding an insert is
    transparent when the request survives its JSON form, and that failing leaders are taken for empty ones.
  \<^item> \<open>Vql_Ast\<close>, \<open>Vql_Planner\<close>, \<open>Vql_Executor\<close> (\<open>tesseract-vql/src\<close>): the syntax tree with its \<open>Display\<close>, the planner and the executor. Plans are well typed, results are bounded by
    the limit and the search width, \<open>LIKE\<close> against its usual meaning, and that a filter drops everything.
  \<^item> \<open>Vql_Grammar\<close>, \<open>Vql_Rules\<close>, \<open>Vql_Parser\<close> (\<open>grammar.rs\<close>, \<open>parser.rs\<close>): every rule of the grammar and the entry point, over the combinators of \<open>nom\<close> and the spans of
    \<open>nom_locate\<close>, which are the parameter record \<open>nom\<close>. The hypothesis \<open>nom_ok\<close> says what their documentation does, in terms of the functions \<open>doc_*\<close>, which also give its instance \<open>doc_nom\<close>.
    The parser returns on every input and accepts well-formed queries only; what \<open>Display\<close> prints for a printable query is read back, with its clauses in any order.
  \<^item> \<open>Api\<close> (\<open>tesseract-api/src\<close>, \<open>test_embedding.rs\<close>): authentication, rate limiter, HTTP handlers and layers. Requests without credentials have no effect; how much the limiter admits.
  \<^item> \<open>Grpc\<close> (\<open>tesseract-api/src/grpc.rs\<close>): the calls of the gRPC service, which mirror the HTTP interface in effect and outcome for
    calls within the rate limit; they are not limited themselves.
  \<^item> \<open>Clients\<close> (\<open>tesseract-pg/src\<close>, \<open>tesseract-mcp/src/main.rs\<close>): the SQL functions and the tools of the MCP server with the requests they make; SQL inserts reach the engine, and the
    inserts of the MCP server are refused by a server that wants a number as the identifier.
  \<^item> \<open>Embedding\<close> (\<open>tesseract-core/src/embedding.rs\<close>) and \<open>Shell\<close> (\<open>tesseract-vql/src/repl.rs\<close>): the embedding client with its retries, which always returns, and the loop of the interactive shell, which
    runs only what parses.
  \<^item> \<open>Programs\<close> (\<open>tesseract-api/src/main.rs\<close>, \<open>tesseract-cluster/src/main.rs\<close>, \<open>repl.rs\<close>, \<open>etcd_discovery.rs\<close>): what the server, the cluster node and the shell put together at their start, the table of
    results, and the etcd discovery. The cluster node has no index and never answers a search on its own data; the server answers no query that gives a text.

  \<^bold>\<open>Loops.\<close> Loops whose end depends on more than the shape of the data are functions with a termination measure (\<open>read_entries_from\<close>, \<open>read_batches\<close>, \<open>greedy_loop\<close>, \<open>layer_loop\<close>,
  \<open>build_loop\<close>, \<open>embed_loop\<close>) or, where the code may run forever, partial functions into \<open>option\<close> (\<open>split_loop\<close>, \<open>jump_loop\<close>, \<open>clause_loop\<close>), whose theorems state that a result is returned. The one use of fuel is
  \<open>trim_fuel\<close>, which gets the length of its string and drops at least one byte per step; the repetition that documents \<open>many0\<close> is bounded by the length of the input in the
  same way.

  \<^bold>\<open>Concurrency.\<close> Operations under a lock are atomic steps; tasks that share state only through locks are sequences of such steps in any order (log appends, replication events, election
  steps, lifecycle ticks). Every shard task of a distributed search sees its own state of the cluster. Interleavings inside an operation that takes several locks one
  after the other are not modelled.

  \<^bold>\<open>Not modelled.\<close> Sockets, TLS, signals and logging of the programs; the frameworks that call the modelled handlers (\<open>axum\<close>, \<open>tonic\<close>, \<open>pgrx\<close>, \<open>rmcp\<close>, \<open>clap\<close>) and the etcd store;
  measured times, log messages and metrics; banners and help texts; benchmarks and examples.
\<close>

section \<open>From the text of a query to its answer\<close>

text \<open>The parser as the executor calls it.\<close>

definition vql_parse :: "nom \<Rightarrow> string \<Rightarrow> query result" where
  "vql_parse N input = (case parse N input of Some r \<Rightarrow> r | None \<Rightarrow> Inl Panic)"

text \<open>
  The text of a printable query, its clauses in any order, gets over HTTP the results of the query it stands for, or the error of its execution with status 400.
\<close>

lemma text_query_answer:
  assumes "nom_ok N" and "printable q" and "mset cs = mset (clauses_of q)"
  shows "query_handler (vql_parse N) False \<lparr>qq_vql = show_head q @ concat (map show_clause cs), qq_user_id = user\<rparr> st =
    (case execute_query (ap_executor st) (ap_storage st) False q user of
      Inr res \<Rightarrow> (OK, \<lparr>qs_success = True, qs_results = qr_results res, qs_total = length (qr_results res), qs_error = None\<rparr>)
    | Inl e \<Rightarrow> (BAD_REQUEST, \<lparr>qs_success = False, qs_results = [], qs_total = 0, qs_error = Some (Display e)\<rparr>))"
  using parse_any_order [OF assms]
  by (auto simp: query_handler_def execute_vql_def vql_parse_def elim: execute_limited split: sum.split)

end
